(* ===== verification/Prelude.thy ===== *)
theory Prelude
  imports Main "HOL-Library.Word" "HOL-Library.Sublist" "HOL-Library.List_Lexorder"
    "HOL-Library.Char_ord" "HOL-Library.Code_Target_Numeral"
begin

text \<open>
  Shared vocabulary of the development: machine integer types, the outcome type of fallible
  Rust functions (value, \<open>anyhow::bail!\<close>, panic), and the string operations of Rust's standard
  library that the program uses.  A Rust \<open>&str\<close> is its UTF-8 byte sequence, an Isabelle
  \<open>string\<close> whose characters are bytes, so byte offsets, \<open>len\<close>, \<open>find\<close>, \<open>contains\<close>, \<open>split\<close> at an
  ASCII character and slices are the list operations.  Unicode white space is recognised through
  its UTF-8 encodings.  Case mapping outside ASCII is a table of the standard library and is a
  parameter \<open>lc\<close> of the definitions that use it.
\<close>

unbundle bit_operations_syntax

type_synonym u8 = "8 word"
type_synonym u16 = "16 word"
type_synonym u32 = "32 word"

named_theorems str_simps \<open>unfolding equations of the string operations\<close>
named_theorems bound_simps \<open>length and bound facts used by the packet parsers\<close>

section \<open>Outcomes\<close>

text \<open>\<open>Result\<close> with \<open>anyhow\<close> errors, and the panics Rust raises on bad indices.\<close>

datatype 'a outcome = Ok 'a | Bail string | Panic

primrec bind_outcome :: "'a outcome \<Rightarrow> ('a \<Rightarrow> 'b outcome) \<Rightarrow> 'b outcome" where
  "bind_outcome (Ok x) f = f x"
| "bind_outcome (Bail e) f = Bail e"
| "bind_outcome Panic f = Panic"

lemma bind_outcome_Ok [simp]:
  "bind_outcome m f = Ok y \<longleftrightarrow> (\<exists>x. m = Ok x \<and> f x = Ok y)"
  by (cases m) auto

section \<open>Substrings\<close>

text \<open>\<open>str::find\<close>: byte offset of the first occurrence.\<close>

fun find_sub :: "string \<Rightarrow> string \<Rightarrow> nat option" where
  "find_sub [] t = (if t = [] then Some 0 else None)"
| "find_sub (c # s) t =
     (if prefix t (c # s) then Some 0 else map_option Suc (find_sub s t))"

definition contains_sub :: "string \<Rightarrow> string \<Rightarrow> bool" where
  "contains_sub s t = (find_sub s t \<noteq> None)"

lemma find_sub_SomeD:
  "find_sub s t = Some i \<Longrightarrow> i + length t \<le> length s \<and> take (length t) (drop i s) = t"
proof (induction s arbitrary: i)
  case Nil
  then show ?case by (auto split: if_splits)
next
  case (Cons c s)
  show ?case
  proof (cases "prefix t (c # s)")
    case True
    with Cons.prems have "i = 0" by simp
    with True show ?thesis
      using prefix_length_le [OF True] by (auto simp: prefix_def)
  next
    case False
    with Cons.prems obtain j where "i = Suc j" "find_sub s t = Some j" by auto
    with Cons.IH [of j] show ?thesis by simp
  qed
qed

lemma find_sub_bound [bound_simps]: "find_sub s t = Some i \<Longrightarrow> i + length t \<le> length s"
  using find_sub_SomeD by blast

lemma find_sub_None: "find_sub s t = None \<longleftrightarrow> (\<forall>u v. s \<noteq> u @ t @ v)"
proof (induction s)
  case Nil
  then show ?case by auto
next
  case (Cons c s)
  have "(\<exists>u v. c # s = u @ t @ v) \<longleftrightarrow> prefix t (c # s) \<or> (\<exists>u v. s = u @ t @ v)"
    by (auto simp: prefix_def Cons_eq_append_conv)
  with Cons.IH show ?case by auto
qed

lemma contains_sub_iff: "contains_sub s t \<longleftrightarrow> (\<exists>u v. s = u @ t @ v)"
  using find_sub_None [of s t] by (auto simp: contains_sub_def)

lemma contains_sub_Nil [simp]: "contains_sub s []"
  unfolding contains_sub_iff by (metis append_Nil)

lemma find_sub_char_None: "find_sub s [c] = None \<longleftrightarrow> c \<notin> set s"
  by (auto simp: find_sub_None in_set_conv_decomp)

lemma find_sub_char_split:
  "c \<notin> set u \<Longrightarrow> find_sub (u @ c # v) [c] = Some (length u)"
  by (induction u) auto

lemma find_sub_after: "hd t \<notin> set s \<Longrightarrow> t \<noteq> [] \<Longrightarrow> find_sub (s @ t @ r) t = Some (length s)"
  by (induction s) (auto simp: prefix_def neq_Nil_conv)

definition strip_prefix :: "string \<Rightarrow> string \<Rightarrow> string option" where
  "strip_prefix s p = (if prefix p s then Some (drop (length p) s) else None)"

lemma strip_prefix_append [simp]: "strip_prefix (p @ s) p = Some s"
  by (simp add: strip_prefix_def)

text \<open>\<open>str::split(c)\<close> for an ASCII character: always at least one part.\<close>

fun split_on :: "char \<Rightarrow> string \<Rightarrow> string list" where
  "split_on c [] = [[]]"
| "split_on c (x # xs) =
     (if x = c then [] # split_on c xs
      else (case split_on c xs of [] \<Rightarrow> [[x]] | p # ps \<Rightarrow> (x # p) # ps))"

lemma split_on_nonempty [simp]: "split_on c s \<noteq> []"
  by (induction s) (auto split: list.splits)

fun join :: "string \<Rightarrow> string list \<Rightarrow> string" where
  "join sep [] = []"
| "join sep [x] = x"
| "join sep (x # y # ys) = x @ sep @ join sep (y # ys)"

lemma join_Cons: "ys \<noteq> [] \<Longrightarrow> join sep (x # ys) = x @ sep @ join sep ys"
  by (cases ys) auto

lemma join_append:
  "xs \<noteq> [] \<Longrightarrow> ys \<noteq> [] \<Longrightarrow> join sep (xs @ ys) = join sep xs @ sep @ join sep ys"
  by (induction xs rule: induct_list012) (auto simp: join_Cons)

lemma join_split_on: "join [c] (split_on c s) = s"
proof (induction s)
  case (Cons x xs)
  show ?case
  proof (cases "split_on c xs")
    case (Cons p ps)
    with Cons.IH show ?thesis by (cases ps) auto
  qed simp
qed simp

lemma split_on_no_sep: "p \<in> set (split_on c s) \<Longrightarrow> c \<notin> set p"
proof (induction s arbitrary: p)
  case (Cons x xs)
  then show ?case by (cases "split_on c xs") (auto split: if_splits)
qed simp

lemma split_on_single: "c \<notin> set s \<Longrightarrow> split_on c s = [s]"
  by (induction s) auto

lemma split_on_append: "c \<notin> set u \<Longrightarrow> split_on c (u @ c # v) = u # split_on c v"
  by (induction u) auto

lemma split_on_join: "xs \<noteq> [] \<Longrightarrow> (\<And>x. x \<in> set xs \<Longrightarrow> c \<notin> set x) \<Longrightarrow> split_on c (join [c] xs) = xs"
proof (induction xs)
  case (Cons x xs)
  then show ?case by (cases "xs = []") (simp_all add: split_on_single split_on_append join_Cons)
qed simp

section \<open>White space\<close>

text \<open>
  The UTF-8 encodings of the characters with the Unicode property White_Space, the ones
  \<open>char::is_whitespace\<close>, \<open>trim\<close> and \<open>split_whitespace\<close> use.
\<close>

definition ws_seqs :: "string list" where
  "ws_seqs =
     [[CHR 0x20], [CHR 0x09], [CHR 0x0A], [CHR 0x0B], [CHR 0x0C], [CHR 0x0D],
      [CHR 0xC2, CHR 0x85], [CHR 0xC2, CHR 0xA0], [CHR 0xE1, CHR 0x9A, CHR 0x80],
      [CHR 0xE2, CHR 0x80, CHR 0x80], [CHR 0xE2, CHR 0x80, CHR 0x81],
      [CHR 0xE2, CHR 0x80, CHR 0x82], [CHR 0xE2, CHR 0x80, CHR 0x83],
      [CHR 0xE2, CHR 0x80, CHR 0x84], [CHR 0xE2, CHR 0x80, CHR 0x85],
      [CHR 0xE2, CHR 0x80, CHR 0x86], [CHR 0xE2, CHR 0x80, CHR 0x87],
      [CHR 0xE2, CHR 0x80, CHR 0x88], [CHR 0xE2, CHR 0x80, CHR 0x89],
      [CHR 0xE2, CHR 0x80, CHR 0x8A], [CHR 0xE2, CHR 0x80, CHR 0xA8],
      [CHR 0xE2, CHR 0x80, CHR 0xA9], [CHR 0xE2, CHR 0x80, CHR 0xAF],
      [CHR 0xE2, CHR 0x81, CHR 0x9F], [CHR 0xE3, CHR 0x80, CHR 0x80]]"

definition is_ws :: "string \<Rightarrow> bool" where
  "is_ws ch = (ch \<in> set ws_seqs)"

text \<open>Byte length of the white-space character a string starts (ends) with, 0 for none.\<close>

definition ws_len :: "string \<Rightarrow> nat" where
  "ws_len s = (case find (\<lambda>w. prefix w s) ws_seqs of None \<Rightarrow> 0 | Some w \<Rightarrow> length w)"

definition ws_len_end :: "string \<Rightarrow> nat" where
  "ws_len_end s = (case find (\<lambda>w. suffix w s) ws_seqs of None \<Rightarrow> 0 | Some w \<Rightarrow> length w)"

lemma ws_seqs_nonempty: "w \<in> set ws_seqs \<Longrightarrow> w \<noteq> []"
  by (auto simp: ws_seqs_def)

lemma ws_len_le [bound_simps]: "ws_len s \<le> length s"
  by (auto simp: ws_len_def find_Some_iff split: option.splits dest!: prefix_length_le)

lemma ws_len_end_le [bound_simps]: "ws_len_end s \<le> length s"
  by (auto simp: ws_len_end_def find_Some_iff split: option.splits dest!: suffix_length_le)

lemma ws_len_Nil [simp]: "ws_len [] = 0"
  using ws_len_le [of "[]"] by simp

lemma ws_len_end_Nil [simp]: "ws_len_end [] = 0"
  using ws_len_end_le [of "[]"] by simp

function trim_start :: "string \<Rightarrow> string" where
  "trim_start s = (if ws_len s = 0 then s else trim_start (drop (ws_len s) s))"
  by pat_completeness auto
termination
  by (relation "measure length") (auto intro!: diff_less simp: gr0_conv_Suc)

function trim_end :: "string \<Rightarrow> string" where
  "trim_end s = (if ws_len_end s = 0 then s else trim_end (take (length s - ws_len_end s) s))"
  by pat_completeness auto
termination
  by (relation "measure length") (auto intro!: diff_less)

declare trim_start.simps [simp del] trim_end.simps [simp del]

definition trim :: "string \<Rightarrow> string" where
  "trim s = trim_end (trim_start s)"

lemma ws_len_trim_start [simp]: "ws_len (trim_start s) = 0"
  by (induction s rule: trim_start.induct) (subst trim_start.simps, simp)

lemma ws_len_end_trim_end [simp]: "ws_len_end (trim_end s) = 0"
  by (induction s rule: trim_end.induct) (subst trim_end.simps, simp)

lemma length_trim_start [bound_simps]: "length (trim_start s) \<le> length s"
proof (induction s rule: trim_start.induct)
  case (1 s)
  then show ?case
    by (subst trim_start.simps) (auto intro: le_trans)
qed

lemma trim_end_prefix: "prefix (trim_end s) s"
proof (induction s rule: trim_end.induct)
  case (1 s)
  then show ?case
    by (subst trim_end.simps) (auto intro: prefix_order.order_trans take_is_prefix)
qed

lemma trim_start_suffix: "suffix (trim_start s) s"
proof (induction s rule: trim_start.induct)
  case (1 s)
  then show ?case
    by (subst trim_start.simps) (auto intro: suffix_order.order_trans suffix_drop)
qed

lemma set_trim: "set (trim s) \<subseteq> set s"
  unfolding trim_def
  by (meson set_mono_prefix set_mono_suffix subset_trans trim_end_prefix trim_start_suffix)

text \<open>\<open>trim_matches\<close> and \<open>trim_end_matches\<close> for an ASCII character.\<close>

definition trim_matches :: "char \<Rightarrow> string \<Rightarrow> string" where
  "trim_matches c s = rev (dropWhile (\<lambda>d. d = c) (rev (dropWhile (\<lambda>d. d = c) s)))"

definition trim_end_matches :: "char \<Rightarrow> string \<Rightarrow> string" where
  "trim_end_matches c s = rev (dropWhile (\<lambda>d. d = c) (rev s))"

text \<open>\<open>split_whitespace\<close>.\<close>

fun word_len :: "string \<Rightarrow> nat" where
  "word_len [] = 0"
| "word_len (c # s) = (if ws_len (c # s) = 0 then Suc (word_len s) else 0)"

lemma word_len_le [bound_simps]: "word_len s \<le> length s"
  by (induction s) auto

lemma word_len_pos: "s \<noteq> [] \<Longrightarrow> ws_len s = 0 \<Longrightarrow> 0 < word_len s"
  by (cases s) auto

function split_ws :: "string \<Rightarrow> string list" where
  "split_ws s =
     (let t = trim_start s
      in if t = [] then [] else take (word_len t) t # split_ws (drop (word_len t) t))"
  by pat_completeness auto
termination
proof (relation "measure length")
  fix s t
  assume "t = trim_start s" "t \<noteq> []"
  then show "(drop (word_len t) t, s) \<in> measure length"
    using length_trim_start [of s] word_len_pos [of t] word_len_le [of t] by auto
qed simp

declare split_ws.simps [simp del]

text \<open>
  \<open>str::lines\<close>: a line ends at a line feed, which with one preceding carriage return is not part
  of it; what follows the last line feed is a line only if it is not empty.
\<close>

definition strip_cr :: "string \<Rightarrow> string" where
  "strip_cr s = (if s \<noteq> [] \<and> last s = CHR 0x0D then butlast s else s)"

definition lines :: "string \<Rightarrow> string list" where
  "lines s =
     (let ps = split_on (CHR 0x0A) s
      in map strip_cr (butlast ps) @ (if last ps = [] then [] else [last ps]))"

section \<open>ASCII case, digits and decimal numbers\<close>

definition byte :: "char \<Rightarrow> nat" where
  "byte c = of_char c"

lemma byte_less [bound_simps]: "byte c < 256"
  by (simp add: byte_def)

definition is_ascii :: "char \<Rightarrow> bool" where
  "is_ascii c = (byte c < 128)"

definition is_digit :: "char \<Rightarrow> bool" where
  "is_digit c = (48 \<le> byte c \<and> byte c \<le> 57)"

definition is_upper :: "char \<Rightarrow> bool" where
  "is_upper c = (65 \<le> byte c \<and> byte c \<le> 90)"

definition is_lower :: "char \<Rightarrow> bool" where
  "is_lower c = (97 \<le> byte c \<and> byte c \<le> 122)"

definition is_alnum :: "char \<Rightarrow> bool" where
  "is_alnum c = (is_digit c \<or> is_upper c \<or> is_lower c)"

definition ascii_lower :: "char \<Rightarrow> char" where
  "ascii_lower c = (if is_upper c then char_of (byte c + 32) else c)"

definition ascii_upper :: "char \<Rightarrow> char" where
  "ascii_upper c = (if is_lower c then char_of (byte c - 32) else c)"

definition eq_ignore_ascii_case :: "string \<Rightarrow> string \<Rightarrow> bool" where
  "eq_ignore_ascii_case a b = (map ascii_lower a = map ascii_lower b)"

text \<open>
  \<open>str::to_lowercase\<close> is the ASCII mapping on ASCII strings; on others it is a Unicode table of the
  standard library, the parameter \<open>lc\<close>.
\<close>

definition to_lowercase :: "(string \<Rightarrow> string) \<Rightarrow> string \<Rightarrow> string" where
  "to_lowercase lc s = (if list_all is_ascii s then map ascii_lower s else lc s)"

lemma ws_heads: "list_all (\<lambda>w. \<not> is_alnum (hd w) \<and> w \<noteq> []) ws_seqs"
  by code_simp

lemma ws_len_alnum: "is_alnum c \<Longrightarrow> ws_len (c # s) = 0"
proof -
  assume c: "is_alnum c"
  have "\<not> prefix w (c # s)" if "w \<in> set ws_seqs" for w
  proof -
    have "w \<noteq> []" "\<not> is_alnum (hd w)" using ws_heads that by (auto simp: list_all_iff)
    then show ?thesis using c by (auto simp: prefix_def neq_Nil_conv)
  qed
  then have "find (\<lambda>w. prefix w (c # s)) ws_seqs = None" by (simp add: find_None_iff)
  then show ?thesis by (simp add: ws_len_def)
qed

lemma ws_lasts: "list_all (\<lambda>w. \<not> is_alnum (last w) \<and> w \<noteq> []) ws_seqs"
  by code_simp

lemma ws_len_end_alnum: "is_alnum c \<Longrightarrow> ws_len_end (s @ [c]) = 0"
proof -
  assume c: "is_alnum c"
  have "\<not> suffix w (s @ [c])" if "w \<in> set ws_seqs" for w
  proof -
    have "w \<noteq> []" "\<not> is_alnum (last w)" using ws_lasts that by (auto simp: list_all_iff)
    then show ?thesis using c by (cases w rule: rev_cases) (auto simp: suffix_def)
  qed
  then have "find (\<lambda>w. suffix w (s @ [c])) ws_seqs = None" by (simp add: find_None_iff)
  then show ?thesis by (simp add: ws_len_end_def)
qed

lemma trim_alnum: "s \<noteq> [] \<Longrightarrow> is_alnum (hd s) \<Longrightarrow> is_alnum (last s) \<Longrightarrow> trim s = s"
proof -
  assume s: "s \<noteq> []" "is_alnum (hd s)" "is_alnum (last s)"
  have "ws_len s = 0" using s(1,2) ws_len_alnum [of "hd s" "tl s"] by simp
  then have "trim_start s = s" by (subst trim_start.simps) simp
  moreover have "ws_len_end s = 0" using s(1,3) ws_len_end_alnum [of "last s" "butlast s"] by simp
  then have "trim_end s = s" by (subst trim_end.simps) simp
  ultimately show ?thesis by (simp add: trim_def)
qed

lemma byte_char_of [simp]: "n < 256 \<Longrightarrow> byte (char_of n) = n"
  by (simp add: byte_def)

lemma byte_eq_iff [simp]: "byte c = byte d \<longleftrightarrow> c = d"
  by (simp add: byte_def)

lemma byte_ascii_lower: "byte (ascii_lower c) = (if is_upper c then byte c + 32 else byte c)"
  by (simp add: ascii_lower_def is_upper_def)

lemma ascii_lower_idem [simp]: "ascii_lower (ascii_lower c) = ascii_lower c"
  by (auto simp: is_upper_def byte_ascii_lower ascii_lower_def [of "ascii_lower c"])

lemma ascii_lower_not_upper [simp]: "\<not> is_upper (ascii_lower c)"
  by (auto simp: is_upper_def byte_ascii_lower)

lemma eq_ignore_ascii_case_refl [simp]: "eq_ignore_ascii_case a a"
  by (simp add: eq_ignore_ascii_case_def)

fun dec :: "nat \<Rightarrow> string" where
  "dec n = (if n < 10 then [char_of (48 + n)] else dec (n div 10) @ [char_of (48 + n mod 10)])"

declare dec.simps [simp del]

fun digits_value :: "nat \<Rightarrow> string \<Rightarrow> nat option" where
  "digits_value a [] = Some a"
| "digits_value a (c # s) =
     (if is_digit c then digits_value (10 * a + (byte c - 48)) s else None)"

text \<open>
  \<open>str::parse\<close> for an unsigned type with maximum \<open>m\<close>: an optional \<open>+\<close>, then at least one
  digit, and no overflow.
\<close>

definition parse_uint :: "nat \<Rightarrow> string \<Rightarrow> nat option" where
  "parse_uint m s =
     (let t = (if s \<noteq> [] \<and> hd s = CHR ''+'' then tl s else s)
      in if t = [] then None
         else (case digits_value 0 t of None \<Rightarrow> None
               | Some v \<Rightarrow> if v \<le> m then Some v else None))"

definition parse_u16 :: "string \<Rightarrow> u16 option" where
  "parse_u16 s = map_option of_nat (parse_uint 65535 s)"

lemma digits_value_append:
  "digits_value a (s @ t) = (case digits_value a s of None \<Rightarrow> None | Some b \<Rightarrow> digits_value b t)"
  by (induction s arbitrary: a) auto

lemma is_digit_char_of: "d < 10 \<Longrightarrow> is_digit (char_of (48 + d)) \<and> byte (char_of (48 + d)) = 48 + d"
  by (simp add: is_digit_def)

lemma digits_value_dec: "digits_value 0 (dec n) = Some n"
proof (induction n rule: dec.induct)
  case (1 n)
  show ?case
  proof (cases "n < 10")
    case True
    then show ?thesis using is_digit_char_of [of n] by (simp add: dec.simps [of n])
  next
    case False
    then show ?thesis
      using 1 is_digit_char_of [of "n mod 10"] by (subst dec.simps) (simp add: digits_value_append)
  qed
qed

lemma dec_nonempty [simp]: "dec n \<noteq> []"
  by (subst dec.simps) simp

lemma dec_digits: "c \<in> set (dec n) \<Longrightarrow> is_digit c"
proof (induction n rule: dec.induct)
  case (1 n)
  then show ?case
    using is_digit_char_of [of n] is_digit_char_of [of "n mod 10"]
    by (subst (asm) dec.simps) (auto split: if_splits)
qed

lemma parse_uint_dec: "n \<le> m \<Longrightarrow> parse_uint m (dec n) = Some n"
proof -
  assume n: "n \<le> m"
  have "hd (dec n) \<noteq> CHR ''+''"
    using dec_digits [of "hd (dec n)" n] by (auto simp: is_digit_def byte_def)
  then show ?thesis using n by (simp add: parse_uint_def digits_value_dec)
qed

lemma dec_inject: "dec m = dec n \<longleftrightarrow> m = n"
  by (metis digits_value_dec option.inject)

lemma parse_uint_le: "parse_uint m s = Some v \<Longrightarrow> v \<le> m"
  by (auto simp: parse_uint_def Let_def split: if_splits option.splits)

lemma parse_u16_dec: "parse_u16 (dec (unat p)) = Some p"
proof -
  have "unat p < 2 ^ LENGTH(16)" by (rule unsigned_less)
  then have "unat p \<le> 65535" by simp
  then show ?thesis by (simp add: parse_u16_def parse_uint_dec)
qed

section \<open>Sorted distinct lists\<close>

text \<open>\<open>Vec::sort\<close> followed by \<open>Vec::dedup\<close>; the ordering of strings is the one of their bytes.\<close>

definition sort_dedup :: "'a::linorder list \<Rightarrow> 'a list" where
  "sort_dedup xs = remdups_adj (sort xs)"

text \<open>Iterating a \<open>BTreeSet\<close> built by inserting the elements of a list.\<close>

definition btree_set :: "'a::linorder list \<Rightarrow> 'a list" where
  "btree_set xs = sort (remdups xs)"

lemma set_sort_dedup [simp]: "set (sort_dedup xs) = set xs"
  by (simp add: sort_dedup_def)

lemma distinct_remdups_adj_sorted: "sorted xs \<Longrightarrow> distinct (remdups_adj xs)"
  by (induction xs rule: remdups_adj.induct) (auto intro: order.antisym)

lemma sorted_distinct_sort_dedup: "sorted (sort_dedup xs) \<and> distinct (sort_dedup xs)"
  by (simp add: sort_dedup_def sorted_remdups_adj distinct_remdups_adj_sorted)

lemma set_btree_set [simp]: "set (btree_set xs) = set xs"
  by (simp add: btree_set_def)

lemma sorted_distinct_btree_set: "sorted (btree_set xs) \<and> distinct (btree_set xs)"
  by (simp add: btree_set_def)

lemma btree_set_cong: "set xs = set ys \<Longrightarrow> btree_set xs = btree_set ys"
  by (rule sorted_distinct_set_unique) (simp_all add: btree_set_def)

lemma btree_set_idem: "btree_set (btree_set xs) = btree_set xs"
  by (rule btree_set_cong) simp

lemma sort_dedup_cong: "set xs = set ys \<Longrightarrow> sort_dedup xs = sort_dedup ys"
  using sorted_distinct_sort_dedup [of xs] sorted_distinct_sort_dedup [of ys]
  by (intro sorted_distinct_set_unique) auto

lemma filter_key: "distinct (map f xs) \<Longrightarrow> x \<in> set xs \<Longrightarrow> filter (\<lambda>y. f y = f x) xs = [x]"
proof (induction xs)
  case (Cons z xs)
  show ?case
  proof (cases "z = x")
    case True
    then have "f x \<notin> f ` set xs" using Cons.prems(1) by simp
    then have "\<forall>y\<in>set xs. f y \<noteq> f x" by (metis imageI)
    then show ?thesis using True by (simp add: filter_empty_conv)
  next
    case False
    then have "f z \<noteq> f x" using Cons.prems by force
    then show ?thesis using False Cons by simp
  qed
qed simp

lemma find_key:
  fixes xs :: "'a list"
  assumes "distinct (map f xs)" "x \<in> set xs"
  shows "find (\<lambda>y. f y = f x) xs = Some x"
proof -
  have "find P ys = (case filter P ys of [] \<Rightarrow> None | y # _ \<Rightarrow> Some y)" for P :: "'a \<Rightarrow> bool" and ys
    by (induction ys) auto
  then show ?thesis using filter_key [OF assms] by simp
qed

end
