(* ===== verification/Utf8.thy ===== *)
theory Utf8
  imports Prelude
begin

text \<open>
  Bytes and text: the conversions between \<open>[u8]\<close> and \<open>str\<close> that the probes rely on
  (\<open>as_bytes\<close>, \<open>std::str::from_utf8\<close>, \<open>String::from_utf8_lossy\<close>), following the validation loop of
  Rust's \<open>core::str\<close>: a maximal ill-formed prefix of a sequence is replaced by U+FFFD.  The
  lemmas say which bytes valid text can hold; the binary probes that go through
  \<open>net::read_reply\<close> depend on them.
\<close>

definition char_of_u8 :: "u8 \<Rightarrow> char" where
  "char_of_u8 b = char_of (unat b)"

definition u8_of_char :: "char \<Rightarrow> u8" where
  "u8_of_char c = of_nat (byte c)"

definition as_str :: "u8 list \<Rightarrow> string" where
  "as_str bs = map char_of_u8 bs"

definition as_bytes :: "string \<Rightarrow> u8 list" where
  "as_bytes s = map u8_of_char s"

lemma u8_of_char_of [simp]: "u8_of_char (char_of_u8 b) = b"
proof -
  have "unat b < 2 ^ LENGTH(8)" by (rule unsigned_less)
  then show ?thesis by (simp add: u8_of_char_def char_of_u8_def)
qed

lemma char_of_u8_of [simp]: "char_of_u8 (u8_of_char c) = c"
  using byte_less [of c] by (simp add: u8_of_char_def char_of_u8_def unat_of_nat byte_def)

lemma as_bytes_as_str [simp]: "as_bytes (as_str bs) = bs"
  by (simp add: as_bytes_def as_str_def o_def)

lemma as_str_as_bytes [simp]: "as_str (as_bytes s) = s"
  by (simp add: as_bytes_def as_str_def o_def)

lemma as_str_append [simp]: "as_str (a @ b) = as_str a @ as_str b"
  by (simp add: as_str_def)

lemma as_bytes_append [simp]: "as_bytes (a @ b) = as_bytes a @ as_bytes b"
  by (simp add: as_bytes_def)

lemma length_as_str [simp]: "length (as_str bs) = length bs"
  by (simp add: as_str_def)

lemma length_as_bytes [simp]: "length (as_bytes s) = length s"
  by (simp add: as_bytes_def)

lemma as_bytes_Nil [simp]: "as_bytes [] = []" "as_str [] = []"
  by (simp_all add: as_bytes_def as_str_def)

lemma u8_of_char_less: "u8_of_char c < 0x80 \<longleftrightarrow> is_ascii c"
  using byte_less [of c] by (simp add: u8_of_char_def is_ascii_def word_less_nat_alt unat_of_nat)

lemmas word_ord_nat = word_le_nat_alt word_less_nat_alt

section \<open>One step of the validation loop\<close>

definition safe_get :: "u8 list \<Rightarrow> nat \<Rightarrow> u8" where
  "safe_get bs i = (if i < length bs then bs ! i else 0)"

definition is_cont :: "u8 \<Rightarrow> bool" where
  "is_cont b = (0x80 \<le> b \<and> b \<le> 0xBF)"

text \<open>Where a string may be sliced.\<close>

definition char_boundary :: "string \<Rightarrow> nat \<Rightarrow> bool" where
  "char_boundary inp p =
     (p = 0 \<or> p = length inp \<or> (p < length inp \<and> \<not> is_cont (u8_of_char (inp ! p))))"

lemma char_boundary_ascii: "k < length s \<Longrightarrow> is_ascii (s ! k) \<Longrightarrow> char_boundary s k"
  by (simp add: char_boundary_def is_cont_def flip: u8_of_char_less) (simp add: word_ord_nat)

definition second3 :: "u8 \<Rightarrow> u8 \<Rightarrow> bool" where
  "second3 b c =
     (if b = 0xE0 then 0xA0 \<le> c \<and> c \<le> 0xBF
      else if b = 0xED then 0x80 \<le> c \<and> c \<le> 0x9F else is_cont c)"

definition second4 :: "u8 \<Rightarrow> u8 \<Rightarrow> bool" where
  "second4 b c =
     (if b = 0xF0 then 0x90 \<le> c \<and> c \<le> 0xBF
      else if b = 0xF4 then 0x80 \<le> c \<and> c \<le> 0x8F else is_cont c)"

text \<open>
  The number of bytes of the next chunk of a non-empty sequence, and whether it is a well-formed
  character.
\<close>

definition utf8_step :: "u8 list \<Rightarrow> nat \<times> bool" where
  "utf8_step bs =
     (let b = safe_get bs 0; c = safe_get bs 1; d = safe_get bs 2; e = safe_get bs 3
      in if b < 0x80 then (1, True)
         else if 0xC2 \<le> b \<and> b \<le> 0xDF then (if is_cont c then (2, True) else (1, False))
         else if 0xE0 \<le> b \<and> b \<le> 0xEF then
           (if \<not> second3 b c then (1, False) else if is_cont d then (3, True) else (2, False))
         else if 0xF0 \<le> b \<and> b \<le> 0xF4 then
           (if \<not> second4 b c then (1, False) else if \<not> is_cont d then (2, False)
            else if is_cont e then (4, True) else (3, False))
         else (1, False))"

lemma second_cont: "second3 b c \<Longrightarrow> is_cont c" "second4 b c \<Longrightarrow> is_cont c"
  by (auto simp: second3_def second4_def is_cont_def word_ord_nat split: if_splits)

lemma safe_get_cont: "is_cont (safe_get bs i) \<Longrightarrow> i < length bs"
  by (auto simp: safe_get_def is_cont_def split: if_splits)

lemma utf8_step_pos: "0 < fst (utf8_step bs)"
  by (simp add: utf8_step_def Let_def)

lemma utf8_step_cases:
  assumes "utf8_step bs = (k, True)"
  shows "(k = 1 \<and> safe_get bs 0 < 0x80)
       \<or> (k = 2 \<and> 0xC2 \<le> safe_get bs 0 \<and> safe_get bs 0 \<le> 0xDF \<and> is_cont (safe_get bs 1))
       \<or> (k = 3 \<and> 0xE0 \<le> safe_get bs 0 \<and> safe_get bs 0 \<le> 0xEF
            \<and> second3 (safe_get bs 0) (safe_get bs 1) \<and> is_cont (safe_get bs 2))
       \<or> (k = 4 \<and> 0xF0 \<le> safe_get bs 0 \<and> safe_get bs 0 \<le> 0xF4
            \<and> second4 (safe_get bs 0) (safe_get bs 1) \<and> is_cont (safe_get bs 2)
            \<and> is_cont (safe_get bs 3))"
  using assms by (auto simp: utf8_step_def Let_def split: if_splits)

lemma utf8_step_le: "bs \<noteq> [] \<Longrightarrow> fst (utf8_step bs) \<le> length bs"
  by (auto simp: utf8_step_def Let_def Suc_le_eq dest!: second_cont safe_get_cont)

lemma utf8_step_local:
  assumes "\<And>i. i < k \<Longrightarrow> safe_get bs' i = safe_get bs i" "utf8_step bs = (k, True)"
  shows "utf8_step bs' = (k, True)"
proof -
  have "0 < k" using utf8_step_pos [of bs] assms(2) by simp
  then have g: "safe_get bs' 0 = safe_get bs 0" "1 < k \<Longrightarrow> safe_get bs' 1 = safe_get bs 1"
    "2 < k \<Longrightarrow> safe_get bs' 2 = safe_get bs 2" "3 < k \<Longrightarrow> safe_get bs' 3 = safe_get bs 3"
    using assms(1) by simp_all
  then show ?thesis
    using assms(2) by (auto simp: utf8_step_def Let_def word_ord_nat split: if_splits)
qed

lemma utf8_step_take:
  assumes "bs \<noteq> []" "utf8_step bs = (k, True)"
  shows "utf8_step (take k bs @ r) = (k, True)"
proof (rule utf8_step_local [OF _ assms(2)])
  fix i assume "i < k"
  moreover have "k \<le> length bs" using utf8_step_le [OF assms(1)] assms(2) by simp
  ultimately show "safe_get (take k bs @ r) i = safe_get bs i"
    by (simp add: safe_get_def nth_append)
qed

section \<open>Validation and lossy decoding\<close>

function valid_utf8 :: "u8 list \<Rightarrow> bool" where
  "valid_utf8 bs =
     (if bs = [] then True
      else snd (utf8_step bs) \<and> valid_utf8 (drop (fst (utf8_step bs)) bs))"
  by pat_completeness auto
termination
  by (relation "measure length") (use utf8_step_pos in \<open>auto intro!: diff_less\<close>)

text \<open>\<open>std::str::from_utf8\<close>.\<close>

definition from_utf8 :: "u8 list \<Rightarrow> string option" where
  "from_utf8 bs = (if valid_utf8 bs then Some (as_str bs) else None)"

definition replacement :: "u8 list" where
  "replacement = [0xEF, 0xBF, 0xBD]"

function lossy_bytes :: "u8 list \<Rightarrow> u8 list" where
  "lossy_bytes bs =
     (if bs = [] then []
      else (let (k, ok) = utf8_step bs
            in (if ok then take k bs else replacement) @ lossy_bytes (drop k bs)))"
  by pat_completeness auto
termination
proof (relation "measure length")
  fix bs :: "u8 list" and x k ok
  assume "bs \<noteq> []" "x = utf8_step bs" "(k, ok) = x"
  then show "(drop k bs, bs) \<in> measure length"
    using utf8_step_pos [of bs] by (metis fst_conv diff_less in_measure length_drop length_greater_0_conv)
qed simp

declare valid_utf8.simps [simp del] lossy_bytes.simps [simp del]

text \<open>\<open>String::from_utf8_lossy\<close>.\<close>

definition from_utf8_lossy :: "u8 list \<Rightarrow> string" where
  "from_utf8_lossy bs = as_str (lossy_bytes bs)"

lemma valid_utf8_Nil [simp]: "valid_utf8 []"
  by (simp add: valid_utf8.simps)

lemma valid_utf8_step_append:
  assumes "bs \<noteq> []" "utf8_step bs = (k, True)" "valid_utf8 r"
  shows "valid_utf8 (take k bs @ r)"
proof -
  have k: "0 < k" "k \<le> length bs"
    using utf8_step_pos [of bs] utf8_step_le [OF assms(1)] assms(2) by simp_all
  have "utf8_step (take k bs @ r) = (k, True)" by (rule utf8_step_take) fact+
  moreover have "drop k (take k bs @ r) = r" using k by simp
  moreover have "take k bs @ r \<noteq> []" using k by auto
  ultimately show ?thesis using assms(3) by (subst valid_utf8.simps) simp
qed

lemma valid_utf8_replacement: "valid_utf8 r \<Longrightarrow> valid_utf8 (replacement @ r)"
proof -
  assume r: "valid_utf8 r"
  have "utf8_step (replacement @ r) = (3, True)"
    by (simp add: utf8_step_def safe_get_def replacement_def second3_def is_cont_def)
  with r show ?thesis by (subst valid_utf8.simps) (simp add: replacement_def)
qed

lemma valid_lossy_bytes: "valid_utf8 (lossy_bytes bs)"
proof (induction bs rule: lossy_bytes.induct)
  case (1 bs)
  show ?case
  proof (cases "bs = []")
    case True
    then show ?thesis by (simp add: lossy_bytes.simps)
  next
    case False
    obtain k ok where st: "utf8_step bs = (k, ok)" by (cases "utf8_step bs")
    with 1 False have IH: "valid_utf8 (lossy_bytes (drop k bs))" by simp
    show ?thesis
      using IH False st valid_utf8_step_append [of bs k] valid_utf8_replacement
      by (subst lossy_bytes.simps) (cases ok; simp)
  qed
qed

lemma lossy_valid_id: "valid_utf8 bs \<Longrightarrow> lossy_bytes bs = bs"
proof (induction bs rule: lossy_bytes.induct)
  case (1 bs)
  show ?case
  proof (cases "bs = []")
    case False
    obtain k ok where st: "utf8_step bs = (k, ok)" by (cases "utf8_step bs")
    have "ok \<and> valid_utf8 (drop k bs)"
      using "1.prems" False st by (subst (asm) valid_utf8.simps) simp
    with 1 False st show ?thesis by (subst lossy_bytes.simps) simp
  qed (simp add: lossy_bytes.simps)
qed

lemma lossy_idem: "lossy_bytes (lossy_bytes bs) = lossy_bytes bs"
  by (rule lossy_valid_id [OF valid_lossy_bytes])

lemma from_utf8_Some: "from_utf8 bs = Some s \<longleftrightarrow> valid_utf8 bs \<and> s = as_str bs"
  by (auto simp: from_utf8_def)

section \<open>Which bytes valid text holds\<close>

lemma valid_utf8_uncons:
  assumes "valid_utf8 bs" "bs \<noteq> []"
  obtains k where "utf8_step bs = (k, True)" "0 < k" "k \<le> length bs" "valid_utf8 (drop k bs)"
proof -
  obtain k ok where st: "utf8_step bs = (k, ok)" by (cases "utf8_step bs")
  with assms have "ok" "valid_utf8 (drop k bs)"
    by (subst (asm) valid_utf8.simps, simp)+
  with st that utf8_step_pos [of bs] utf8_step_le [OF assms(2)] show thesis by simp
qed

lemma safe_get_in: "i < length bs \<Longrightarrow> safe_get bs i = bs ! i"
  by (simp add: safe_get_def)

lemma is_cont_le: "is_cont b \<Longrightarrow> b \<le> 0xF4"
  by (simp add: is_cont_def word_ord_nat)

lemma step_bytes_le:
  assumes "utf8_step bs = (k, True)" "i < k"
  shows "safe_get bs i \<le> 0xF4"
proof -
  have k: "k \<le> 4" using utf8_step_cases [OF assms(1)] by auto
  then consider "i = 0" | "i = 1" | "i = 2" | "i = 3" using assms(2) by linarith
  then show ?thesis
    using utf8_step_cases [OF assms(1)] assms(2)
    by cases (auto simp: word_ord_nat dest!: second_cont is_cont_le)
qed

lemma step_bytes_cont:
  assumes "utf8_step bs = (k, True)" "Suc i < k"
  shows "0x80 \<le> safe_get bs i"
proof -
  have k: "k \<le> 4" using utf8_step_cases [OF assms(1)] by auto
  then consider "i = 0" | "i = 1" | "i = 2" using assms(2) by linarith
  then show ?thesis
    using utf8_step_cases [OF assms(1)] assms(2)
    by cases (auto simp: is_cont_def word_ord_nat dest!: second_cont)
qed

lemma step_head_not_cont: "utf8_step bs = (k, True) \<Longrightarrow> \<not> is_cont (safe_get bs 0)"
  by (drule utf8_step_cases) (auto simp: is_cont_def word_ord_nat)

lemma valid_utf8_bytes_le:
  "valid_utf8 bs \<Longrightarrow> b \<in> set bs \<Longrightarrow> b \<le> 0xF4"
proof (induction "length bs" arbitrary: bs rule: less_induct)
  case less
  then have ne: "bs \<noteq> []" by auto
  obtain k where k: "utf8_step bs = (k, True)" "0 < k" "k \<le> length bs" "valid_utf8 (drop k bs)"
    using less.prems(1) ne by (rule valid_utf8_uncons)
  from less.prems(2) have "b \<in> set (take k bs) \<or> b \<in> set (drop k bs)"
    by (metis append_take_drop_id set_append UnE)
  then show ?case
  proof
    assume "b \<in> set (take k bs)"
    then obtain i where "i < k" "b = bs ! i" using k(3) by (auto simp: in_set_conv_nth)
    with step_bytes_le [OF k(1), of i] k(3) show ?thesis by (simp add: safe_get_in)
  next
    assume "b \<in> set (drop k bs)"
    with less.hyps [of "drop k bs"] k ne show ?thesis by simp
  qed
qed

corollary lossy_no_FF: "0xFF \<notin> set (lossy_bytes bs)"
proof
  assume "0xFF \<in> set (lossy_bytes bs)"
  then have "(0xFF :: u8) \<le> 0xF4" by (rule valid_utf8_bytes_le [OF valid_lossy_bytes])
  then show False by simp
qed

text \<open>A continuation byte of valid text follows a byte that is not ASCII.\<close>

lemma valid_utf8_cont_prev:
  "valid_utf8 bs \<Longrightarrow> Suc i < length bs \<Longrightarrow> is_cont (bs ! Suc i) \<Longrightarrow> 0x80 \<le> bs ! i"
proof (induction "length bs" arbitrary: bs i rule: less_induct)
  case less
  then have ne: "bs \<noteq> []" by auto
  obtain k where k: "utf8_step bs = (k, True)" "0 < k" "k \<le> length bs" "valid_utf8 (drop k bs)"
    using less.prems(1) ne by (rule valid_utf8_uncons)
  consider "Suc i < k" | "Suc i = k" | "k \<le> i" by linarith
  then show ?case
  proof cases
    case 1
    then show ?thesis using step_bytes_cont [OF k(1)] k(3) by (simp add: safe_get_in)
  next
    case 2
    then have "drop k bs \<noteq> []" "safe_get (drop k bs) 0 = bs ! Suc i"
      using less.prems(2) by (simp_all add: safe_get_def)
    with valid_utf8_uncons [OF k(4)] less.prems(3) show ?thesis
      by (metis step_head_not_cont)
  next
    case 3
    then have "0x80 \<le> drop k bs ! (i - k)"
      using less.prems k ne by (intro less.hyps) (auto simp: Suc_diff_le)
    with 3 less.prems(2) show ?thesis by simp
  qed
qed

text \<open>A byte that is neither ASCII nor a continuation byte starts a longer character.\<close>

lemma valid_utf8_lead_next:
  "valid_utf8 bs \<Longrightarrow> i < length bs \<Longrightarrow> 0x80 \<le> bs ! i \<Longrightarrow> \<not> is_cont (bs ! i) \<Longrightarrow>
   Suc i < length bs \<and> is_cont (bs ! Suc i)"
proof (induction "length bs" arbitrary: bs i rule: less_induct)
  case less
  then have ne: "bs \<noteq> []" by auto
  obtain k where k: "utf8_step bs = (k, True)" "0 < k" "k \<le> length bs" "valid_utf8 (drop k bs)"
    using less.prems(1) ne by (rule valid_utf8_uncons)
  have step: "is_cont (safe_get bs (Suc j))" if "Suc j < k" for j
  proof -
    have "k \<le> 4" using utf8_step_cases [OF k(1)] by auto
    with that consider "j = 0" | "j = 1" | "j = 2" by linarith
    then show ?thesis
      using utf8_step_cases [OF k(1)] that
      by cases (auto simp: numeral_2_eq_2 numeral_3_eq_3 dest: second_cont)
  qed
  consider "i = 0" | "0 < i" "i < k" | "k \<le> i" by linarith
  then show ?case
  proof cases
    case 1
    have "\<not> safe_get bs 0 < 0x80" using less.prems 1 by (simp add: safe_get_in word_ord_nat)
    then have "1 < k" using utf8_step_cases [OF k(1)] by auto
    with step [of 0] k(3) 1 show ?thesis by (simp add: safe_get_in)
  next
    case 2
    then obtain j where "i = Suc j" by (cases i) auto
    with 2 step [of j] less.prems show ?thesis by (simp add: safe_get_in)
  next
    case 3
    have "Suc (i - k) < length (drop k bs) \<and> is_cont (drop k bs ! Suc (i - k))"
      using less.prems k ne 3 by (intro less.hyps) auto
    moreover have "k + Suc (i - k) = Suc i" using 3 by simp
    ultimately show ?thesis using k(3) by (metis add_less_cancel_left length_drop le_add_diff_inverse nth_drop)
  qed
qed

lemma valid_utf8_ascii: "\<forall>b \<in> set bs. b < 0x80 \<Longrightarrow> valid_utf8 bs"
proof (induction bs)
  case (Cons b bs)
  then have "utf8_step (b # bs) = (1, True)" by (simp add: utf8_step_def safe_get_def)
  with Cons show ?case by (subst valid_utf8.simps) simp
qed simp

lemma lossy_ascii: "\<forall>b \<in> set bs. b < 0x80 \<Longrightarrow> from_utf8_lossy bs = as_str bs"
  by (simp add: from_utf8_lossy_def lossy_valid_id valid_utf8_ascii)

lemma as_bytes_ascii: "\<forall>c \<in> set s. is_ascii c \<Longrightarrow> \<forall>b \<in> set (as_bytes s). b < 0x80"
  by (auto simp: as_bytes_def u8_of_char_less)

lemma lossy_ascii_str: "\<forall>c \<in> set s. is_ascii c \<Longrightarrow> from_utf8_lossy (as_bytes s) = s"
  by (simp add: lossy_ascii [OF as_bytes_ascii])

lemma from_utf8_lossy_Nil [simp]: "from_utf8_lossy [] = []"
  by (simp add: from_utf8_lossy_def lossy_bytes.simps)

end
