(* ===== verification/Models.thy ===== *)
theory Models
  imports Utf8
begin

text \<open>
  The data model of \<open>crates/scanerr-protocol/src/models.rs\<close>: protocol identities, the
  \<open>ServiceData\<close> document and its protocol payloads, one record per struct in the order of the
  source, and \<open>serde_json::Value\<close>, which the response headers and the stored documents use.
\<close>

section \<open>JSON values\<close>

text \<open>
  \<open>serde_json::Number\<close> is a non-negative integer, a negative integer or a float; the program
  never computes with the floats, which are kept as their text.  An object is the list of its
  entries in iteration order.
\<close>

datatype json_number = PosInt nat | NegInt int | FloatNum string

datatype json =
    JNull
  | JBool bool
  | JNum json_number
  | JStr string
  | JArr "json list"
  | JObj "(string \<times> json) list"

definition json_as_str :: "json \<Rightarrow> string option" where
  "json_as_str v = (case v of JStr s \<Rightarrow> Some s | _ \<Rightarrow> None)"

definition json_as_array :: "json \<Rightarrow> json list option" where
  "json_as_array v = (case v of JArr xs \<Rightarrow> Some xs | _ \<Rightarrow> None)"

definition json_as_u64 :: "json \<Rightarrow> nat option" where
  "json_as_u64 v = (case v of JNum (PosInt n) \<Rightarrow> Some n | _ \<Rightarrow> None)"

definition json_as_i64 :: "json \<Rightarrow> int option" where
  "json_as_i64 v =
     (case v of JNum (PosInt n) \<Rightarrow> if n < 2 ^ 63 then Some (int n) else None
      | JNum (NegInt i) \<Rightarrow> Some i | _ \<Rightarrow> None)"

text \<open>\<open>Value::get\<close> with a string key, and indexing \<open>v[key]\<close>, which yields \<open>Null\<close> when absent.\<close>

definition json_get :: "json \<Rightarrow> string \<Rightarrow> json option" where
  "json_get v k = (case v of JObj kvs \<Rightarrow> map_of kvs k | _ \<Rightarrow> None)"

definition json_index :: "json \<Rightarrow> string \<Rightarrow> json" where
  "json_index v k = (case json_get v k of None \<Rightarrow> JNull | Some w \<Rightarrow> w)"

definition json_int :: "int \<Rightarrow> json" where
  "json_int i = JNum (if 0 \<le> i then PosInt (nat i) else NegInt i)"

section \<open>Protocol identity\<close>

datatype protocol =
    Http | Https | Ssh | Tls | Ftp | Smtp | Imap | Pop3 | Telnet | Mqtt | Mysql | Redis
  | Pptp | Sccp | Mikrotik | Rtsp | Bgp | Unknown

fun as_str_protocol :: "protocol \<Rightarrow> string" where
  "as_str_protocol Http = ''http''"
| "as_str_protocol Https = ''https''"
| "as_str_protocol Ssh = ''ssh''"
| "as_str_protocol Tls = ''tls''"
| "as_str_protocol Ftp = ''ftp''"
| "as_str_protocol Smtp = ''smtp''"
| "as_str_protocol Imap = ''imap''"
| "as_str_protocol Pop3 = ''pop3''"
| "as_str_protocol Telnet = ''telnet''"
| "as_str_protocol Mqtt = ''mqtt''"
| "as_str_protocol Mysql = ''mysql''"
| "as_str_protocol Redis = ''redis''"
| "as_str_protocol Pptp = ''pptp''"
| "as_str_protocol Sccp = ''sccp''"
| "as_str_protocol Mikrotik = ''mikrotik''"
| "as_str_protocol Rtsp = ''rtsp''"
| "as_str_protocol Bgp = ''bgp''"
| "as_str_protocol Unknown = ''unknown''"

definition default_protocol :: protocol where
  "default_protocol = Unknown"

definition protocol_from_str :: "string \<Rightarrow> protocol" where
  "protocol_from_str s =
     (if s = ''http'' then Http
      else if s = ''https'' then Https
      else if s = ''ssh'' then Ssh
      else if s = ''tls'' then Tls
      else if s = ''ftp'' then Ftp
      else if s = ''smtp'' then Smtp
      else if s = ''imap'' then Imap
      else if s = ''pop3'' then Pop3
      else if s = ''mqtt'' then Mqtt
      else if s = ''mysql'' then Mysql
      else if s = ''redis'' then Redis
      else if s = ''pptp'' then Pptp
      else if s = ''sccp'' then Sccp
      else if s = ''mikrotik'' then Mikrotik
      else if s = ''rtsp'' then Rtsp
      else Unknown)"

text \<open>Finitely many protocols: statements about all of them are decided by evaluation.\<close>

instantiation protocol :: enum
begin

definition enum_protocol :: "protocol list" where
  "enum_protocol =
     [Http, Https, Ssh, Tls, Ftp, Smtp, Imap, Pop3, Telnet, Mqtt, Mysql, Redis, Pptp, Sccp,
      Mikrotik, Rtsp, Bgp, Unknown]"

definition enum_all_protocol :: "(protocol \<Rightarrow> bool) \<Rightarrow> bool" where
  "enum_all_protocol P = list_all P enum_class.enum"

definition enum_ex_protocol :: "(protocol \<Rightarrow> bool) \<Rightarrow> bool" where
  "enum_ex_protocol P = list_ex P enum_class.enum"

instance
proof
  have all: "p \<in> set enum_class.enum" for p :: protocol
    by (cases p) (simp_all add: enum_protocol_def)
  then show "(UNIV :: protocol set) = set enum_class.enum" by blast
  show "distinct (enum_class.enum :: protocol list)" by (simp add: enum_protocol_def)
  fix P :: "protocol \<Rightarrow> bool"
  show "enum_class.enum_all P \<longleftrightarrow> Ball UNIV P"
    using all by (auto simp: enum_all_protocol_def list_all_iff)
  show "enum_class.enum_ex P \<longleftrightarrow> Bex UNIV P"
    using all by (auto simp: enum_ex_protocol_def list_ex_iff)
qed

end

section \<open>Protocol payloads\<close>

record http_data =
  h_status :: u16
  h_title :: "string option"
  h_body :: "string option"
  h_headers :: "(string \<times> json) list"
  h_favicon_hash :: "int option"
  h_server :: "string option"
  h_host :: "string option"
  h_rdns :: "string option"
  h_html_hash :: "int option"
  h_headers_hash :: "int option"
  h_robots :: "string option"
  h_securitytxt :: "string option"
  h_tags :: "string list"
  h_waf :: "string option"
  h_redirects :: "string list"

record ssl_data =
  ssl_subject_cn :: "string option"
  ssl_issuer_cn :: "string option"
  ssl_self_signed :: bool

record ssh_data =
  ssh_raw :: string
  ssh_key_type :: "string option"
  ssh_key :: "string option"
  ssh_fingerprint :: "string option"
  ssh_product :: "string option"
  ssh_version :: "string option"

record ftp_data =
  ftp_system :: "string option"
  ftp_features :: "string list option"
  ftp_commands :: "string list option"
  ftp_anonymous_listing :: "string option"

record smtp_data =
  smtp_ehlo :: "string list option"
  smtp_starttls :: "bool option"

record mqtt_data =
  mqtt_version :: "string option"
  mqtt_return_code :: "u8 option"
  mqtt_subscriptions :: "string list"

record sccp_data =
  sccp_device_name :: "string option"
  sccp_device_type :: "u32 option"
  sccp_firmware :: "string option"
  sccp_protocol_version :: "u8 option"
  sccp_keepalive_interval :: "u16 option"

record mikrotik_data =
  mikrotik_auth_mode :: "string option"

record rtsp_data =
  rtsp_server :: "string option"
  rtsp_public :: "string option"
  rtsp_frame_sha256 :: "string option"

record pop3_data =
  pop3_banner :: "string option"
  pop3_server :: "string option"
  pop3_capabilities :: "string list"

section \<open>ServiceData\<close>

record service_data =
  sd_kind :: string
  sd_port :: "u16 option"
  sd_product :: "string option"
  sd_version :: "string option"
  sd_confidence :: "u8 option"
  sd_tags :: "string list"
  sd_banner :: "string option"
  sd_http :: "http_data option"
  sd_ssl :: "ssl_data option"
  sd_ssh :: "ssh_data option"
  sd_ftp :: "ftp_data option"
  sd_smtp :: "smtp_data option"
  sd_mqtt :: "mqtt_data option"
  sd_sccp :: "sccp_data option"
  sd_mikrotik :: "mikrotik_data option"
  sd_rtsp :: "rtsp_data option"
  sd_pop3 :: "pop3_data option"

definition default_service_data :: service_data where
  "default_service_data =
     \<lparr>sd_kind = ''unknown'', sd_port = None, sd_product = None, sd_version = None,
      sd_confidence = None, sd_tags = [], sd_banner = None, sd_http = None, sd_ssl = None,
      sd_ssh = None, sd_ftp = None, sd_smtp = None, sd_mqtt = None, sd_sccp = None,
      sd_mikrotik = None, sd_rtsp = None, sd_pop3 = None\<rparr>"

section \<open>Properties of the protocol names\<close>

lemma as_str_protocol_inject: "as_str_protocol p = as_str_protocol q \<longleftrightarrow> p = q"
  by (cases p; cases q; simp)

text \<open>
  \<open>Protocol::as_str\<close> and \<open>From<&str>\<close> are inverse on every protocol except \<open>Telnet\<close> and
  \<open>Bgp\<close>, whose names the parser does not know and maps to \<open>Unknown\<close>.
\<close>

theorem protocol_name_roundtrip:
  "protocol_from_str (as_str_protocol p) = (if p = Telnet \<or> p = Bgp then Unknown else p)"
  by (cases p) (simp_all add: protocol_from_str_def)

end
