(* ===== verification/Net.thy ===== *)
theory Net
  imports Models
begin

text \<open>
  The TCP helpers of \<open>crates/scanerr-protocol/src/net.rs\<close> over a scripted network.  The peer is
  an environment: a stream is the list of what its successive reads will meet (data, end of
  file, the read timeout, an I/O error), and the network is the list of the outcomes of the
  successive connection attempts together with the log of everything sent.  A read takes at most
  its buffer from a chunk and leaves the rest for the next read; after the script the stream is
  at end of file.
\<close>

datatype rd = RData "u8 list" | REof | RTimeout | RErr

type_synonym stream = "rd list"

record net =
  n_conns :: "(string + stream) list"
  n_log :: "u8 list list"

fun read_chunk :: "nat \<Rightarrow> stream \<Rightarrow> rd \<times> stream" where
  "read_chunk n [] = (REof, [])"
| "read_chunk n (RData bs # s) =
     (if bs = [] then (REof, s)
      else if length bs \<le> n then (RData bs, s)
      else (RData (take n bs), RData (drop n bs) # s))"
| "read_chunk n (e # s) = (e, s)"

text \<open>\<open>net::connect\<close>; the error text is the environment's.\<close>

definition net_connect :: "net \<Rightarrow> stream outcome \<times> net" where
  "net_connect n =
     (case n_conns n of
        [] \<Rightarrow> (Bail ''connect timeout'', n)
      | Inl e # cs \<Rightarrow> (Bail e, n\<lparr>n_conns := cs\<rparr>)
      | Inr s # cs \<Rightarrow> (Ok s, n\<lparr>n_conns := cs\<rparr>))"

text \<open>The \<open>?\<close> operator on a computation that uses the network.\<close>

definition and_then ::
  "'a outcome \<times> net \<Rightarrow> ('a \<Rightarrow> net \<Rightarrow> 'b outcome \<times> net) \<Rightarrow> 'b outcome \<times> net" where
  "and_then r f =
     (case r of (Ok x, n) \<Rightarrow> f x n | (Bail e, n) \<Rightarrow> (Bail e, n) | (Panic, n) \<Rightarrow> (Panic, n))"

lemma and_then_simps [simp]:
  "and_then (Ok x, n) f = f x n"
  "and_then (Bail e, n) f = (Bail e, n)"
  "and_then (Panic, n) f = (Panic, n)"
  by (simp_all add: and_then_def)

text \<open>\<open>net::send\<close>: write errors are swallowed.\<close>

definition net_send :: "u8 list \<Rightarrow> net \<Rightarrow> net" where
  "net_send cmd n = n\<lparr>n_log := n_log n @ [cmd]\<rparr>"

text \<open>\<open>net::read_reply\<close>: one read, lossily decoded, empty on timeout, end of file or error.\<close>

definition read_reply :: "stream \<Rightarrow> string \<times> stream" where
  "read_reply s =
     (case read_chunk 4096 s of
        (RData bs, s') \<Rightarrow> (from_utf8_lossy bs, s')
      | (_, s') \<Rightarrow> ([], s'))"

text \<open>
  \<open>net::read_until\<close>: accumulate reads until \<open>is_done\<close> holds of the text so far (which must be
  valid UTF-8 to be asked), the end of file, a timeout or an error.
\<close>

definition stream_size :: "stream \<Rightarrow> nat" where
  "stream_size s = sum_list (map (\<lambda>r. case r of RData bs \<Rightarrow> Suc (length bs) | _ \<Rightarrow> 1) s)"

lemma read_chunk_data_size:
  "read_chunk n s = (RData bs, s') \<Longrightarrow> 0 < n \<Longrightarrow> stream_size s' < stream_size s"
  by (induction n s rule: read_chunk.induct) (auto simp: stream_size_def split: if_splits)

function read_until_from :: "(string \<Rightarrow> bool) \<Rightarrow> u8 list \<Rightarrow> stream \<Rightarrow> u8 list \<times> stream" where
  "read_until_from is_done acc s =
     (case read_chunk 4096 s of
        (RData bs, s') \<Rightarrow>
          (let acc' = acc @ bs
           in case from_utf8 acc' of
                Some text \<Rightarrow> if is_done text then (acc', s') else read_until_from is_done acc' s'
              | None \<Rightarrow> read_until_from is_done acc' s')
      | (_, s') \<Rightarrow> (acc, s'))"
  by pat_completeness auto
termination
  by (relation "measure (\<lambda>(_, _, s). stream_size s)")
     (auto dest!: read_chunk_data_size [OF sym])

declare read_until_from.simps [simp del]

definition read_until :: "(string \<Rightarrow> bool) \<Rightarrow> stream \<Rightarrow> u8 list \<times> stream" where
  "read_until is_done s = read_until_from is_done [] s"

section \<open>What a reply can contain\<close>

lemma read_reply_valid: "valid_utf8 (as_bytes (fst (read_reply s)))"
  by (auto simp: read_reply_def from_utf8_lossy_def valid_lossy_bytes split: prod.splits rd.splits)

text \<open>
  No reply read by \<open>net::read_reply\<close> contains the byte FF, whatever the peer sent: the
  lossy UTF-8 decoding has replaced it.  A probe that looks for FF bytes in such a reply looks
  in vain.
\<close>

theorem read_reply_no_FF: "0xFF \<notin> set (as_bytes (fst (read_reply s)))"
proof
  assume "0xFF \<in> set (as_bytes (fst (read_reply s)))"
  then have "(0xFF :: u8) \<le> 0xF4" by (rule valid_utf8_bytes_le [OF read_reply_valid])
  then show False by simp
qed

lemma read_reply_cont_prev:
  assumes "bs = as_bytes (fst (read_reply s))" "Suc i < length bs" "is_cont (bs ! Suc i)"
  shows "0x80 \<le> bs ! i"
  using valid_utf8_cont_prev [OF read_reply_valid] assms by blast

end
