(* ===== verification/TextProbes.thy ===== *)
theory TextProbes
  imports Net "HOL-Library.Monad_Syntax"
begin

text \<open>
  The probes of the line-oriented protocols under \<open>crates/scanerr-protocol/src/\<close>: \<open>ftp.rs\<close>,
  \<open>smtp.rs\<close>, \<open>imap.rs\<close>, \<open>pop3.rs\<close>, \<open>telnet.rs\<close>, \<open>mysql.rs\<close>, \<open>rtsp.rs\<close>, \<open>mikrotik.rs\<close> and \<open>bgp.rs\<close>.
  Each has its banner test \<open>*_detects\<close> and its probe, a function from the network to the outcome and
  the network.  Slicing a string where no character starts is a panic.
\<close>

definition crlf :: string where
  "crlf = [CHR 0x0D, CHR 0x0A]"

definition cmd :: "string \<Rightarrow> u8 list" where
  "cmd s = as_bytes (s @ crlf)"

text \<open>The greeting: the banner the dispatcher has read, or a fresh connection's first reply.\<close>

definition greeting :: "u8 list \<Rightarrow> net \<Rightarrow> string outcome \<times> net" where
  "greeting banner n =
     (if banner \<noteq> [] then (Ok (from_utf8_lossy banner), n)
      else and_then (net_connect n) (\<lambda>s n. (Ok (fst (read_reply s)), n)))"

text \<open>The text between the first opening parenthesis and the next closing one.\<close>

definition parens :: "string \<Rightarrow> string option" where
  "parens s =
     do { i \<leftarrow> find_sub s ''('';
          j \<leftarrow> find_sub (drop i s) '')'';
          Some (take (j - 1) (drop (i + 1) s)) }"

section \<open>FTP\<close>

definition ftp_detects :: "u8 list \<Rightarrow> bool" where
  "ftp_detects b =
     (let text = from_utf8_lossy b in prefix ''220 '' text \<or> prefix ''220-'' text)"

definition parse_pasv :: "string \<Rightarrow> string option" where
  "parse_pasv resp =
     do { inner \<leftarrow> parens resp;
          let parts = split_on (CHR '','') inner;
          if length parts \<noteq> 6 then None
          else do { p1 \<leftarrow> parse_u16 (parts ! 4);
                    p2 \<leftarrow> parse_u16 (parts ! 5);
                    Some (join ''.'' (take 4 parts) @ '':'' @ dec (unat (p1 * 256 + p2))) } }"

definition ftp_features_of :: "string \<Rightarrow> string list" where
  "ftp_features_of text =
     filter (\<lambda>f. f \<noteq> [] \<and> \<not> prefix ''-'' f) (map trim (filter (prefix '' '') (lines text)))"

definition ftp_commands_of :: "string \<Rightarrow> string list" where
  "ftp_commands_of text =
     filter (\<lambda>c. c \<noteq> [] \<and> \<not> prefix ''='' c \<and> \<not> prefix ''-'' c)
       (map (trim_end_matches (CHR ''*''))
          (concat (map split_ws (filter (prefix '' '') (lines text)))))"

definition try_anonymous_listing :: "stream \<Rightarrow> net \<Rightarrow> string option \<times> stream \<times> net" where
  "try_anonymous_listing s n =
     (let n = net_send (cmd ''USER anonymous'') n; (r, s) = read_reply s
      in if \<not> prefix ''331'' r then (None, s, n)
         else
           (let n = net_send (cmd ''PASS anonymous@'') n; (r, s) = read_reply s
            in if \<not> prefix ''230'' r then (None, s, n)
               else
                 (let n = net_send (cmd ''PASV'') n; (r, s) = read_reply s
                  in case parse_pasv r of
                       None \<Rightarrow> (None, s, n)
                     | Some addr \<Rightarrow>
                         (case net_connect n of
                            (Ok data, n) \<Rightarrow>
                              (let n = net_send (cmd ''LIST'') n;
                                   (listing, _) = read_until (\<lambda>_. False) data;
                                   (_, s) = read_reply s
                               in (if listing = [] then None else Some (from_utf8_lossy listing), s, n))
                          | (_, n) \<Rightarrow> (None, s, n)))))"

definition some_nonempty :: "'a list \<Rightarrow> 'a list option" where
  "some_nonempty xs = (if xs = [] then None else Some xs)"

definition ftp_probe :: "u8 list \<Rightarrow> net \<Rightarrow> service_data outcome \<times> net" where
  "ftp_probe banner n =
     and_then (greeting banner n) (\<lambda>banner_text n.
       and_then (net_connect n) (\<lambda>s n.
         (let software = Option.bind (strip_prefix banner_text ''220 '') parens;
              (_, s) = read_reply s;
              n = net_send (cmd ''SYST'') n;
              (r, s) = read_reply s;
              system = map_option trim (strip_prefix r ''215 '');
              n = net_send (cmd ''FEAT'') n;
              (feat, s) = read_until (\<lambda>t. contains_sub t ''211 End'' \<or> contains_sub t ''211-End'') s;
              features = ftp_features_of (from_utf8_lossy feat);
              n = net_send (cmd ''HELP'') n;
              (help, s) = read_until (\<lambda>t. contains_sub t ''214 Direct'' \<or> contains_sub t ''214 End'') s;
              commands = ftp_commands_of (from_utf8_lossy help);
              (anon, s, n) = try_anonymous_listing s n;
              n = net_send (cmd ''QUIT'') n
          in (Ok (default_service_data
                \<lparr>sd_product := software, sd_banner := Some (trim banner_text),
                 sd_ftp := Some \<lparr>ftp_system = system, ftp_features = some_nonempty features,
                   ftp_commands = some_nonempty commands, ftp_anonymous_listing = anon\<rparr>\<rparr>), n))))"

section \<open>SMTP\<close>

definition smtp_detects :: "u8 list \<Rightarrow> bool" where
  "smtp_detects b =
     (let text = from_utf8_lossy b
      in (prefix ''220 '' text \<or> prefix ''220-'' text) \<and>
         (contains_sub text ''ESMTP'' \<or> contains_sub text ''SMTP''))"

text \<open>\<open>&s[k..]\<close>.\<close>

definition slice_from :: "string \<Rightarrow> nat \<Rightarrow> string outcome" where
  "slice_from s k = (if k \<le> length s \<and> char_boundary s k then Ok (drop k s) else Panic)"

text \<open>The product after a lone hyphen, if there is one with a word after it.\<close>

fun after_dash :: "string list \<Rightarrow> string option" where
  "after_dash [] = None"
| "after_dash (w # ws) = (if w = ''-'' \<and> ws \<noteq> [] then Some (join '' '' ws) else after_dash ws)"

definition smtp_parse_banner :: "string \<Rightarrow> (string option \<times> string option) outcome" where
  "smtp_parse_banner banner =
     (let rest = (case strip_prefix banner ''220 '' of Some r \<Rightarrow> r | None \<Rightarrow> banner)
      in case find_sub rest '' ESMTP '' of
           None \<Rightarrow> Ok (None, None)
         | Some p \<Rightarrow>
             bind_outcome (slice_from rest (p + 8)) (\<lambda>after.
               (let words = split_ws after
                in if words = [] then Ok (None, None)
                   else (case after_dash words of
                           Some product \<Rightarrow> Ok (Some product, None)
                         | None \<Rightarrow>
                             Ok (Some (hd words),
                                 if length words > 1 then Some (words ! 1) else None)))))"

definition smtp_extensions :: "string \<Rightarrow> string list" where
  "smtp_extensions text =
     filter (\<lambda>e. e \<noteq> [])
       (map (\<lambda>l. trim (drop 4 l))
          (filter (\<lambda>l. prefix ''250-'' l \<or> prefix ''250 '' l) (lines text)))"

definition last_line_is :: "(string \<Rightarrow> bool) \<Rightarrow> string \<Rightarrow> bool" where
  "last_line_is P t = (lines t \<noteq> [] \<and> P (last (lines t)))"

definition smtp_probe :: "u8 list \<Rightarrow> net \<Rightarrow> service_data outcome \<times> net" where
  "smtp_probe banner n =
     and_then (greeting banner n) (\<lambda>banner_text n.
       (let trimmed = trim banner_text
        in and_then (smtp_parse_banner trimmed, n) (\<lambda>(product, version) n.
             and_then (net_connect n) (\<lambda>s n.
               (let (_, s) = read_reply s;
                    n = net_send (cmd ''EHLO scanerr.local'') n;
                    (ehlo, s) = read_until (last_line_is (prefix ''250 '')) s;
                    exts = smtp_extensions (from_utf8_lossy ehlo);
                    starttls = list_ex (\<lambda>e. eq_ignore_ascii_case e ''STARTTLS'') exts;
                    n = net_send (cmd ''QUIT'') n
                in (Ok (default_service_data
                      \<lparr>sd_banner := Some trimmed, sd_product := product, sd_version := version,
                       sd_smtp := Some \<lparr>smtp_ehlo = some_nonempty exts,
                         smtp_starttls = Some starttls\<rparr>\<rparr>), n))))))"

section \<open>IMAP\<close>

definition imap_detects :: "u8 list \<Rightarrow> bool" where
  "imap_detects b =
     (let text = from_utf8_lossy b in prefix ''* OK'' text \<or> prefix ''* PREAUTH'' text)"

definition cap_words :: "string \<Rightarrow> string list" where
  "cap_words s = filter (\<lambda>c. c \<noteq> []) (map (trim_matches (CHR '';'')) (split_ws s))"

definition greeting_caps :: "string \<Rightarrow> string list" where
  "greeting_caps rest =
     (case find_sub rest ''['' of
        None \<Rightarrow> []
      | Some i \<Rightarrow>
          (case find_sub (drop i rest) '']'' of
             None \<Rightarrow> []
           | Some j \<Rightarrow> cap_words (take (j - 1) (drop (i + 1) rest))))"

definition greeting_product :: "string \<Rightarrow> string option" where
  "greeting_product rest =
     (case find_sub rest '']'' of
        None \<Rightarrow> None
      | Some i \<Rightarrow> some_nonempty (trim (drop (i + 1) rest)))"

definition update_caps :: "string list \<Rightarrow> string \<Rightarrow> string list" where
  "update_caps caps line =
     (case strip_prefix line ''* CAPABILITY '' of Some r \<Rightarrow> cap_words r | None \<Rightarrow> caps)"

definition imap_probe :: "u8 list \<Rightarrow> net \<Rightarrow> service_data outcome \<times> net" where
  "imap_probe banner n =
     and_then (greeting banner n) (\<lambda>banner_text n.
       and_then (net_connect n) (\<lambda>s n.
         (let (_, s) = read_reply s;
              (caps, product) =
                (case strip_prefix banner_text ''* OK'' of
                   Some rest \<Rightarrow> (greeting_caps rest, greeting_product rest)
                 | None \<Rightarrow> ([], None));
              n = net_send (cmd ''a001 CAPABILITY'') n;
              (buf, s) = read_until (\<lambda>t. contains_sub t ''a001 OK'' \<or> contains_sub t ''a001 BAD'') s;
              caps = foldl update_caps caps (lines (from_utf8_lossy buf));
              n = net_send (cmd ''a002 NOOP'') n;
              (_, s) = read_reply s;
              n = net_send (cmd ''a003 LOGOUT'') n;
              b = (if caps = [] then trim banner_text
                   else trim banner_text @ '' Capabilities: '' @ join '', '' caps)
          in (Ok (default_service_data\<lparr>sd_banner := Some b, sd_product := product\<rparr>), n))))"

section \<open>POP3\<close>

definition pop3_detects :: "u8 list \<Rightarrow> bool" where
  "pop3_detects b = prefix ''+OK'' (from_utf8_lossy b)"

definition pop3_capabilities_of :: "string \<Rightarrow> string list" where
  "pop3_capabilities_of text =
     filter (\<lambda>l. \<not> prefix ''-ERR'' l \<and> \<not> prefix ''+OK'' l \<and> l \<noteq> ''.'') (lines text)"

definition pop3_probe :: "u8 list \<Rightarrow> net \<Rightarrow> service_data outcome \<times> net" where
  "pop3_probe banner n =
     and_then (net_connect n) (\<lambda>s n.
       (let text = trim (from_utf8_lossy banner);
            n = net_send (cmd ''CAPA'') n;
            (buf, s) = read_until (last_line_is (\<lambda>l. l = ''.'')) s;
            n = net_send (cmd ''QUIT'') n
        in (Ok (default_service_data
              \<lparr>sd_tags := [''mail''],
               sd_pop3 := Some \<lparr>pop3_banner = Some text, pop3_server = Some text,
                 pop3_capabilities = pop3_capabilities_of (from_utf8_lossy buf)\<rparr>\<rparr>), n)))"

section \<open>Telnet\<close>

definition telnet_detects :: "u8 list \<Rightarrow> bool" where
  "telnet_detects b =
     (let text = from_utf8_lossy b
      in b ! 0 = 0xFF \<or> contains_sub text ''login:'' \<or> contains_sub text ''Password:'')"

text \<open>\<open>chars().take(k)\<close> of valid UTF-8 text.\<close>

fun take_chars :: "nat \<Rightarrow> string \<Rightarrow> string" where
  "take_chars k [] = []"
| "take_chars k (c # s) =
     (if is_cont (u8_of_char c) then c # take_chars k s
      else if k = 0 then [] else c # take_chars (k - 1) s)"

definition telnet_markers :: "string list" where
  "telnet_markers = [''login'', ''Password'', ''Welcome'', ''prompt'', ''Escape'', ''telnet'']"

definition telnet_probe :: "net \<Rightarrow> service_data outcome \<times> net" where
  "telnet_probe n =
     and_then (net_connect n) (\<lambda>s n.
       (let text = trim (fst (read_reply s))
        in if text = [] then (Bail ''no telnet banner received'', n)
           else if list_ex (\<lambda>c. byte c = 0) text then (Bail ''binary response, not telnet'', n)
           else if \<not> list_ex (contains_sub text) telnet_markers
           then (Bail (''no telnet markers in: '' @ take_chars 40 text), n)
           else (Ok (default_service_data
                   \<lparr>sd_tags := [''remote-access''], sd_banner := Some text\<rparr>), n)))"

section \<open>MySQL\<close>

definition mysql_detects :: "u8 list \<Rightarrow> bool" where
  "mysql_detects b =
     (if length b > 5 \<and> b ! 4 = 0x0A then
        (let rest = from_utf8_lossy (drop 5 b)
         in contains_sub rest [CHR 0x00] \<and>
            (contains_sub rest ''MySQL'' \<or> contains_sub rest ''MariaDB''))
      else False)"

definition mysql_handshake :: "u8 list" where
  "mysql_handshake =
     [0x00, 0x00, 0x01, 0x85, 0xA6, 0x03] @ replicate 26 0x00 @ [0x72, 0x6F, 0x6F, 0x74, 0x00]"

text \<open>The zero-terminated text from offset 5.\<close>

definition c_string :: "u8 list \<Rightarrow> string option" where
  "c_string g =
     (let r = drop 5 g
      in if 0 \<in> set r then Some (from_utf8_lossy (takeWhile (\<lambda>b. b \<noteq> 0) r)) else None)"

definition mysql_version ::
  "(string \<Rightarrow> string) \<Rightarrow> u8 list \<Rightarrow> string option \<times> string option" where
  "mysql_version lc g =
     (if length g > 5 \<and> g ! 4 = 0x0A then
        (case c_string g of
           None \<Rightarrow> (None, None)
         | Some ver \<Rightarrow>
             (let lower = to_lowercase lc ver
              in (Some ver, if contains_sub lower ''mariadb'' then Some ''MariaDB''
                            else if contains_sub lower ''mysql'' then Some ''MySQL'' else None)))
      else if length g > 5 \<and> g ! 4 = 0x09 then
        (case c_string g of None \<Rightarrow> (None, None) | Some ver \<Rightarrow> (Some ver, Some ''MySQL''))
      else (None, None))"

definition mysql_greeting :: "u8 list \<Rightarrow> net \<Rightarrow> u8 list outcome \<times> net" where
  "mysql_greeting banner n =
     (if banner \<noteq> [] then (Ok banner, n)
      else and_then (net_connect n) (\<lambda>s n.
        (let (first, s) = read_reply s
         in if first = [] then
              (let n = net_send mysql_handshake n; (second, s) = read_reply s
               in (Ok (as_bytes second), n))
            else (Ok (as_bytes first), n))))"

definition mysql_probe ::
  "(string \<Rightarrow> string) \<Rightarrow> u8 list \<Rightarrow> net \<Rightarrow> service_data outcome \<times> net" where
  "mysql_probe lc banner n =
     and_then (mysql_greeting banner n) (\<lambda>g n.
       (let (version, server_type) = mysql_version lc g
        in (Ok (default_service_data
              \<lparr>sd_banner := Some (trim (from_utf8_lossy g)), sd_version := version,
               sd_product := server_type\<rparr>), n)))"

section \<open>RTSP\<close>

definition rtsp_request :: "string \<Rightarrow> u16 \<Rightarrow> u8 list" where
  "rtsp_request ip port =
     as_bytes (''OPTIONS rtsp://'' @ ip @ '':'' @ dec (unat port) @ '' RTSP/1.0'' @ crlf @
               ''CSeq: 1'' @ crlf @ crlf)"

definition rtsp_status :: "string \<Rightarrow> u16" where
  "rtsp_status resp =
     (let ws = split_ws (case lines resp of [] \<Rightarrow> [] | l # _ \<Rightarrow> l)
      in if length ws > 1 then (case parse_u16 (ws ! 1) of Some c \<Rightarrow> c | None \<Rightarrow> 0) else 0)"

text \<open>The header lines up to the first empty one; the last occurrence of a header wins.\<close>

definition rtsp_header :: "string \<Rightarrow> string \<Rightarrow> string option" where
  "rtsp_header name resp =
     foldl (\<lambda>acc l. case strip_prefix l name of Some v \<Rightarrow> Some (trim v) | None \<Rightarrow> acc) None
       (takeWhile (\<lambda>l. l \<noteq> []) (tl (lines resp)))"

definition rtsp_probe :: "string \<Rightarrow> u16 \<Rightarrow> net \<Rightarrow> service_data outcome \<times> net" where
  "rtsp_probe ip port n =
     and_then (net_connect n) (\<lambda>s n.
       (let n = net_send (rtsp_request ip port) n; resp = fst (read_reply s)
        in if resp = [] then (Bail ''RTSP: empty response'', n)
           else if \<not> prefix ''RTSP/'' resp then (Bail (''Not RTSP: '' @ take_chars 40 resp), n)
           else
             (let server = rtsp_header ''Server:'' resp; public = rtsp_header ''Public:'' resp
              in (Ok (default_service_data
                    \<lparr>sd_tags := [''camera''], sd_product := server,
                     sd_banner := Some (''RTSP/1.0 '' @ dec (unat (rtsp_status resp))),
                     sd_rtsp := Some \<lparr>rtsp_server = server, rtsp_public = public,
                       rtsp_frame_sha256 = None\<rparr>\<rparr>), n))))"

section \<open>MikroTik bandwidth test\<close>

definition mikrotik_detects :: "u8 list \<Rightarrow> bool" where
  "mikrotik_detects b = (b = [1, 0, 0, 0])"

definition mikrotik_probe :: "net \<Rightarrow> service_data outcome \<times> net" where
  "mikrotik_probe n =
     (Ok (default_service_data
        \<lparr>sd_product := Some ''mikrotik'', sd_tags := [''networking''],
         sd_banner := Some ''MikroTik bandwidth-test server'',
         sd_mikrotik := Some \<lparr>mikrotik_auth_mode = None\<rparr>\<rparr>), n)"

section \<open>BGP\<close>

definition bgp_detects :: "u8 list \<Rightarrow> bool" where
  "bgp_detects b =
     (length b \<ge> 19 \<and> take 16 b = replicate 16 0xFF \<and> 1 \<le> b ! 18 \<and> b ! 18 \<le> 4)"

definition bgp_open :: "u8 list" where
  "bgp_open =
     replicate 16 0xFF @ [0, 29] @ [1] @ [4] @ [254, 24] @ [0, 180] @ [10, 0, 0, 1] @ [0]"

definition bgp_probe :: "net \<Rightarrow> service_data outcome \<times> net" where
  "bgp_probe n =
     and_then (net_connect n) (\<lambda>s n.
       (let n = net_send bgp_open n; buf = as_bytes (fst (read_reply s))
        in if length buf \<ge> 19 \<and> take 16 buf = replicate 16 0xFF \<and> (buf ! 18 = 1 \<or> buf ! 18 = 3)
           then (Ok (default_service_data
                   \<lparr>sd_tags := [''networking''],
                    sd_banner := Some (''BGP type='' @ dec (unat (buf ! 18)))\<rparr>), n)
           else (Bail ''not BGP'', n)))"

lemma split_ws_word:
  assumes "w \<noteq> []" "list_all is_alnum w"
  shows "split_ws w = [w]"
proof -
  have l: "word_len v = length v" if "list_all is_alnum v" for v
    using that by (induction v) (simp_all add: ws_len_alnum)
  have "ws_len w = 0" using assms by (cases w) (simp_all add: ws_len_alnum)
  then have t: "trim_start w = w" by (subst trim_start.simps) simp
  have "split_ws [] = []" by (subst split_ws.simps) (simp add: trim_start.simps)
  then show ?thesis using assms t l by (subst split_ws.simps) (simp add: Let_def)
qed

section \<open>Properties\<close>

lemma reply_no_marker: "take 16 (as_bytes (fst (read_reply s))) \<noteq> replicate 16 0xFF"
proof
  assume e: "take 16 (as_bytes (fst (read_reply s))) = replicate 16 0xFF"
  have "(0xFF :: u8) \<in> set (replicate 16 0xFF)" by simp
  then have "0xFF \<in> set (as_bytes (fst (read_reply s)))" unfolding e [symmetric] by (rule in_set_takeD)
  then have "(0xFF :: u8) \<le> 0xF4" by (rule valid_utf8_bytes_le [OF read_reply_valid])
  then show False by simp
qed

lemma bgp_probe_not_Ok: "fst (bgp_probe n) \<noteq> Ok d"
  by (cases "net_connect n"; cases "fst (net_connect n)")
     (auto simp: bgp_probe_def Let_def reply_no_marker)

text \<open>
  A BGP speaker is never recognised: whatever the peer answers, the probe fails, because its
  reply has been decoded lossily and the marker bytes FF cannot be in it.
\<close>

theorem bgp_probe_fails: "\<exists>e n'. bgp_probe n = (Bail e, n') \<or> bgp_probe n = (Panic, n')"
  using bgp_probe_not_Ok [of n] by (cases "bgp_probe n"; cases "fst (bgp_probe n)") auto

text \<open>
  The SMTP banner parser cuts the first character off the product: a server that announces
  \<open>220 host ESMTP word\<close> is recorded as the word without its first letter.
\<close>

theorem smtp_product_truncated:
  assumes "CHR '' '' \<notin> set host" "w \<noteq> []" "list_all is_alnum w"
  shows "smtp_parse_banner (''220 '' @ host @ '' ESMTP '' @ c # w) = Ok (Some w, None)"
proof -
  let ?rest = "host @ '' ESMTP '' @ c # w"
  have f: "find_sub ?rest '' ESMTP '' = Some (length host)"
    by (rule find_sub_after) (use assms(1) in simp_all)
  have n: "?rest ! (length host + 8) = hd w"
    using assms(2) by (cases w) (simp_all add: nth_append)
  have "is_alnum (hd w)" using assms(2,3) by (cases w) simp_all
  then have "is_ascii (hd w)" by (auto simp: is_alnum_def is_digit_def is_upper_def is_lower_def is_ascii_def)
  then have "char_boundary ?rest (length host + 8)"
    using n assms(2) by (intro char_boundary_ascii) auto
  then have "slice_from ?rest (length host + 8) = Ok w"
    using assms(2) by (simp add: slice_from_def)
  moreover have "after_dash [w] = None" by simp
  ultimately show ?thesis
    using f split_ws_word [OF assms(2,3)] strip_prefix_append [of "''220 ''" ?rest]
    by (simp add: smtp_parse_banner_def Let_def bind_outcome_def)
qed

theorem smtp_product_truncated_witness:
  "smtp_parse_banner ''220 mail.example.org ESMTP Postfix'' = Ok (Some ''ostfix'', None)"
proof -
  have "list_all is_alnum ''ostfix''" by code_simp
  then show ?thesis using smtp_product_truncated [of "''mail.example.org''" "''ostfix''" "CHR ''P''"]
    by simp
qed

text \<open>
  The PASV parser reads a well-formed reply: four address parts and a port given by two bytes
  yield that address and that port, whatever text surrounds them.
\<close>

theorem parse_pasv_reply:
  assumes "CHR ''('' \<notin> set pre" "length ip = 4" "p1 < 256" "p2 < 256"
  shows "parse_pasv (pre @ ''('' @ join '','' (map dec (ip @ [p1, p2])) @ '')'' @ post) =
         Some (join ''.'' (map dec ip) @ '':'' @ dec (p1 * 256 + p2))"
proof -
  let ?ns = "ip @ [p1, p2]"
  let ?in = "join '','' (map dec ?ns)"
  have d: "c \<notin> set (dec n)" if "\<not> is_digit c" for c n using dec_digits that by blast
  have punct: "\<not> is_digit (CHR '','')" "\<not> is_digit (CHR '')'')" by code_simp+
  have j: "CHR '')'' \<notin> set (join '','' (map dec ns))" for ns
    by (induction ns rule: induct_list012) (simp_all add: d [OF punct(2)])
  have "CHR '')'' \<notin> set (CHR ''('' # ?in)" using j [of ?ns] by simp
  from find_sub_char_split [OF this, of post]
  have close: "find_sub (CHR ''('' # ?in @ CHR '')'' # post) '')'' = Some (length ?in + 1)" by simp
  have inner: "parens (pre @ ''('' @ ?in @ '')'' @ post) = Some ?in"
    using find_sub_char_split [OF assms(1), of "?in @ CHR '')'' # post"] close
    by (simp add: parens_def)
  have parts: "split_on (CHR '','') ?in = map dec ?ns"
    by (rule split_on_join) (use d [OF punct(1)] in auto)
  have n: "map dec ?ns ! 4 = dec p1" "map dec ?ns ! 5 = dec p2" "take 4 (map dec ?ns) = map dec ip"
    using assms(2) by (simp_all add: nth_append)
  have p: "parse_u16 (dec q) = Some (of_nat q)" if "q < 256" for q
    using that by (simp add: parse_u16_def parse_uint_dec)
  have w: "unat ((of_nat p1 :: u16) * 256 + of_nat p2) = p1 * 256 + p2"
  proof -
    have "(of_nat p1 :: u16) * 256 + of_nat p2 = of_nat (p1 * 256 + p2)" by simp
    then show ?thesis using assms(3,4) by (simp only: unat_of_nat) simp
  qed
  show ?thesis
    unfolding parse_pasv_def inner
    using assms(2) by (simp add: Let_def parts n p [OF assms(3)] p [OF assms(4)] w del: map_append)
qed

theorem parse_pasv_reply_witness:
  "parse_pasv ''227 Entering Passive Mode (10,0,0,7,195,80).'' = Some ''10.0.0.7:50000''"
proof -
  have a: "''227 Entering Passive Mode '' @ ''('' @ join '','' (map dec ([10, 0, 0, 7] @ [195, 80])) @ '')'' @ ''.'' =
      ''227 Entering Passive Mode (10,0,0,7,195,80).''"
    and b: "join ''.'' (map dec [10, 0, 0, 7]) @ '':'' @ dec (195 * 256 + 80) = ''10.0.0.7:50000''"
    by code_simp+
  show ?thesis
    using parse_pasv_reply [of "''227 Entering Passive Mode ''" "[10, 0, 0, 7]" 195 80 "''.''"]
    unfolding a b by simp
qed

end
