(* ===== verification/BinaryProbes.thy ===== *)
theory BinaryProbes
  imports Net
begin

text \<open>
  The probes of the binary protocols PPTP and SCCP, \<open>crates/scanerr-protocol/src/pptp.rs\<close> and
  \<open>sccp.rs\<close>: the packets they send, the parsers of the replies with their index panics, and the
  probes.  The lemmas say when the PPTP parser panics and which SCCP messages can be recognised in
  a reply that has been decoded as text.
\<close>

unbundle bit_operations_syntax

text \<open>Big- and little-endian reads at an offset inside the buffer.\<close>

definition be16 :: "u8 list \<Rightarrow> nat \<Rightarrow> u16" where
  "be16 bs i = of_nat (unat (bs ! i) * 256 + unat (bs ! (i + 1)))"

definition le16 :: "u8 list \<Rightarrow> nat \<Rightarrow> u16" where
  "le16 bs i = of_nat (unat (bs ! i) + unat (bs ! (i + 1)) * 256)"

definition le32 :: "u8 list \<Rightarrow> nat \<Rightarrow> u32" where
  "le32 bs i =
     of_nat (unat (bs ! i) + unat (bs ! (i + 1)) * 256 + unat (bs ! (i + 2)) * 65536 +
             unat (bs ! (i + 3)) * 16777216)"

definition bytes_between :: "u8 list \<Rightarrow> nat \<Rightarrow> nat \<Rightarrow> u8 list" where
  "bytes_between bs i j = take (j - i) (drop i bs)"

text \<open>A fixed-width text field: lossily decoded, trailing zeros and white space removed.\<close>

definition field_text :: "u8 list \<Rightarrow> string" where
  "field_text raw = trim (trim_end_matches (CHR 0x00) (from_utf8_lossy raw))"

section \<open>PPTP\<close>

definition PPTP_MAGIC :: "u8 list" where
  "PPTP_MAGIC = [0x1A, 0x2B, 0x3C, 0x4D]"

definition sccrq :: "u8 list" where
  "sccrq =
     [0, 156] @ [0, 1] @ PPTP_MAGIC @ [0, 1] @ [0, 0] @ [0x00, 0x01, 0x00, 0x03] @ [0, 0, 0, 1] @
     [0, 0, 0, 1] @ replicate 8 0 @ as_bytes ''scanerr'' @ replicate 9 0 @ as_bytes ''scanerr'' @
     replicate 101 0"

definition pptp_control_name :: "u16 \<Rightarrow> string" where
  "pptp_control_name t =
     (if t = 1 then ''SCCRQ'' else if t = 2 then ''SCCRP'' else if t = 3 then ''StopCCRQ''
      else if t = 4 then ''StopCCRP'' else if t = 5 then ''Echo-Request''
      else if t = 6 then ''Echo-Reply'' else ''Unknown'')"

definition pptp_parse :: "u8 list \<Rightarrow> service_data outcome" where
  "pptp_parse bytes =
     (if length bytes < 14 then Panic
      else
        (let control_type_name = pptp_control_name (be16 bytes 8);
             version = dec (unat (bytes ! 12)) @ ''.'' @ dec (unat (bytes ! 13));
             framing = (if length bytes \<ge> 18 then be16 bytes 14 else 0);
             hostname = field_text (if length bytes \<ge> 44 then bytes_between bytes 28 44 else []);
             vendor = field_text (if length bytes \<ge> 156 then bytes_between bytes 92 156 else []);
             features = (if framing AND 1 \<noteq> 0 then [''Async Framing''] else []) @
                        (if framing AND 2 \<noteq> 0 then [''Sync Framing''] else []) @
                        [''Control: '' @ control_type_name];
             banner = ''PPTP '' @ version @ '' Control Message: '' @ control_type_name @
                      '' Features: '' @ join '', '' features
         in Ok (default_service_data
              \<lparr>sd_banner := Some banner,
               sd_product := (if vendor \<noteq> [] \<or> hostname \<noteq> []
                              then Some (trim (vendor @ '' '' @ hostname)) else None),
               sd_version := Some version\<rparr>)))"

definition pptp_finish :: "u8 list \<Rightarrow> service_data outcome" where
  "pptp_finish buf =
     (if length buf < 12 then Bail ''No PPTP response''
      else if length buf \<ge> 8 \<and> bytes_between buf 4 8 \<noteq> PPTP_MAGIC
      then Bail ''Not PPTP: no magic cookie in response''
      else pptp_parse buf)"

definition pptp_probe :: "net \<Rightarrow> service_data outcome \<times> net" where
  "pptp_probe n =
     and_then (net_connect n) (\<lambda>s n.
       (let (resp, s) = read_reply s; buf = as_bytes resp
        in if length buf \<ge> 12 \<and> bytes_between buf 4 8 = PPTP_MAGIC then (pptp_parse buf, n)
           else
             (let n = net_send sccrq n; (buf, s) = read_until (\<lambda>t. length t \<ge> 12) s
              in (pptp_finish buf, n))))"

section \<open>SCCP\<close>

definition MSG_REGISTER_ACK :: u32 where "MSG_REGISTER_ACK = 0x0081"
definition MSG_KEEPALIVE_ACK :: u32 where "MSG_KEEPALIVE_ACK = 0x0100"
definition MSG_VERSION_MESSAGE :: u32 where "MSG_VERSION_MESSAGE = 0x0098"
definition MSG_DISPLAY_TEXT :: u32 where "MSG_DISPLAY_TEXT = 0x0099"

definition register_req :: "u8 list" where
  "register_req =
     [128, 0, 0, 0] @ replicate 4 0 @ [1, 0, 0, 0] @ as_bytes ''scanerr'' @ replicate 33 0 @ [19] @
     replicate 75 0"

fun hex :: "nat \<Rightarrow> string" where
  "hex n = (if n < 16 then [''0123456789ABCDEF'' ! n]
            else hex (n div 16) @ [''0123456789ABCDEF'' ! (n mod 16)])"

declare hex.simps [simp del]

text \<open>\<open>{:04X}\<close>.\<close>

definition hex04 :: "nat \<Rightarrow> string" where
  "hex04 n = replicate (4 - length (hex n)) (CHR ''0'') @ hex n"

definition empty_sccp :: sccp_data where
  "empty_sccp =
     \<lparr>sccp_device_name = None, sccp_device_type = None, sccp_firmware = None,
      sccp_protocol_version = None, sccp_keepalive_interval = None\<rparr>"

definition sccp_name :: "u32 \<Rightarrow> string option" where
  "sccp_name msg_id =
     (if msg_id = MSG_REGISTER_ACK then Some ''RegisterAck''
      else if msg_id = MSG_KEEPALIVE_ACK then Some ''KeepAliveAck''
      else if msg_id = MSG_VERSION_MESSAGE then Some ''VersionMessage''
      else if msg_id = MSG_DISPLAY_TEXT then Some ''DisplayText''
      else None)"

definition voip_data :: service_data where
  "voip_data = default_service_data\<lparr>sd_tags := [''voip'']\<rparr>"

definition sccp_reply :: "string \<Rightarrow> u8 list \<Rightarrow> service_data" where
  "sccp_reply msg_name buf =
     (let msg_id = le32 buf 8
      in if msg_id = MSG_REGISTER_ACK \<and> length buf \<ge> 16 then
           (let status = le32 buf 12
            in if length buf \<ge> 18 then
                 (let keepalive = le16 buf 16
                  in voip_data
                       \<lparr>sd_sccp := Some (empty_sccp\<lparr>sccp_keepalive_interval := Some keepalive\<rparr>),
                        sd_banner := Some (''SCCP RegisterAck status='' @ dec (unat status) @
                          '' keepalive='' @ dec (unat keepalive) @ ''s'')\<rparr>)
               else voip_data\<lparr>sd_banner := Some (''SCCP RegisterAck status='' @ dec (unat status))\<rparr>)
         else if msg_id = MSG_VERSION_MESSAGE \<and> length buf \<ge> 16 then
           (let version = field_text (drop 12 buf)
            in voip_data
                 \<lparr>sd_sccp := Some (empty_sccp\<lparr>sccp_firmware :=
                    (if version = [] then None else Some version)\<rparr>),
                  sd_banner := Some (''SCCP VersionMessage: '' @ version)\<rparr>)
         else if msg_id = MSG_DISPLAY_TEXT \<and> length buf \<ge> 16 then
           voip_data\<lparr>sd_banner := Some (''SCCP DisplayText: '' @ field_text (drop 12 buf))\<rparr>
         else voip_data\<lparr>sd_banner :=
                Some (''SCCP '' @ msg_name @ '' (0x'' @ hex04 (unat msg_id) @ '')'')\<rparr>)"

definition extra_msg :: "net \<Rightarrow> u8 list option \<times> net" where
  "extra_msg n =
     (case net_connect n of
        (Ok s, n) \<Rightarrow>
          (let n = net_send register_req n; buf = as_bytes (fst (read_reply s))
           in (if length buf \<ge> 12 then Some buf else None, n))
      | (_, n) \<Rightarrow> (None, n))"

definition on_sccp :: "(sccp_data \<Rightarrow> sccp_data) \<Rightarrow> service_data \<Rightarrow> service_data" where
  "on_sccp f d = d\<lparr>sd_sccp := map_option f (sd_sccp d)\<rparr>"

definition sccp_enrich :: "u8 list \<Rightarrow> service_data \<Rightarrow> service_data" where
  "sccp_enrich extra d =
     (if length extra < 12 \<or> le32 extra 8 \<noteq> MSG_REGISTER_ACK \<or> length extra < 56 then d
      else
        (let name = field_text (bytes_between extra 28 44);
             d = (if name \<noteq> [] then on_sccp (\<lambda>s. s\<lparr>sccp_device_name := Some name\<rparr>)
                                      (d\<lparr>sd_product := Some name\<rparr>) else d);
             device_type = le32 extra 52;
             d = (if device_type \<noteq> 0
                  then on_sccp (\<lambda>s. s\<lparr>sccp_device_type := Some device_type\<rparr>) d else d);
             d = (if length extra \<ge> 65 \<and> extra ! 64 \<noteq> 0
                  then on_sccp (\<lambda>s. s\<lparr>sccp_protocol_version := Some (extra ! 64)\<rparr>)
                         (d\<lparr>sd_version := Some (''SCCP v'' @ dec (unat (extra ! 64)))\<rparr>) else d);
             fw = field_text (bytes_between extra 110 142)
         in if length extra \<ge> 142 \<and> fw \<noteq> []
            then on_sccp (\<lambda>s. s\<lparr>sccp_firmware := Some fw\<rparr>) d else d))"

definition sccp_probe :: "net \<Rightarrow> service_data outcome \<times> net" where
  "sccp_probe n =
     and_then (net_connect n) (\<lambda>s n.
       (let n = net_send register_req n; buf = as_bytes (fst (read_reply s))
        in if length buf < 12
           then (Bail (''SCCP response too short ('' @ dec (length buf) @ '' bytes)''), n)
           else
             (case sccp_name (le32 buf 8) of
                None \<Rightarrow>
                  (Bail (''Not SCCP: unexpected message ID 0x'' @ hex04 (unat (le32 buf 8))), n)
              | Some msg_name \<Rightarrow>
                  (let d = sccp_reply msg_name buf
                   in if le32 buf 8 = MSG_REGISTER_ACK then
                        (let (extra, n) = extra_msg n
                         in (Ok (case extra of Some e \<Rightarrow> sccp_enrich e d | None \<Rightarrow> d), n))
                      else (Ok d, n)))))"

section \<open>Properties\<close>

text \<open>
  The PPTP reply handler panics exactly on replies of 12 or 13 bytes with the magic cookie: it
  checks for 12 bytes and then reads the bytes at 12 and 13.
\<close>

theorem pptp_finish_panics_iff:
  "pptp_finish buf = Panic \<longleftrightarrow> (length buf = 12 \<or> length buf = 13) \<and> bytes_between buf 4 8 = PPTP_MAGIC"
  by (auto simp: pptp_finish_def pptp_parse_def Let_def)

text \<open>
  The parser does not read the fields where the request writer puts them: parsing the request gives
  version 0.1, both framings, and a host name led by four zero bytes.
\<close>

lemma pptp_layout_mismatch:
  "pptp_parse sccrq =
     Ok (default_service_data
       \<lparr>sd_banner := Some ''PPTP 0.1 Control Message: SCCRQ Features: Async Framing, Sync Framing, Control: SCCRQ'',
        sd_product := Some (replicate 4 (CHR 0x00) @ ''scanerr''), sd_version := Some ''0.1''\<rparr>)"
  by code_simp

lemma le32_low:
  assumes "le32 bs i = of_nat k" "k < 256"
  shows "unat (bs ! i) = k"
proof -
  have b: "unat (b :: u8) < 256" for b using unsigned_less [of b] by simp
  let ?v = "unat (bs ! i) + unat (bs ! (i + 1)) * 256 + unat (bs ! (i + 2)) * 65536 +
             unat (bs ! (i + 3)) * 16777216"
  have "?v < 4294967296"
    using b [of "bs ! i"] b [of "bs ! (i + 1)"] b [of "bs ! (i + 2)"] b [of "bs ! (i + 3)"] by linarith
  moreover have "unat (of_nat ?v :: u32) = unat (of_nat k :: u32)"
    using assms(1) unfolding le32_def by (rule arg_cong)
  ultimately have "?v = k" using assms(2) by (simp only: unat_of_nat) simp
  moreover have "unat (bs ! (i + 1)) = 0 \<and> unat (bs ! (i + 2)) = 0 \<and> unat (bs ! (i + 3)) = 0"
    using calculation assms(2) by linarith
  ultimately show ?thesis by simp
qed

lemma text_message_ids:
  assumes "buf = as_bytes (fst (read_reply s))" "length buf \<ge> 12" "le32 buf 8 \<in> {0x81, 0x98, 0x99}"
  shows "0x80 \<le> buf ! 7"
proof -
  have "unat (buf ! 8) \<in> {0x81, 0x98, 0x99}"
    using assms(3) le32_low [where bs = buf and i = 8 and k = "0x81"]
      le32_low [where bs = buf and i = 8 and k = "0x98"] le32_low [where bs = buf and i = 8 and k = "0x99"] by auto
  then have "is_cont (buf ! 8)" by (auto simp: is_cont_def word_ord_nat)
  then show ?thesis using read_reply_cont_prev [OF assms(1), of 7] assms(2) by simp
qed

text \<open>
  The only SCCP message the probe can recognise in a reply whose eighth byte is ASCII (it is the
  end of a reserved field of zeros) is KeepAliveAck: the ids of the others are UTF-8 continuation
  bytes, which the lossy decoding has replaced.
\<close>

theorem sccp_only_keepalive:
  assumes "net_connect n = (Ok s, n1)" "buf = as_bytes (fst (read_reply s))" "buf ! 7 < 0x80"
    and "sccp_probe n = (Ok d, n2)"
  shows "d = default_service_data\<lparr>sd_tags := [''voip''], sd_banner := Some ''SCCP KeepAliveAck (0x0100)''\<rparr>"
proof -
  have l: "length buf \<ge> 12"
    using assms by (auto simp: sccp_probe_def Let_def split: if_splits)
  then have "le32 buf 8 \<notin> {0x81, 0x98, 0x99}"
    using text_message_ids [OF assms(2) l] assms(3) by (auto simp: word_ord_nat)
  then have other: "le32 buf 8 \<noteq> MSG_REGISTER_ACK" "le32 buf 8 \<noteq> MSG_VERSION_MESSAGE"
    "le32 buf 8 \<noteq> MSG_DISPLAY_TEXT"
    by (simp_all add: MSG_REGISTER_ACK_def MSG_VERSION_MESSAGE_def MSG_DISPLAY_TEXT_def)
  have k: "le32 buf 8 = MSG_KEEPALIVE_ACK"
  proof (rule ccontr)
    assume "le32 buf 8 \<noteq> MSG_KEEPALIVE_ACK"
    then have "sccp_name (le32 buf 8) = None" using other by (simp add: sccp_name_def)
    then show False using assms l by (simp add: sccp_probe_def Let_def)
  qed
  have h: "hex04 (unat MSG_KEEPALIVE_ACK) = ''0100''" by code_simp
  have "d = sccp_reply ''KeepAliveAck'' buf"
    using assms l other k by (auto simp: sccp_probe_def Let_def sccp_name_def)
  then show ?thesis using other k h by (simp add: sccp_reply_def Let_def voip_data_def)
qed

definition demo_pbx :: net where
  "demo_pbx = \<lparr>n_conns = [Inr [RData [4, 0, 0, 0, 0, 0, 0, 0, 0, 1, 0, 0]]], n_log = []\<rparr>"

theorem sccp_only_keepalive_witness:
  "\<exists>n2. sccp_probe demo_pbx = (Ok (default_service_data\<lparr>sd_tags := [''voip''],
     sd_banner := Some ''SCCP KeepAliveAck (0x0100)''\<rparr>), n2)"
proof -
  let ?s = "[RData [4, 0, 0, 0, 0, 0, 0, 0, 0, 1, 0, 0]]"
  have c: "net_connect demo_pbx = (Ok ?s, \<lparr>n_conns = [], n_log = []\<rparr>)"
    by (simp add: net_connect_def demo_pbx_def)
  have "(case fst (sccp_probe demo_pbx) of Ok d \<Rightarrow> True | _ \<Rightarrow> False)" by code_simp
  then obtain d n2 where d: "sccp_probe demo_pbx = (Ok d, n2)"
    by (cases "sccp_probe demo_pbx") (auto split: outcome.splits)
  have "as_bytes (fst (read_reply ?s)) ! 7 < 0x80" by code_simp
  from sccp_only_keepalive [OF c refl this d] show ?thesis using d by blast
qed

end
