(* ===== verification/Ssh.thy ===== *)
theory Ssh
  imports Net
begin

text \<open>
  The SSH probe, \<open>crates/scanerr-protocol/src/ssh.rs\<close>: the version line, the length-prefixed
  messages it writes and reads, the parser of the key-exchange reply with every slice checked, and
  the probe.  Base64 and SHA-256 are the parameters \<open>b64\<close>, \<open>b64url\<close> and \<open>sha\<close>.  The lemmas:
  the parser never slices out of range and reads back every well-formed reply, reading
  inverts writing across any cutting of the stream into chunks, and only printable text
  comes out of a version line.
\<close>

definition ssh_detects :: "u8 list \<Rightarrow> bool" where
  "ssh_detects b = prefix ''SSH-'' (from_utf8_lossy b)"

section \<open>The version line\<close>

definition printable_char :: "char \<Rightarrow> bool" where
  "printable_char c = (0x20 \<le> byte c \<and> byte c \<le> 0x7E)"

definition nonempty_str :: "string \<Rightarrow> string option" where
  "nonempty_str s = (if s = [] then None else Some s)"

definition parse_version :: "string \<Rightarrow> string option \<times> string option" where
  "parse_version version =
     (let rest = (case strip_prefix version ''SSH-2.0-'' of Some r \<Rightarrow> r | None \<Rightarrow> version);
          product_version = hd (split_on (CHR '' '') rest);
          (prod, ver) = (case find_sub product_version ''_'' of
                           Some p \<Rightarrow> (take p product_version, Some (drop (p + 1) product_version))
                         | None \<Rightarrow> (product_version, None))
      in (nonempty_str (filter printable_char prod),
          Option.bind (map_option (filter printable_char) ver) nonempty_str))"

section \<open>Messages\<close>

definition be32_bytes :: "nat \<Rightarrow> u8 list" where
  "be32_bytes n =
     [of_nat (n div 16777216), of_nat (n div 65536), of_nat (n div 256), of_nat n]"

definition be32_value :: "u8 list \<Rightarrow> nat" where
  "be32_value bs =
     unat (bs ! 0) * 16777216 + unat (bs ! 1) * 65536 + unat (bs ! 2) * 256 + unat (bs ! 3)"

definition ssh_wrap :: "u8 list \<Rightarrow> u8 list" where
  "ssh_wrap payload = be32_bytes (length payload) @ payload"

definition name_lists :: "string list" where
  "name_lists =
     [''curve25519-sha256,ecdh-sha2-nistp256,diffie-hellman-group14-sha256,diffie-hellman-group14-sha1'',
      ''ssh-ed25519,ecdsa-sha2-nistp256,rsa-sha2-512,rsa-sha2-256'',
      ''aes256-ctr,aes128-ctr,aes256-gcm@openssh.com,aes128-gcm@openssh.com'',
      ''aes256-ctr,aes128-ctr,aes256-gcm@openssh.com,aes128-gcm@openssh.com'',
      ''hmac-sha2-256,hmac-sha2-512,hmac-sha1'', ''hmac-sha2-256,hmac-sha2-512,hmac-sha1'',
      ''none'', ''none'', '''', '''']"

definition kexinit :: "u8 list" where
  "kexinit =
     ssh_wrap ([20] @ replicate 16 0 @
       concat (map (\<lambda>l. be32_bytes (length l) @ as_bytes l) name_lists) @ [0] @ [0, 0, 0, 0])"

definition dh_init :: "u8 list" where
  "dh_init = ssh_wrap ([30] @ replicate 32 2)"

text \<open>\<open>read_exact\<close>: \<open>None\<close> at end of file, on a timeout or an error.\<close>

lemma read_chunk_length: "read_chunk n s = (RData bs, s') \<Longrightarrow> 0 < n \<Longrightarrow> 0 < length bs \<and> length bs \<le> n"
  by (induction n s rule: read_chunk.induct) (auto split: if_splits)

function read_exact :: "nat \<Rightarrow> stream \<Rightarrow> u8 list option \<times> stream" where
  "read_exact n s =
     (if n = 0 then (Some [], s)
      else (case read_chunk n s of
              (RData bs, s') \<Rightarrow>
                (let (r, s'') = read_exact (n - length bs) s' in (map_option ((@) bs) r, s''))
            | (_, s') \<Rightarrow> (None, s')))"
  by pat_completeness auto
termination
  by (relation "measure fst") (auto dest!: read_chunk_length [OF sym])

declare read_exact.simps [simp del]

definition read_msg :: "stream \<Rightarrow> u8 list option \<times> stream" where
  "read_msg s =
     (case read_exact 4 s of
        (None, s') \<Rightarrow> (None, s')
      | (Some len_buf, s') \<Rightarrow>
          (let len = be32_value len_buf
           in if len > 35000 then (None, s') else read_exact len s'))"

section \<open>The key-exchange reply\<close>

text \<open>The four-byte length at an offset, and a slice; out of range they panic.\<close>

definition be32_at :: "u8 list \<Rightarrow> nat \<Rightarrow> nat outcome" where
  "be32_at bs p = (if p + 4 \<le> length bs then Ok (be32_value (drop p bs)) else Panic)"

definition slice :: "u8 list \<Rightarrow> nat \<Rightarrow> nat \<Rightarrow> u8 list outcome" where
  "slice bs i j = (if i \<le> j \<and> j \<le> length bs then Ok (take (j - i) (drop i bs)) else Panic)"

type_synonym host_key = "string option \<times> string option \<times> string option"

definition ssh_parse_reply ::
  "(u8 list \<Rightarrow> string) \<Rightarrow> (u8 list \<Rightarrow> string) \<Rightarrow> (u8 list \<Rightarrow> u8 list) \<Rightarrow> u8 list \<Rightarrow> host_key option outcome"
where
  "ssh_parse_reply b64 b64url sha msg =
     (if length msg < 5 \<or> msg ! 0 \<noteq> 31 then Ok None
      else if 1 + 4 > length msg then Ok None
      else bind_outcome (be32_at msg 1) (\<lambda>f_len.
        (let pos = 1 + (4 + f_len)
         in if pos + 4 > length msg then Ok None
            else bind_outcome (be32_at msg pos) (\<lambda>kt_len.
              (let pos = pos + 4
               in if pos + kt_len > length msg then Ok None
                  else bind_outcome (slice msg pos (pos + kt_len)) (\<lambda>kt.
                    (let key_type = from_utf8_lossy kt; pos = pos + kt_len
                     in if pos + 4 > length msg then Ok None
                        else bind_outcome (be32_at msg pos) (\<lambda>hk_len.
                          (let pos = pos + 4
                           in if pos + hk_len > length msg then Ok None
                              else bind_outcome (slice msg pos (pos + hk_len)) (\<lambda>host_key.
                                Ok (Some (Some key_type, Some (b64 host_key),
                                    Some (''SHA256:'' @ b64url (sha host_key))))))))))))))"

section \<open>The probe\<close>

lemma read_exact_size: "read_exact n s = (Some bs, s') \<Longrightarrow> 0 < n \<Longrightarrow> stream_size s' < stream_size s"
proof (induction n s arbitrary: bs s' rule: read_exact.induct)
  case (1 n s)
  obtain r s1 where c: "read_chunk n s = (r, s1)" by (cases "read_chunk n s")
  then obtain b where r: "r = RData b"
    using 1(2,3) by (subst (asm) read_exact.simps) (auto split: rd.splits)
  have lt: "stream_size s1 < stream_size s"
    using read_chunk_data_size 1(3) c r by blast
  obtain o2 where rec: "read_exact (n - length b) s1 = (o2, s')" "o2 \<noteq> None"
    using 1(2,3) c r by (subst (asm) read_exact.simps) (auto split: prod.splits)
  show ?case
  proof (cases "n - length b = 0")
    case True
    then show ?thesis using rec lt by (simp add: read_exact.simps [of 0])
  next
    case False
    obtain cs where "o2 = Some cs" using rec(2) by blast
    then show ?thesis using 1(1) [OF _ c [symmetric] r] rec(1) lt 1(3) False by fastforce
  qed
qed

lemma read_msg_size: "read_msg s = (Some m, s') \<Longrightarrow> stream_size s' < stream_size s"
proof -
  assume m: "read_msg s = (Some m, s')"
  obtain lb s1 where l: "read_exact 4 s = (Some lb, s1)"
    using m by (auto simp: read_msg_def split: prod.splits option.splits)
  have lt: "stream_size s1 < stream_size s" using read_exact_size [OF l] by simp
  have rec: "read_exact (be32_value lb) s1 = (Some m, s')"
    using m l by (auto simp: read_msg_def Let_def split: if_splits)
  show ?thesis
    using read_exact_size [OF rec] lt rec by (cases "be32_value lb = 0") (auto simp: read_exact.simps [of 0])
qed

text \<open>The loop that waits for the reply: other messages are skipped, an error ends it.\<close>

function await_reply ::
  "(u8 list \<Rightarrow> host_key option outcome) \<Rightarrow> stream \<Rightarrow> host_key option outcome" where
  "await_reply parse s =
     (case read_msg s of
        (Some m, s') \<Rightarrow> if length m > 0 \<and> m ! 0 = 31 then parse m else await_reply parse s'
      | (None, _) \<Rightarrow> Ok None)"
  by pat_completeness auto
termination
  by (relation "measure (\<lambda>(p, s). stream_size s)") (auto dest!: read_msg_size [OF sym])

declare await_reply.simps [simp del]

definition ssh_read :: "stream \<Rightarrow> string outcome \<times> stream" where
  "ssh_read s =
     (case read_chunk 4096 s of
        (RData bs, s') \<Rightarrow> (Ok (trim (from_utf8_lossy bs)), s')
      | (RErr, s') \<Rightarrow> (Bail ''read error'', s')
      | (_, s') \<Rightarrow> (Ok [], s'))"

definition or_else :: "'a option \<Rightarrow> 'a option \<Rightarrow> 'a option" where
  "or_else a b = (case a of Some x \<Rightarrow> Some x | None \<Rightarrow> b)"

definition ssh_probe ::
  "(u8 list \<Rightarrow> string) \<Rightarrow> (u8 list \<Rightarrow> string) \<Rightarrow> (u8 list \<Rightarrow> u8 list) \<Rightarrow> u8 list \<Rightarrow> net \<Rightarrow>
   service_data outcome \<times> net"
where
  "ssh_probe b64 b64url sha banner n =
     (let server_version = trim (from_utf8_lossy banner);
          (product, version) = parse_version server_version
      in and_then (net_connect n) (\<lambda>s n.
           (let (v2, s) = ssh_read s; n' = net_send (as_bytes (''SSH-2.0-scanerr_0.1'' @ [CHR 0x0D, CHR 0x0A])) n
            in and_then (v2, (case v2 of Ok _ \<Rightarrow> n' | _ \<Rightarrow> n)) (\<lambda>v2 n.
                 (let (v2, s) = (if v2 = [] then ssh_read s else (Ok v2, s))
                  in and_then (v2, n) (\<lambda>v2 n.
                       (let (product2, version2) = parse_version v2;
                            final_product = or_else product2 product;
                            final_version = or_else version2 version;
                            final_banner = (if v2 \<noteq> [] then v2 else server_version)
                        in if final_banner = [] \<or> \<not> prefix ''SSH-'' final_banner
                           then (Bail ''no SSH banner received'', n)
                           else
                             (let n = net_send kexinit n;
                                  (_, s) = read_msg s;
                                  n = net_send dh_init n
                              in and_then (await_reply (ssh_parse_reply b64 b64url sha) s, n)
                                   (\<lambda>info n.
                                     (Ok (default_service_data
                                        \<lparr>sd_product := final_product, sd_version := final_version,
                                         sd_banner := Some final_banner,
                                         sd_ssh := Some
                                           \<lparr>ssh_raw = final_banner,
                                            ssh_key_type = Option.bind info fst,
                                            ssh_key = Option.bind info (fst \<circ> snd),
                                            ssh_fingerprint = Option.bind info (snd \<circ> snd),
                                            ssh_product = final_product,
                                            ssh_version = final_version\<rparr>\<rparr>), n))))))))))"

section \<open>Lengths\<close>

lemma be32_roundtrip:
  assumes "n < 4294967296"
  shows "be32_value (be32_bytes n @ r) = n"
proof -
  have h: "n div 16777216 < 256" using assms by (simp add: less_mult_imp_div_less)
  have split: "n = n div 16777216 * 16777216 + n div 65536 mod 256 * 65536 + n div 256 mod 256 * 256 + n mod 256"
  proof -
    have a: "n div 16777216 * 256 + n div 65536 mod 256 = n div 65536"
      using div_mult_mod_eq [of "n div 65536" 256] by (simp add: div_mult2_eq [symmetric])
    have b: "n div 65536 * 256 + n div 256 mod 256 = n div 256"
      using div_mult_mod_eq [of "n div 256" 256] by (simp add: div_mult2_eq [symmetric])
    have "n div 256 * 256 + n mod 256 = n" by simp
    then show ?thesis using a b by linarith
  qed
  have "be32_value (be32_bytes n @ r) =
      n div 16777216 * 16777216 + n div 65536 mod 256 * 65536 + n div 256 mod 256 * 256 + n mod 256"
    using h by (simp add: be32_value_def be32_bytes_def unat_of_nat)
  then show ?thesis using split by simp
qed

lemma length_be32 [simp]: "length (be32_bytes n) = 4"
  by (simp add: be32_bytes_def)

lemma be32_at_string:
  "length x < 4294967296 \<Longrightarrow> be32_at (pre @ be32_bytes (length x) @ r) (length pre) = Ok (length x)"
  by (simp add: be32_at_def be32_roundtrip)

lemma slice_string: "slice (pre @ x @ r) (length pre) (length pre + length x) = Ok x"
  by (simp add: slice_def)

section \<open>Properties\<close>

text \<open>
  C40. The parser of the key-exchange reply never slices or indexes out of range, whatever bytes
  the server sends.
\<close>

theorem ssh_parse_reply_safe: "ssh_parse_reply b64 b64url sha msg \<noteq> Panic"
  by (auto simp: ssh_parse_reply_def Let_def be32_at_def slice_def)

text \<open>
  A reply made of three length-prefixed strings is read back: the second is the key type, the
  third the host key, whatever follows.
\<close>

theorem ssh_parse_reply_roundtrip:
  assumes "length f < 4294967296" "length kt < 4294967296" "length hk < 4294967296"
  shows "ssh_parse_reply b64 b64url sha (31 # ssh_wrap f @ ssh_wrap kt @ ssh_wrap hk @ rest) =
         Ok (Some (Some (from_utf8_lossy kt), Some (b64 hk), Some (''SHA256:'' @ b64url (sha hk))))"
proof -
  let ?m = "31 # ssh_wrap f @ ssh_wrap kt @ ssh_wrap hk @ rest"
  let ?p1 = "31 # ssh_wrap f" and ?p2 = "31 # ssh_wrap f @ ssh_wrap kt"
  have l: "be32_at ?m 1 = Ok (length f)"
    using be32_at_string [OF assms(1), of "[31]" "f @ ssh_wrap kt @ ssh_wrap hk @ rest"]
    by (simp add: ssh_wrap_def)
  have k: "be32_at ?m (1 + (4 + length f)) = Ok (length kt)"
    using be32_at_string [OF assms(2), of ?p1 "kt @ ssh_wrap hk @ rest"] by (simp add: ssh_wrap_def)
  have ks: "slice ?m (1 + (4 + length f) + 4) (1 + (4 + length f) + 4 + length kt) = Ok kt"
    using slice_string [of "?p1 @ be32_bytes (length kt)" kt "ssh_wrap hk @ rest"]
    by (simp add: ssh_wrap_def)
  have h: "be32_at ?m (1 + (4 + length f) + 4 + length kt) = Ok (length hk)"
    using be32_at_string [OF assms(3), of ?p2 "hk @ rest"] by (simp add: ssh_wrap_def add.assoc)
  have hs: "slice ?m (1 + (4 + length f) + 4 + length kt + 4)
      (1 + (4 + length f) + 4 + length kt + 4 + length hk) = Ok hk"
    using slice_string [of "?p2 @ be32_bytes (length hk)" hk rest] by (simp add: ssh_wrap_def add.assoc)
  have len: "length ?m = 13 + length f + length kt + length hk + length rest" "?m ! 0 = 31"
    by (simp_all add: ssh_wrap_def)
  have "ssh_parse_reply b64 b64url sha m =
      Ok (Some (Some (from_utf8_lossy kt), Some (b64 hk), Some (''SHA256:'' @ b64url (sha hk))))"
    if "m = ?m" for m
    using l k ks h hs len unfolding that [symmetric] ssh_parse_reply_def Let_def by simp
  then show ?thesis by simp
qed

theorem ssh_parse_reply_roundtrip_witness:
  "ssh_parse_reply as_str as_str rev (31 # ssh_wrap [9] @ ssh_wrap (as_bytes ''ssh-rsa'') @
     ssh_wrap (as_bytes ''key'') @ [1, 2]) =
   Ok (Some (Some ''ssh-rsa'', Some ''key'', Some ''SHA256:yek''))"
proof -
  have "from_utf8_lossy (as_bytes ''ssh-rsa'') = ''ssh-rsa''" "as_str (rev (as_bytes ''key'')) = ''yek''"
    by code_simp+
  then show ?thesis
    using ssh_parse_reply_roundtrip [of "[9]" "as_bytes ''ssh-rsa''" "as_bytes ''key''" as_str as_str rev "[1, 2]"]
    by simp
qed

lemma read_exact_chunks:
  "list_all (\<lambda>c. c \<noteq> []) cs \<Longrightarrow> concat cs = xs @ ys \<Longrightarrow> length xs = n \<Longrightarrow>
   \<exists>cs'. read_exact n (map RData cs) = (Some xs, map RData cs') \<and> concat cs' = ys \<and>
         list_all (\<lambda>c. c \<noteq> []) cs'"
proof (induction cs arbitrary: xs n)
  case Nil
  then show ?case by (simp add: read_exact.simps)
next
  case (Cons c cs)
  show ?case
  proof (cases "n = 0")
    case True
    then show ?thesis using Cons.prems
      by (intro exI [of _ "c # cs"]) (simp add: read_exact.simps)
  next
    case False
    show ?thesis
    proof (cases "length c \<le> n")
      case True
      have xs: "xs = c @ drop (length c) xs"
        using Cons.prems(2,3) True by (metis append_eq_append_conv_if append_take_drop_id concat.simps(2))
      have "concat cs = drop (length c) xs @ ys"
        using Cons.prems(2) by (subst (asm) xs) simp
      then obtain cs' where "read_exact (n - length c) (map RData cs) =
            (Some (drop (length c) xs), map RData cs')" "concat cs' = ys" "list_all (\<lambda>c. c \<noteq> []) cs'"
        using Cons.IH [of "drop (length c) xs" "n - length c"] Cons.prems(1,3) by auto
      then show ?thesis using False True Cons.prems(1) xs
        by (intro exI [of _ cs']) (subst read_exact.simps, simp)
    next
      case long: False
      then have "take n c = xs" "drop n c @ concat cs = ys"
        using Cons.prems(2,3) by (auto simp: append_eq_append_conv2)
      then show ?thesis using long False Cons.prems(1,3)
        by (intro exI [of _ "drop n c # cs"]) (subst read_exact.simps, simp add: read_exact.simps [of 0])
    qed
  qed
qed

text \<open>
  A message written with its length is read back however the stream is cut into chunks, and
  the bytes after it stay in the stream.
\<close>

theorem read_msg_wrap:
  assumes "length m \<le> 35000" "list_all (\<lambda>c. c \<noteq> []) cs" "concat cs = ssh_wrap m @ rest"
  shows "\<exists>cs'. read_msg (map RData cs) = (Some m, map RData cs') \<and> concat cs' = rest"
proof -
  have "concat cs = be32_bytes (length m) @ m @ rest" using assms(3) by (simp add: ssh_wrap_def)
  then obtain c1 where c1: "read_exact 4 (map RData cs) = (Some (be32_bytes (length m)), map RData c1)"
      "concat c1 = m @ rest" "list_all (\<lambda>c. c \<noteq> []) c1"
    using read_exact_chunks [OF assms(2), of "be32_bytes (length m)" "m @ rest" 4] by auto
  obtain c2 where "read_exact (length m) (map RData c1) = (Some m, map RData c2)" "concat c2 = rest"
    using read_exact_chunks [OF c1(3,2) refl] by auto
  then show ?thesis
    using c1(1) assms(1) be32_roundtrip [of "length m" "[]"] by (auto simp: read_msg_def Let_def)
qed

theorem read_msg_wrap_witness:
  "\<exists>cs'. read_msg (map RData [[0, 0], [0, 2, 31], [5, 7]]) = (Some [31, 5], map RData cs') \<and> concat cs' = [7]"
  by (rule read_msg_wrap) (simp_all add: ssh_wrap_def be32_bytes_def)

text \<open>
  Product and version taken from a version line are printable ASCII and not empty, whatever
  the server sent.
\<close>

theorem parse_version_printable:
  "pred_option (\<lambda>p. p \<noteq> [] \<and> list_all printable_char p) (fst (parse_version v)) \<and>
   pred_option (\<lambda>p. p \<noteq> [] \<and> list_all printable_char p) (snd (parse_version v))"
  by (auto simp: parse_version_def Let_def nonempty_str_def list_all_iff split: option.splits
      if_splits prod.splits)

end
