(* ===== verification/Mqtt.thy ===== *)
theory Mqtt
  imports Net
begin

text \<open>
  The MQTT probe, \<open>crates/scanerr-protocol/src/mqtt.rs\<close>: the packets it sends, the variable-length
  encoding of the remaining length, the topic parser, and the probe over a scripted connection.
  The lemmas: the length code is inverted by the decoder, SUBSCRIBE and UNSUBSCRIBE declare
  the length they have while CONNECT does not, the parser reads back every sequence of well-formed
  PUBLISH packets, and re-parsing the growing buffer loses and invents no topic.
\<close>

unbundle bit_operations_syntax

section \<open>The remaining length\<close>

fun encode_len :: "nat \<Rightarrow> u8 list" where
  "encode_len n =
     (let byte = of_nat (n mod 128) :: u8; rest = n div 128
      in if 0 < rest then (byte OR 0x80) # encode_len rest else [byte])"

declare encode_len.simps [simp del]

function decode_from :: "u8 list \<Rightarrow> nat \<Rightarrow> nat \<Rightarrow> nat \<Rightarrow> (nat \<times> nat) option" where
  "decode_from data mult value pos =
     (if pos \<ge> length data then None
      else (let byte = data ! pos; value = value + unat (byte AND 0x7F) * mult; pos = pos + 1
            in if byte AND 0x80 = 0 then Some (value, pos)
               else if mult * 128 > 128 * 128 * 128 then None
               else decode_from data (mult * 128) value pos))"
  by pat_completeness auto
termination by (relation "measure (\<lambda>(d, m, v, p). length d - p)") auto

declare decode_from.simps [simp del]

definition decode_len :: "u8 list \<Rightarrow> nat \<Rightarrow> (nat \<times> nat) option" where
  "decode_len data start = decode_from data 1 0 start"

lemma byte_bits:
  assumes "k < 128"
  shows "(of_nat k :: u8) AND 0x80 = 0" "unat ((of_nat k :: u8) AND 0x7F) = k"
    "((of_nat k :: u8) OR 0x80) AND 0x80 \<noteq> 0" "unat (((of_nat k :: u8) OR 0x80) AND 0x7F) = k"
proof -
  have "list_all (\<lambda>k. (of_nat k :: u8) AND 0x80 = 0 \<and> unat ((of_nat k :: u8) AND 0x7F) = k \<and>
      ((of_nat k :: u8) OR 0x80) AND 0x80 \<noteq> 0 \<and> unat (((of_nat k :: u8) OR 0x80) AND 0x7F) = k)
    [0..<128]" by code_simp
  then show "(of_nat k :: u8) AND 0x80 = 0" "unat ((of_nat k :: u8) AND 0x7F) = k"
    "((of_nat k :: u8) OR 0x80) AND 0x80 \<noteq> 0" "unat (((of_nat k :: u8) OR 0x80) AND 0x7F) = k"
    using assms by (simp_all add: list_all_iff)
qed

lemma decode_from_encode:
  "mult * n < 128 ^ 4 \<Longrightarrow> mult = 128 ^ j \<Longrightarrow>
   decode_from (pre @ encode_len n @ post) mult v (length pre) =
     Some (v + n * mult, length pre + length (encode_len n))"
proof (induction n arbitrary: pre mult v j rule: encode_len.induct)
  case (1 n)
  let ?b = "of_nat (n mod 128) :: u8"
  have k: "n mod 128 < 128" by simp
  note bits = byte_bits [OF k]
  show ?case
  proof (cases "0 < n div 128")
    case True
    then have e: "encode_len n = (?b OR 0x80) # encode_len (n div 128)"
      by (subst encode_len.simps) (simp add: Let_def)
    have "128 \<le> n" using True by (simp add: div_greater_zero_iff)
    then have "mult * 128 \<le> mult * n" by simp
    then have "mult * 128 < 128 ^ 4" using 1(2) by linarith
    then have "(128 :: nat) ^ Suc j < 128 ^ 4" using 1(3) by simp
    then have "Suc j < 4" by (rule power_less_imp_less_exp [rotated]) simp
    then have "(128 :: nat) ^ Suc j \<le> 128 ^ 3" by (intro power_increasing) simp_all
    then have m: "\<not> mult * 128 > 128 * 128 * 128" using 1(3) by simp
    have dv: "n = 128 * (n div 128) + n mod 128" by simp
    have "mult * 128 * (n div 128) \<le> mult * n"
      using dv by (metis le_add1 mult.assoc mult_le_mono2)
    then have lt: "mult * 128 * (n div 128) < 128 ^ 4" using 1(2) by linarith
    have "decode_from (pre @ encode_len n @ post) mult v (length pre) =
        (if mult * 128 > 128 * 128 * 128 then None
         else decode_from ((pre @ [?b OR 0x80]) @ encode_len (n div 128) @ post) (mult * 128)
           (v + n mod 128 * mult) (length (pre @ [?b OR 0x80])))"
      by (subst decode_from.simps) (simp add: e bits Let_def)
    also have "\<dots> = Some (v + n mod 128 * mult + n div 128 * (mult * 128),
        length (pre @ [?b OR 0x80]) + length (encode_len (n div 128)))"
      using 1(1) [OF refl refl True lt, of "Suc j" "pre @ [?b OR 0x80]" "v + n mod 128 * mult"]
        1(3) m True
      by simp
    also have "v + n mod 128 * mult + n div 128 * (mult * 128) = v + n * mult"
    proof -
      have "v + r * mult + q * (mult * 128) = v + (128 * q + r) * mult" for q r :: nat
        by (simp add: algebra_simps)
      then show ?thesis using dv by metis
    qed
    finally show ?thesis by (simp add: e)
  next
    case False
    then have "encode_len n = [?b]" "n mod 128 = n" by (subst encode_len.simps, simp_all add: div_eq_0_iff)
    then show ?thesis using bits by (subst decode_from.simps) (simp add: Let_def)
  qed
qed

lemma decode_encode:
  "n < 128 ^ 4 \<Longrightarrow>
   decode_len (pre @ encode_len n @ post) (length pre) = Some (n, length pre + length (encode_len n))"
  using decode_from_encode [of 1 n 0 pre post 0] by (simp add: decode_len_def)

text \<open>The decoder's step, and induction over its continuation bytes.\<close>

definition more_len :: "u8 list \<Rightarrow> nat \<Rightarrow> nat \<Rightarrow> bool" where
  "more_len d m p = (p < length d \<and> d ! p AND 0x80 \<noteq> 0 \<and> \<not> m * 128 > 128 * 128 * 128)"

lemma decode_from_step:
  "decode_from d m v p =
     (if more_len d m p then decode_from d (m * 128) (v + unat (d ! p AND 0x7F) * m) (p + 1)
      else if p < length d \<and> d ! p AND 0x80 = 0 then Some (v + unat (d ! p AND 0x7F) * m, p + 1)
      else None)"
  by (subst decode_from.simps) (simp add: Let_def more_len_def)

lemma decode_induct:
  assumes "\<And>d m v p. (more_len d m p \<Longrightarrow>
     P d (m * 128) (v + unat (d ! p AND 0x7F) * m) (p + 1)) \<Longrightarrow> P d m v p"
  shows "P d m v p"
  by (induction d m v p rule: decode_from.induct) (rule assms, simp add: more_len_def)

lemma decode_from_pos: "decode_from d m v p = Some (r, q) \<Longrightarrow> p < q \<and> q \<le> length d"
proof (induction d m v p rule: decode_induct)
  case (1 d m v p)
  then show ?case
    by (cases "more_len d m p") (auto simp: decode_from_step [of d m v p] split: if_splits)
qed

lemma decode_len_pos: "decode_len d p = Some (r, q) \<Longrightarrow> p < q \<and> q \<le> length d"
  unfolding decode_len_def by (rule decode_from_pos)

lemma decode_from_append: "decode_from d m v p = Some x \<Longrightarrow> decode_from (d @ e) m v p = Some x"
proof (induction d m v p rule: decode_induct)
  case (1 d m v p)
  have "p < length d" using 1(2) by (auto simp: decode_from_step [of d m v p] more_len_def split: if_splits)
  then have "(d @ e) ! p = d ! p" "more_len (d @ e) m p = more_len d m p"
    by (simp_all add: nth_append more_len_def)
  then show ?case using 1
    by (cases "more_len d m p")
      (auto simp: decode_from_step [of d m v p] decode_from_step [of "d @ e" m v p] split: if_splits)
qed

section \<open>Packets\<close>

definition byte_len :: "nat \<Rightarrow> u8 list" where
  "byte_len n = [of_nat (n div 256), of_nat n]"

definition connect_pkt :: "u8 list \<Rightarrow> u8 list" where
  "connect_pkt client =
     (let remaining = 8 + 2 + length client
      in [0x10] @ encode_len remaining @ [0x00, 0x04] @ as_bytes ''MQTT'' @
         [0x04, 0x02, 0x00, 0x3C] @ byte_len (length client) @ client)"

definition packet_id :: "u8 list \<Rightarrow> u16" where
  "packet_id bs = foldl (\<lambda>acc b. acc + ucast b) 0 bs"

definition sub_pkt :: "u8 list \<Rightarrow> u8 list \<Rightarrow> u8 list" where
  "sub_pkt pid topic =
     (let remaining = 2 + 2 + length topic + 1; p = packet_id pid
      in [0x82] @ encode_len remaining @ [ucast (drop_bit 8 p), ucast p] @
         byte_len (length topic) @ topic @ [0x00])"

definition unsub_pkt :: "u8 list \<Rightarrow> u8 list \<Rightarrow> u8 list" where
  "unsub_pkt pid topic =
     (let remaining = 2 + 2 + length topic; p = packet_id pid
      in [0xA2] @ encode_len remaining @ [ucast (drop_bit 8 p), ucast p] @
         byte_len (length topic) @ topic)"

section \<open>The topic parser\<close>

definition publish_topic :: "u8 list \<Rightarrow> nat \<Rightarrow> nat \<Rightarrow> string list" where
  "publish_topic data pos remaining_len =
     (if remaining_len \<ge> 2 then
        (let topic_len = unat (data ! pos) * 256 + unat (data ! (pos + 1))
         in if pos + 2 + topic_len \<le> length data then
              (case from_utf8 (take topic_len (drop (pos + 2) data)) of
                 Some t \<Rightarrow> [t] | None \<Rightarrow> [])
            else [])
      else [])"

function parse_topics_from :: "u8 list \<Rightarrow> nat \<Rightarrow> string list" where
  "parse_topics_from data pos =
     (if pos < length data \<and> \<not> pos + 2 > length data then
        (let packet_type = drop_bit 4 (data ! pos) AND 0x0F
         in case decode_len data (pos + 1) of
              None \<Rightarrow> []
            | Some (remaining_len, pos') \<Rightarrow>
                if pos' + remaining_len > length data then []
                else (if packet_type = 3 then publish_topic data pos' remaining_len else []) @
                     parse_topics_from data (pos' + remaining_len))
      else [])"
  by pat_completeness auto
termination
  by (relation "measure (\<lambda>(d, p). length d - p)") (auto dest!: decode_len_pos)

declare parse_topics_from.simps [simp del]

definition parse_topics :: "u8 list \<Rightarrow> string list" where
  "parse_topics data = parse_topics_from data 0"

section \<open>The probe\<close>

definition connack_read :: "stream \<Rightarrow> u8 list outcome \<times> stream" where
  "connack_read s =
     (case read_chunk 512 s of
        (RData bs, s') \<Rightarrow> (Ok bs, s')
      | (RErr, s') \<Rightarrow> (Bail ''read error'', s')
      | (_, s') \<Rightarrow> (Ok [], s'))"

text \<open>\<open>{:02x}\<close>.\<close>

definition hex02 :: "u8 \<Rightarrow> string" where
  "hex02 b = [''0123456789abcdef'' ! (unat b div 16), ''0123456789abcdef'' ! (unat b mod 16)]"

text \<open>
  The collecting loop; \<open>k\<close> is the number of reads that start before the deadline.
\<close>

fun collect :: "nat \<Rightarrow> u8 list \<Rightarrow> string list \<Rightarrow> stream \<Rightarrow> string list" where
  "collect 0 acc subs s = subs"
| "collect (Suc k) acc subs s =
     (case read_chunk 4096 s of
        (RData bs, s') \<Rightarrow> collect k (acc @ bs) (subs @ parse_topics (acc @ bs)) s'
      | _ \<Rightarrow> subs)"

definition mqtt_probe :: "nat \<Rightarrow> net \<Rightarrow> service_data outcome \<times> net" where
  "mqtt_probe k n =
     and_then (net_connect n) (\<lambda>s n.
       (let n = net_send (connect_pkt (as_bytes ''scanerr'')) n
        in case connack_read s of
             (Bail e, _) \<Rightarrow> (Bail e, n)
           | (Panic, _) \<Rightarrow> (Panic, n)
           | (Ok buf, s1) \<Rightarrow>
               if length buf < 4 then (Bail (''MQTT: no CONNACK ('' @ dec (length buf) @ '' bytes)''), n)
               else if buf ! 0 \<noteq> 0x20 then (Bail (''MQTT: not CONNACK (first byte 0x'' @ hex02 (buf ! 0) @ '')''), n)
               else
                 (let n = net_send (sub_pkt (as_bytes ''sys_probe_1'') (as_bytes ''$SYS/#'')) n;
                      (_, s2) = read_chunk 512 s1;
                      n = net_send (sub_pkt (as_bytes ''sys_probe_2'') (as_bytes ''#'')) n;
                      subs = collect k [] [] s2;
                      n = net_send (unsub_pkt (as_bytes ''sys_probe_1'') (as_bytes ''$SYS/#'')) n;
                      n = net_send (unsub_pkt (as_bytes ''sys_probe_2'') (as_bytes ''#'')) n
                  in (Ok (default_service_data\<lparr>sd_mqtt :=
                        Some \<lparr>mqtt_version = Some ''MQTT v3.1.1'', mqtt_return_code = Some (buf ! 3),
                              mqtt_subscriptions = sort_dedup subs\<rparr>\<rparr>), n))))"

section \<open>Re-parsing the buffer\<close>

lemma publish_topic_append:
  "pos + 2 \<le> length d \<Longrightarrow> set (publish_topic d pos r) \<subseteq> set (publish_topic (d @ e) pos r)"
proof -
  assume p: "pos + 2 \<le> length d"
  then have n: "(d @ e) ! pos = d ! pos" "(d @ e) ! (pos + 1) = d ! (pos + 1)"
    by (simp_all add: nth_append)
  have t: "take k (drop (pos + 2) (d @ e)) = take k (drop (pos + 2) d)" if "pos + 2 + k \<le> length d" for k
    using that by simp
  let ?k = "unat (d ! pos) * 256 + unat (d ! (pos + 1))"
  show ?thesis
  proof (cases "2 \<le> r \<and> pos + 2 + ?k \<le> length d")
    case True
    then show ?thesis unfolding publish_topic_def n Let_def using t [of ?k] by simp
  next
    case False
    have "publish_topic d pos r = []"
    proof (cases "2 \<le> r")
      case True
      then have "\<not> pos + 2 + ?k \<le> length d" using False by blast
      then show ?thesis unfolding publish_topic_def Let_def if_P [OF True] by (rule if_not_P)
    next
      case False
      then show ?thesis unfolding publish_topic_def by (rule if_not_P)
    qed
    then show ?thesis by simp
  qed
qed

lemma parse_topics_append:
  "set (parse_topics_from d p) \<subseteq> set (parse_topics_from (d @ e) p)"
proof (induction d p rule: parse_topics_from.induct)
  case (1 d p)
  show ?case
  proof (cases "decode_len d (p + 1)")
    case None
    then show ?thesis by (subst parse_topics_from.simps) (simp add: Let_def)
  next
    case (Some x)
    obtain r q where x: "x = (r, q)" by (cases x)
    show ?thesis
    proof (cases "p < length d \<and> \<not> length d < p + 2 \<and> q + r \<le> length d")
      case True
      have e: "decode_len (d @ e) (p + 1) = Some (r, q)"
        using Some x decode_from_append by (simp add: decode_len_def)
      have sub: "r \<ge> 2 \<Longrightarrow> set (publish_topic d q r) \<subseteq> set (publish_topic (d @ e) q r)"
        using True by (intro publish_topic_append) linarith
      have "set (publish_topic d q r) \<subseteq> set (publish_topic (d @ e) q r)"
        using sub by (cases "r \<ge> 2") (auto simp: publish_topic_def)
      moreover have "set (parse_topics_from d (q + r)) \<subseteq> set (parse_topics_from (d @ e) (q + r))"
        using 1 [of "drop_bit 4 (d ! p) AND 0x0F" "(r, q)" r q] True Some x by simp
      ultimately show ?thesis using True Some x e
        by (auto simp: parse_topics_from.simps [of d p] parse_topics_from.simps [of "d @ e" p]
            Let_def nth_append)
    next
      case False
      then show ?thesis using Some x by (subst parse_topics_from.simps) (auto simp: Let_def)
    qed
  qed
qed

text \<open>The bytes the loop has seen when it stops.\<close>

fun collected :: "nat \<Rightarrow> u8 list \<Rightarrow> stream \<Rightarrow> u8 list" where
  "collected 0 acc s = acc"
| "collected (Suc k) acc s =
     (case read_chunk 4096 s of (RData bs, s') \<Rightarrow> collected k (acc @ bs) s' | _ \<Rightarrow> acc)"

lemma collected_prefix: "\<exists>e. collected k acc s = acc @ e"
proof (induction k arbitrary: acc s)
  case (Suc k)
  obtain r s' where r: "read_chunk 4096 s = (r, s')" by (cases "read_chunk 4096 s")
  show ?case
  proof (cases r)
    case (RData bs)
    then show ?thesis using Suc [of "acc @ bs" s'] r by auto
  qed (use r in simp_all)
qed simp

lemma collect_topics:
  "set subs \<subseteq> set (parse_topics acc) \<Longrightarrow> set (parse_topics acc) \<subseteq> set subs \<Longrightarrow>
   set (collect k acc subs s) = set (parse_topics (collected k acc s))"
proof (induction k arbitrary: acc subs s)
  case (Suc k)
  obtain r s' where r: "read_chunk 4096 s = (r, s')" by (cases "read_chunk 4096 s")
  show ?case
  proof (cases r)
    case (RData bs)
    have "set (parse_topics acc) \<subseteq> set (parse_topics (acc @ bs))"
      unfolding parse_topics_def by (rule parse_topics_append)
    then show ?thesis using Suc.IH [of "subs @ parse_topics (acc @ bs)" "acc @ bs" s'] Suc.prems r RData
      by auto
  qed (use r Suc.prems in auto)
qed auto

lemma parse_topics_Nil [simp]: "parse_topics [] = []"
  by (simp add: parse_topics_def parse_topics_from.simps [of "[]"])

section \<open>Well-formed streams\<close>

text \<open>A PUBLISH packet with QoS 0, as a broker sends it.\<close>

definition publish_pkt :: "u8 list \<times> u8 list \<Rightarrow> u8 list" where
  "publish_pkt tp =
     (let (t, payload) = tp
      in 0x30 # encode_len (2 + length t + length payload) @ byte_len (length t) @ t @ payload)"

definition publish_ok :: "u8 list \<times> u8 list \<Rightarrow> bool" where
  "publish_ok tp =
     (length (fst tp) < 65536 \<and> valid_utf8 (fst tp) \<and>
      2 + length (fst tp) + length (snd tp) < 128 ^ 4)"

lemma byte_len_value:
  "n < 65536 \<Longrightarrow> unat (byte_len n ! 0) * 256 + unat (byte_len n ! 1) = n"
  by (simp add: byte_len_def unat_of_nat)

lemma publish_type: "drop_bit 4 (0x30 :: u8) AND 0x0F = 3"
  by code_simp

lemma encode_len_nonempty [simp]: "encode_len n \<noteq> []"
  by (subst encode_len.simps) (simp add: Let_def)

lemma parse_publish:
  assumes ok: "publish_ok tp" and d: "d = pre @ publish_pkt tp @ rest"
  shows "parse_topics_from d (length pre) =
         as_str (fst tp) # parse_topics_from d (length pre + length (publish_pkt tp))"
proof -
  obtain t pl where tp: "tp = (t, pl)" by (cases tp)
  let ?n = "2 + length t + length pl" and ?L = "length t"
  have lens: "?L < 65536" "?n < 128 ^ 4" and v: "valid_utf8 t"
    using ok by (simp_all add: publish_ok_def tp)
  let ?h = "(pre @ [0x30]) @ encode_len ?n" and ?b = "byte_len ?L @ t @ pl"
  have dd: "d = ?h @ ?b @ rest" by (simp add: d tp publish_pkt_def)
  have b2: "length (byte_len ?L) = 2" by (simp add: byte_len_def)
  have dec: "decode_len d (length pre + 1) = Some (?n, length ?h)"
    using decode_encode [OF lens(2), of "pre @ [0x30]" "?b @ rest"] dd by simp
  have first: "d ! length pre = 0x30" by (simp add: dd nth_append)
  have n0: "d ! length ?h = byte_len ?L ! 0" "d ! (length ?h + 1) = byte_len ?L ! 1"
    unfolding dd nth_append by (simp_all add: byte_len_def)
  have tl: "take ?L (drop (length ?h + 2) d) = t"
    by (simp add: dd b2 flip: append_assoc)
  have len: "length d = length ?h + ?n + length rest" by (simp add: dd b2)
  have pub: "publish_topic d (length ?h) ?n = [as_str t]"
    unfolding publish_topic_def Let_def n0 byte_len_value [OF lens(1)] tl
    using len v by (simp add: from_utf8_Some [THEN iffD2])
  have "length pre < length d \<and> \<not> length d < length pre + 2" using len by simp
  moreover have nlt: "\<not> (length ?h + ?n + length rest < length ?h + ?n)" by simp
  ultimately have "parse_topics_from d (length pre) =
      publish_topic d (length ?h) ?n @ parse_topics_from d (length ?h + ?n)"
    by (subst parse_topics_from.simps)
      (simp only: dec first publish_type len Let_def option.case prod.case if_True if_False le_refl
        simp_thms nlt)
  moreover have "length ?h + ?n = length pre + length (publish_pkt tp)"
    by (simp add: tp publish_pkt_def b2)
  ultimately show ?thesis unfolding pub tp fst_conv by (simp only: append_Cons append_Nil)
qed

lemma parse_publish_all:
  "list_all publish_ok ps \<Longrightarrow>
   parse_topics_from (pre @ concat (map publish_pkt ps)) (length pre) = map (as_str \<circ> fst) ps"
proof (induction ps arbitrary: pre)
  case Nil
  then show ?case by (simp add: parse_topics_from.simps)
next
  case (Cons tp ps)
  have "parse_topics_from (pre @ publish_pkt tp @ concat (map publish_pkt ps)) (length pre) =
      as_str (fst tp) # parse_topics_from (pre @ publish_pkt tp @ concat (map publish_pkt ps))
        (length pre + length (publish_pkt tp))"
    by (rule parse_publish) (use Cons.prems in simp_all)
  then show ?case using Cons.IH [of "pre @ publish_pkt tp"] Cons.prems by simp
qed

definition declared_length :: "u8 list \<Rightarrow> (nat \<times> nat) option" where
  "declared_length pkt = map_option (\<lambda>(r, p). (r, length pkt - p)) (decode_len pkt 1)"

lemma declared_length_pkt:
  "r < 128 ^ 4 \<Longrightarrow> declared_length ([b] @ encode_len r @ body) = Some (r, length body)"
  using decode_encode [of r "[b]" body] by (simp add: declared_length_def)

section \<open>Properties\<close>

text \<open>
  C39. The decoder of the variable-length code reads back every length the encoder writes, anywhere
  in a packet, and stops right after it.
\<close>

theorem remaining_length_roundtrip:
  assumes "n < 128 ^ 4"
  shows "decode_len (pre @ encode_len n @ post) (length pre) =
         Some (n, length pre + length (encode_len n))"
  by (rule decode_encode [OF assms])

theorem remaining_length_roundtrip_witness:
  "decode_len ([7] @ encode_len 321 @ [9]) 1 = Some (321, 1 + length (encode_len 321))"
  using remaining_length_roundtrip [of 321 "[7]" "[9]"] by simp

text \<open>
  The CONNECT packet declares two bytes less than follow, for every client id: the variable
  header has ten bytes and is counted as eight.  SUBSCRIBE and UNSUBSCRIBE declare what follows.
\<close>

theorem packet_lengths:
  assumes "length client < 65536" "length topic < 65536"
  shows "declared_length (connect_pkt client) = Some (10 + length client, 12 + length client) \<and>
         declared_length (sub_pkt pid topic) = Some (5 + length topic, 5 + length topic) \<and>
         declared_length (unsub_pkt pid topic) = Some (4 + length topic, 4 + length topic)"
proof -
  have "length (as_bytes ''MQTT'') = 4" by simp
  then show ?thesis
    unfolding connect_pkt_def sub_pkt_def unsub_pkt_def Let_def
    using assms by (simp add: declared_length_pkt byte_len_def del: append_Cons append_Nil)
qed

theorem packet_lengths_witness:
  "declared_length (connect_pkt (as_bytes ''scanerr'')) = Some (17, 19)"
  using packet_lengths [of "as_bytes ''scanerr''" "[]" "[]"] by simp

text \<open>
  The topic parser returns the topics of every sequence of well-formed PUBLISH packets, in
  order and whatever their payloads.
\<close>

theorem parse_topics_publish:
  assumes "list_all publish_ok ps"
  shows "parse_topics (concat (map publish_pkt ps)) = map (as_str \<circ> fst) ps"
  using parse_publish_all [OF assms, of "[]"] by (simp add: parse_topics_def)

theorem parse_topics_publish_witness:
  "parse_topics (publish_pkt (as_bytes ''a/b'', [1, 2, 3]) @ publish_pkt (as_bytes ''c'', [])) =
   [''a/b'', ''c'']"
proof -
  have "list_all publish_ok [(as_bytes ''a/b'', [1, 2, 3]), (as_bytes ''c'', [])]" by code_simp
  from parse_topics_publish [OF this] show ?thesis by simp
qed

text \<open>
  Whatever the peer sends and however it is cut into reads, the subscriptions a successful
  probe reports are the sorted, distinct topics of all the bytes it collected after the CONNACK and
  the one reply it throws away.
\<close>

theorem mqtt_probe_subscriptions:
  assumes "net_connect n = (Ok s, n1)" "mqtt_probe k n = (Ok d, n2)"
  shows "map_option mqtt_subscriptions (sd_mqtt d) =
         Some (sort_dedup (parse_topics
           (collected k [] (snd (read_chunk 512 (snd (connack_read s)))))))"
proof -
  have "set (collect k [] [] r) = set (parse_topics (collected k [] r))" for r
    by (rule collect_topics) simp_all
  then have c: "sort_dedup (collect k [] [] r) = sort_dedup (parse_topics (collected k [] r))" for r
    by (rule sort_dedup_cong)
  obtain o1 s1 where r: "connack_read s = (o1, s1)" by (cases "connack_read s")
  show ?thesis
  proof (cases o1)
    case (Ok buf)
    then show ?thesis using assms(2) r c
      by (auto simp: mqtt_probe_def assms(1) Let_def case_prod_beta split: if_splits)
  qed (use assms(2) r in \<open>auto simp: mqtt_probe_def assms(1) Let_def\<close>)
qed

definition demo_broker :: net where
  "demo_broker =
     \<lparr>n_conns = [Inr [RData [0x20, 2, 0, 0], RData [0x90, 3, 0, 1, 0],
        RData (publish_pkt (as_bytes ''t/2'', [9]) @ [0x30, 6, 0]), RData ([3] @ as_bytes ''t/1'' @ [0])]],
      n_log = []\<rparr>"

theorem mqtt_probe_subscriptions_witness:
  "map_option mqtt_subscriptions (case mqtt_probe 5 demo_broker of (Ok d, _) \<Rightarrow> sd_mqtt d | _ \<Rightarrow> None) =
   Some [''t/1'', ''t/2'']"
proof -
  obtain s n1 where c: "net_connect demo_broker = (Ok s, n1)"
    and s: "s = (case n_conns demo_broker of Inr s # _ \<Rightarrow> s)"
    by (simp add: net_connect_def demo_broker_def)
  have "\<exists>d. fst (mqtt_probe 5 demo_broker) = Ok d"
  proof -
    have "(case fst (mqtt_probe 5 demo_broker) of Ok d \<Rightarrow> True | _ \<Rightarrow> False)" by code_simp
    then show ?thesis by (auto split: outcome.splits)
  qed
  then obtain d n2 where d: "mqtt_probe 5 demo_broker = (Ok d, n2)" by (metis prod.collapse)
  have "sort_dedup (parse_topics (collected 5 [] (snd (read_chunk 512 (snd (connack_read
      (case n_conns demo_broker of Inr s # _ \<Rightarrow> s))))))) = [''t/1'', ''t/2'']"
    by code_simp
  then show ?thesis using mqtt_probe_subscriptions [OF c d] d s by simp
qed

end
