(* ===== verification/Http.thy ===== *)
theory Http
  imports Net "HOL-Library.Monad_Syntax"
begin

text \<open>
  The HTTP probe, \<open>crates/scanerr-protocol/src/http/mod.rs\<close> and \<open>http/parse.rs\<close>, and the name
  lookup of \<open>rndns.rs\<close>.  The HTTP client is the parameter \<open>get\<close> of the environment record below,
  with the URL join, the three compiled regular expressions, SHA-256, the lower-case table, the
  resolver and the text decoding of a response, none of which is the program's own code.  The
  lemmas: the title of an ASCII page is found, the title search can slice out of range on other
  pages, and the name lookup cannot find a name.
\<close>

record response =
  r_status :: u16
  r_url :: string
  r_headers :: "(string \<times> string option) list"
  r_body :: "u8 list option"
  r_text :: "string option"

record http_env =
  e_get :: "string \<Rightarrow> response option"
  e_join :: "string \<Rightarrow> string \<Rightarrow> string option"
  e_re_concat :: "string \<Rightarrow> string option"
  e_re_meta :: "string \<Rightarrow> string option"
  e_re_simple :: "string \<Rightarrow> string option"
  e_lc :: "string \<Rightarrow> string"
  e_sha :: "u8 list \<Rightarrow> u8 list"
  e_rdns :: "string \<Rightarrow> string option"

section \<open>Parsing\<close>

definition str_slice :: "string \<Rightarrow> nat \<Rightarrow> nat \<Rightarrow> string outcome" where
  "str_slice s i j =
     (if i \<le> j \<and> j \<le> length s \<and> char_boundary s i \<and> char_boundary s j
      then Ok (take (j - i) (drop i s)) else Panic)"

definition extract_title :: "(string \<Rightarrow> string) \<Rightarrow> string \<Rightarrow> string option outcome" where
  "extract_title lc html =
     (let lower = to_lowercase lc html
      in case find_sub lower ''<title>'' of
           None \<Rightarrow> Ok None
         | Some start \<Rightarrow>
             (let tag_start = start + 7
              in case find_sub (drop tag_start lower) ''</title>'' of
                   None \<Rightarrow> Ok None
                 | Some e \<Rightarrow>
                     bind_outcome (str_slice html tag_start (tag_start + e)) (\<lambda>t.
                       (let title = trim t in Ok (if title = [] then None else Some title)))))"

text \<open>The first eight bytes of the digest as a signed 64-bit number.\<close>

definition hash_bytes :: "(u8 list \<Rightarrow> u8 list) \<Rightarrow> u8 list \<Rightarrow> int" where
  "hash_bytes sha bs =
     sint (of_nat (foldl (\<lambda>a b. a * 256 + unat b) 0 (take 8 (sha bs))) :: 64 word)"

definition header_str :: "(string \<times> json) list \<Rightarrow> string \<Rightarrow> string option" where
  "header_str headers key =
     (case map_of headers key of
        Some (JStr s) \<Rightarrow> Some s
      | Some (JArr (v # _)) \<Rightarrow> json_as_str v
      | _ \<Rightarrow> None)"

definition headers_from_response :: "(string \<times> string option) list \<Rightarrow> (string \<times> json) list" where
  "headers_from_response hs =
     map (\<lambda>k. (k, let vs = map (\<lambda>(_, v). case v of Some s \<Rightarrow> s | None \<Rightarrow> []) (filter (\<lambda>(k', _). k' = k) hs)
                  in if length vs = 1 then JStr (hd vs) else JArr (map JStr vs)))
       (btree_set (map fst hs))"

section \<open>Helpers of the probe\<close>

definition contains_key :: "(string \<times> json) list \<Rightarrow> string \<Rightarrow> bool" where
  "contains_key headers k = (map_of headers k \<noteq> None)"

definition detect_waf :: "(string \<Rightarrow> string) \<Rightarrow> (string \<times> json) list \<Rightarrow> string option" where
  "detect_waf lc headers =
     (let s = (case header_str headers ''server'' of Some v \<Rightarrow> to_lowercase lc v | None \<Rightarrow> [])
      in if contains_sub s ''cloudflare'' then Some ''Cloudflare''
         else if contains_sub s ''akamaighost'' \<or> contains_sub s ''akamai'' then Some ''Akamai''
         else if contains_sub s ''yunjiasu'' then Some ''Baidu Yunjiasu''
         else if contains_key headers ''x-sucuri-id'' then Some ''Sucuri''
         else if contains_key headers ''x-cdn'' \<and> header_str headers ''x-cdk'' = Some ''Incapsula''
         then Some ''Incapsula''
         else if contains_key headers ''x-protected-by'' then Some ''Barracuda''
         else (case header_str headers ''via'' of
                 Some v \<Rightarrow> if contains_sub v ''Varnish'' then Some ''Varnish'' else None
               | None \<Rightarrow> None))"

definition headers_str :: "(json \<Rightarrow> string) \<Rightarrow> (string \<times> json) list \<Rightarrow> string" where
  "headers_str show_json headers =
     join [CHR 0x0D, CHR 0x0A] (sort (map (\<lambda>(k, v). k @ '': '' @
       (case v of JStr s \<Rightarrow> s
        | JArr vs \<Rightarrow> join '', '' (List.map_filter json_as_str vs)
        | _ \<Rightarrow> show_json v)) headers))"

definition js_redirect :: "http_env \<Rightarrow> string \<Rightarrow> string option" where
  "js_redirect e body =
     (case e_re_concat e body of
        Some u \<Rightarrow> Some u
      | None \<Rightarrow>
          (case e_re_meta e body of
             Some u \<Rightarrow> Some u
           | None \<Rightarrow>
               (case e_re_simple e body of
                  Some url \<Rightarrow>
                    if contains_sub url ''relogin'' \<or> contains_sub url ''login'' \<or> prefix ''/doc/'' url
                    then Some url else None
                | None \<Rightarrow> None)))"

definition https_reject :: "(string \<Rightarrow> string) \<Rightarrow> u16 \<Rightarrow> string \<Rightarrow> bool" where
  "https_reject lc status body =
     (if status = 400 \<or> status = 495 \<or> status = 496 then
        (let lower = to_lowercase lc body
         in contains_sub lower ''https'' \<or> contains_sub lower ''ssl'' \<or> contains_sub lower ''tls'')
      else False)"

definition hget :: "response \<Rightarrow> string \<Rightarrow> string option" where
  "hget r k = (case map_of (r_headers r) k of Some (Some v) \<Rightarrow> Some v | _ \<Rightarrow> None)"

definition is_redirect :: "u16 \<Rightarrow> bool" where
  "is_redirect s = (301 \<le> s \<and> s \<le> 308)"

definition is_success :: "u16 \<Rightarrow> bool" where
  "is_success s = (200 \<le> s \<and> s < 300)"

fun follow :: "http_env \<Rightarrow> nat \<Rightarrow> response \<Rightarrow> response" where
  "follow e 0 r = r"
| "follow e (Suc k) r =
     (if is_redirect (r_status r) then
        (case hget r ''location'' of
           None \<Rightarrow> r
         | Some loc \<Rightarrow>
             (let next_url = (if prefix ''http'' loc then loc
                              else (case e_join e (r_url r) loc of Some u \<Rightarrow> u | None \<Rightarrow> []))
              in if next_url = [] then r
                 else (case e_get e next_url of Some r' \<Rightarrow> follow e k r' | None \<Rightarrow> r)))
      else r)"

definition body_string :: "u8 list option \<Rightarrow> string" where
  "body_string b =
     filter (\<lambda>c. c \<noteq> CHR 0x00) (from_utf8_lossy (case b of Some bs \<Rightarrow> bs | None \<Rightarrow> []))"

definition js_urls :: "string \<Rightarrow> string \<Rightarrow> u16 \<Rightarrow> string \<Rightarrow> string list" where
  "js_urls scheme ip port js_url =
     (let at = (\<lambda>s p sep. s @ ''://'' @ ip @ '':'' @ dec (unat p) @ sep @ js_url);
          https_port = (if port = 80 then 443 else port)
      in if prefix ''http'' js_url then [js_url]
         else if prefix ''//'' js_url then [scheme @ '':'' @ js_url]
         else (let sep = (if prefix ''/'' js_url then [] else ''/'');
                   http_url = at ''http'' port sep; https_url = at ''https'' https_port sep
               in if scheme = ''http'' then [http_url, https_url] else [https_url]))"

fun first_body :: "http_env \<Rightarrow> string list \<Rightarrow> string \<Rightarrow> string" where
  "first_body e [] body = body"
| "first_body e (u # us) body =
     (case e_get e u of
        None \<Rightarrow> first_body e us body
      | Some r \<Rightarrow>
          if r_status r = 200 \<and> r_body r \<noteq> None \<and> body_string (r_body r) \<noteq> []
          then body_string (r_body r) else first_body e us body)"

definition http_fetch :: "http_env \<Rightarrow> string \<Rightarrow> string \<Rightarrow> string option" where
  "http_fetch e base path =
     do { r \<leftarrow> e_get e (base @ path);
          if \<not> is_success (r_status r) then None
          else do { v \<leftarrow> hget r ''content-type'';
                    let ct = to_lowercase (e_lc e) v;
                    if contains_sub ct ''text/html'' \<or> contains_sub ct ''application/json'' \<or>
                       contains_sub ct ''image/'' then None
                    else do { text \<leftarrow> r_text r;
                              if text = [] \<or> length text > 65536 then None else Some text } } }"

definition http_favicon :: "http_env \<Rightarrow> string \<Rightarrow> int option" where
  "http_favicon e base =
     do { r \<leftarrow> e_get e (base @ ''/favicon.ico'');
          if \<not> is_success (r_status r) then None
          else do { bs \<leftarrow> r_body r;
                    if bs = [] then None else Some (hash_bytes (e_sha e) bs) } }"

section \<open>The probe\<close>

definition http_probe ::
  "http_env \<Rightarrow> (json \<Rightarrow> string) \<Rightarrow> string \<Rightarrow> string \<Rightarrow> u16 \<Rightarrow> service_data outcome" where
  "http_probe e show_json scheme ip port =
     (let base_url = scheme @ ''://'' @ ip @ '':'' @ dec (unat port)
      in case e_get e base_url of
           None \<Rightarrow> Bail ''request failed''
         | Some resp \<Rightarrow>
             (let r = follow e 3 resp;
                  headers = headers_from_response (r_headers r);
                  text = body_string (r_body r);
                  body_text = (case js_redirect e text of
                                 Some u \<Rightarrow> first_body e (js_urls scheme ip port u) text
                               | None \<Rightarrow> text)
              in if https_reject (e_lc e) (r_status r) body_text then Bail ''server requires HTTPS''
                 else bind_outcome (extract_title (e_lc e) body_text) (\<lambda>title.
                   Ok (default_service_data
                     \<lparr>sd_kind := scheme,
                      sd_http := Some
                        \<lparr>h_status = r_status r, h_title = title, h_body = Some body_text,
                         h_headers = headers, h_favicon_hash = http_favicon e base_url,
                         h_server = header_str headers ''server'', h_host = hget r ''host'',
                         h_rdns = e_rdns e ip,
                         h_html_hash = Some (hash_bytes (e_sha e) (case r_body r of Some bs \<Rightarrow> bs | None \<Rightarrow> [])),
                         h_headers_hash = Some (hash_bytes (e_sha e) (as_bytes (headers_str show_json headers))),
                         h_robots = http_fetch e base_url ''/robots.txt'',
                         h_securitytxt = http_fetch e base_url ''/.well-known/security.txt'',
                         h_tags = [], h_waf = detect_waf (e_lc e) headers, h_redirects = []\<rparr>\<rparr>))))"

text \<open>
  \<open>rndns::resolve\<close> (and the private \<open>rdns\<close> of the HTTP probe): parsing and printing of addresses
  and the system resolver are parameters.
\<close>

definition rndns_resolve ::
  "(string \<Rightarrow> 'ip option) \<Rightarrow> ('ip \<Rightarrow> string) \<Rightarrow> (string \<Rightarrow> 'ip list option) \<Rightarrow> string \<Rightarrow> string option outcome"
where
  "rndns_resolve parse_ip show_ip lookup_host ip =
     (case parse_ip ip of
        None \<Rightarrow> Bail ''invalid IP address syntax''
      | Some addr \<Rightarrow>
          (case lookup_host (show_ip addr @ '':0'') of
             None \<Rightarrow> Bail ''lookup failed''
           | Some [] \<Rightarrow> Bail ''no rDNS result''
           | Some (a # _) \<Rightarrow>
               (let hostname = show_ip a in Ok (if hostname \<noteq> ip then Some hostname else None))))"

section \<open>Properties\<close>

lemma ascii_lower_lt [simp]: "ascii_lower c = CHR ''<'' \<longleftrightarrow> c = CHR ''<''"
proof -
  have "byte (CHR ''<'') = 60" by code_simp
  then show ?thesis
    using byte_ascii_lower [of c] byte_eq_iff [of "ascii_lower c" "CHR ''<''"]
    by (auto simp: is_upper_def ascii_lower_def)
qed

lemma find_sub_lowered:
  assumes "CHR ''<'' \<notin> set u"
  shows "find_sub (map ascii_lower u @ (CHR ''<'' # t) @ r) (CHR ''<'' # t) = Some (length u)"
proof -
  have "CHR ''<'' \<notin> ascii_lower ` set u" using assms by (metis ascii_lower_lt imageE)
  then show ?thesis using find_sub_after [of "CHR ''<'' # t" "map ascii_lower u" r] by simp
qed

lemma ascii_boundary: "list_all is_ascii s \<Longrightarrow> k \<le> length s \<Longrightarrow> char_boundary s k"
  using char_boundary_ascii [of k s] by (cases "k = length s") (auto simp: char_boundary_def list_all_length)

text \<open>
  The title of an ASCII page is the trimmed text between the first title tags, in whatever case
  they are written.
\<close>

theorem extract_title_ascii:
  assumes "list_all is_ascii (pre @ t1 @ title @ t2 @ post)"
    "map ascii_lower t1 = ''<title>''" "map ascii_lower t2 = ''</title>''"
    "CHR ''<'' \<notin> set pre" "CHR ''<'' \<notin> set title"
  shows "extract_title lc (pre @ t1 @ title @ t2 @ post) =
         Ok (if trim title = [] then None else Some (trim title))"
proof -
  let ?html = "pre @ t1 @ title @ t2 @ post"
  have len: "length t1 = 7" "length t2 = 8"
    using arg_cong [OF assms(2), of length] arg_cong [OF assms(3), of length] by simp_all
  have low: "to_lowercase lc ?html = map ascii_lower pre @ ''<title>'' @ map ascii_lower title @ ''</title>'' @ map ascii_lower post"
    using assms(1-3) by (simp add: to_lowercase_def)
  have f1: "find_sub (to_lowercase lc ?html) ''<title>'' = Some (length pre)"
    unfolding low using find_sub_lowered [OF assms(4)] .
  have d: "drop (length pre + 7) (to_lowercase lc ?html) = map ascii_lower title @ ''</title>'' @ map ascii_lower post"
    unfolding low by simp
  have f2: "find_sub (drop (length pre + 7) (to_lowercase lc ?html)) ''</title>'' = Some (length title)"
    unfolding d using find_sub_lowered [OF assms(5)] .
  have "str_slice ?html (length pre + 7) (length pre + 7 + length title) = Ok title"
    using ascii_boundary [OF assms(1)] len by (simp add: str_slice_def)
  then show ?thesis by (simp add: extract_title_def Let_def f1 f2)
qed

theorem extract_title_ascii_witness:
  "extract_title id (''a'' @ ''<TITLE>'' @ '' Router login'' @ ''</Title>'' @ ''b'') = Ok (Some ''Router login'')"
proof -
  have c: "list_all is_ascii (''a'' @ ''<TITLE>'' @ '' Router login'' @ ''</Title>'' @ ''b'')"
    "map ascii_lower ''<TITLE>'' = ''<title>''" "map ascii_lower ''</Title>'' = ''</title>''"
    "trim '' Router login'' = ''Router login''" by code_simp+
  show ?thesis using extract_title_ascii [OF c(1-3), of id] c(4) by simp
qed

text \<open>
  A page whose lower-case form is longer than the page makes the title search slice out of
  range: nine capital I with a dot, which take two bytes and three in lower case, before a
  one-letter title are enough to panic the probe.
\<close>

definition dotted_I :: "nat \<Rightarrow> string" where
  "dotted_I n = concat (replicate n [CHR 0xC4, CHR 0xB0])"

definition dotted_i :: "nat \<Rightarrow> string" where
  "dotted_i n = concat (replicate n [CHR 0x69, CHR 0xCC, CHR 0x87])"

theorem extract_title_panics:
  assumes "8 < n" "lc (dotted_I n @ ''<title>x</title>'') = dotted_i n @ ''<title>x</title>''"
  shows "extract_title lc (dotted_I n @ ''<title>x</title>'') = Panic"
proof -
  let ?html = "dotted_I n @ ''<title>x</title>''"
  have na: "\<not> is_ascii (CHR 0xC4)" by code_simp
  have "CHR 0xC4 \<in> set ?html" using assms(1) by (auto simp: dotted_I_def)
  then have low: "to_lowercase lc ?html = dotted_i n @ ''<title>'' @ ''x</title>''"
    using assms(2) na by (auto simp: to_lowercase_def list_all_iff)
  have "CHR ''<'' \<notin> set (dotted_i n)" by (auto simp: dotted_i_def)
  then have f1: "find_sub (to_lowercase lc ?html) ''<title>'' = Some (length (dotted_i n))"
    unfolding low by (intro find_sub_after) simp_all
  have len: "length (dotted_i n) = 3 * n" "length (dotted_I n) = 2 * n"
    by (simp_all add: dotted_i_def dotted_I_def length_concat sum_list_replicate)
  have f2: "find_sub (drop (length (dotted_i n) + 7) (to_lowercase lc ?html)) ''</title>'' = Some 1"
    unfolding low by simp
  have "str_slice ?html (length (dotted_i n) + 7) (length (dotted_i n) + 7 + 1) = Panic"
    using assms(1) len by (simp add: str_slice_def)
  then show ?thesis by (simp add: extract_title_def Let_def f1 f2)
qed

theorem extract_title_panics_witness:
  "extract_title (\<lambda>s. if s = dotted_I 9 @ ''<title>x</title>'' then dotted_i 9 @ ''<title>x</title>'' else s)
     (dotted_I 9 @ ''<title>x</title>'') = Panic"
  by (rule extract_title_panics) simp_all

text \<open>
  Incapsula is never reported for its own header: the test looks for a header \<open>x-cdk\<close> beside
  \<open>x-cdn\<close>.
\<close>

theorem incapsula_needs_misspelt_header:
  assumes "\<not> contains_key headers ''x-cdk''"
  shows "detect_waf lc headers \<noteq> Some ''Incapsula''"
proof -
  have "header_str headers ''x-cdk'' = None"
    using assms by (simp add: contains_key_def header_str_def)
  then show ?thesis by (simp add: detect_waf_def Let_def split: option.splits)
qed

theorem incapsula_needs_misspelt_header_witness:
  "detect_waf id [(''x-cdn'', JStr ''Incapsula'')] \<noteq> Some ''Incapsula''"
  by (rule incapsula_needs_misspelt_header) (simp add: contains_key_def)

text \<open>
  The reverse lookup finds no name: a resolver that answers a numeric address with that address
  makes it return nothing for every address in canonical form.
\<close>

theorem rndns_finds_nothing:
  assumes "parse_ip ip = Some a" "show_ip a = ip" "lookup_host (ip @ '':0'') = Some (a # as)"
  shows "rndns_resolve parse_ip show_ip lookup_host ip = Ok None"
  using assms by (simp add: rndns_resolve_def)

theorem rndns_finds_nothing_witness:
  "rndns_resolve (\<lambda>s. if s = ''10.0.0.1'' then Some [10, 0, 0, 1] else None)
     (\<lambda>a :: nat list. join ''.'' (map dec a))
     (\<lambda>s. if s = ''10.0.0.1:0'' then Some [[10, 0, 0, 1]] else None) ''10.0.0.1'' = Ok None"
proof -
  have "join ''.'' (map dec [10, 0, 0, 1]) = ''10.0.0.1''" by code_simp
  then show ?thesis by (intro rndns_finds_nothing) simp_all
qed

end
