(* ===== verification/Select.thy ===== *)
theory Select
  imports Main
begin

text \<open>
  The loop \<open>let mut best = None; for x in xs { if eligible { if best is None or x beats best
  { best = Some(x) } } }\<close>, which the banner dispatcher and the fingerprint resolver share, and the
  contract of a comparison \<open>beats\<close> under which it finds the first of the best elements.
\<close>

definition first_best :: "('a \<Rightarrow> bool) \<Rightarrow> ('a \<Rightarrow> 'a \<Rightarrow> bool) \<Rightarrow> 'a option \<Rightarrow> 'a \<Rightarrow> 'a option" where
  "first_best eligible beats best x =
     (if eligible x then
        (case best of None \<Rightarrow> Some x | Some b \<Rightarrow> if beats x b then Some x else best)
      else best)"

definition select_best :: "('a \<Rightarrow> bool) \<Rightarrow> ('a \<Rightarrow> 'a \<Rightarrow> bool) \<Rightarrow> 'a list \<Rightarrow> 'a option" where
  "select_best eligible beats xs = foldl (first_best eligible beats) None xs"

text \<open>Position of the winner: better than all before it, not beaten by any after it.\<close>

definition is_first_best :: "('a \<Rightarrow> bool) \<Rightarrow> ('a \<Rightarrow> 'a \<Rightarrow> bool) \<Rightarrow> 'a list \<Rightarrow> 'a \<Rightarrow> bool" where
  "is_first_best eligible beats xs x \<longleftrightarrow>
     (\<exists>us vs. xs = us @ x # vs \<and> eligible x \<and>
        (\<forall>u\<in>set us. eligible u \<longrightarrow> beats x u) \<and> (\<forall>v\<in>set vs. eligible v \<longrightarrow> \<not> beats v x))"

lemma select_best_snoc:
  "select_best eligible beats (xs @ [x]) = first_best eligible beats (select_best eligible beats xs) x"
  by (simp add: select_best_def)

lemma is_first_best_mem: "is_first_best eligible beats xs x \<Longrightarrow> x \<in> set xs \<and> eligible x"
  by (auto simp: is_first_best_def)

locale strict_ranking =
  fixes beats :: "'a \<Rightarrow> 'a \<Rightarrow> bool"
  assumes asym: "beats x y \<Longrightarrow> \<not> beats y x"
    and negatively_transitive: "\<not> beats x y \<Longrightarrow> \<not> beats y z \<Longrightarrow> \<not> beats x z"
begin

lemma irrefl [simp]: "\<not> beats x x"
  using asym by blast

lemma beats_trans: "beats x y \<Longrightarrow> beats y z \<Longrightarrow> beats x z"
  using asym negatively_transitive by blast

lemma not_beaten_trans: "beats x y \<Longrightarrow> \<not> beats z y \<Longrightarrow> beats x z"
  using negatively_transitive by blast

lemma select_best_None: "select_best eligible beats xs = None \<longleftrightarrow> list_all (\<lambda>x. \<not> eligible x) xs"
  by (induction xs rule: rev_induct)
     (auto simp: select_best_snoc first_best_def select_best_def split: option.splits if_splits)

lemma select_best_Some:
  "select_best eligible beats xs = Some x \<Longrightarrow> is_first_best eligible beats xs x"
proof (induction xs arbitrary: x rule: rev_induct)
  case Nil
  then show ?case by (simp add: select_best_def)
next
  case (snoc y ys)
  let ?b = "select_best eligible beats ys"
  show ?case
  proof (cases "eligible y \<and> (\<forall>b. ?b = Some b \<longrightarrow> beats y b)")
    case True
    with snoc.prems have x: "x = y"
      by (auto simp: select_best_snoc first_best_def split: option.splits)
    have "beats y u" if u: "u \<in> set ys" "eligible u" for u
    proof (cases ?b)
      case None
      then have False using u by (simp add: select_best_None list_all_iff)
      then show ?thesis ..
    next
      case (Some b)
      with True have "beats y b" by simp
      moreover have "\<not> beats u b"
        using snoc.IH [OF Some] u asym by (auto simp: is_first_best_def)
      ultimately show ?thesis by (rule not_beaten_trans)
    qed
    then show ?thesis
      unfolding is_first_best_def x using True by (intro exI [of _ ys] exI [of _ "[]"]) simp
  next
    case False
    with snoc.prems have s: "?b = Some x" "eligible y \<longrightarrow> \<not> beats y x"
      by (auto simp: select_best_snoc first_best_def split: if_splits option.splits)
    from snoc.IH [OF s(1)] obtain us vs where
      "ys = us @ x # vs" "eligible x" "\<forall>u\<in>set us. eligible u \<longrightarrow> beats x u"
      "\<forall>v\<in>set vs. eligible v \<longrightarrow> \<not> beats v x"
      by (auto simp: is_first_best_def)
    then show ?thesis
      unfolding is_first_best_def using s(2)
      by (intro exI [of _ us] exI [of _ "vs @ [y]"]) auto
  qed
qed

text \<open>The winner is unique, so the characterisation is exact.\<close>

lemma is_first_best_select:
  assumes "is_first_best eligible beats xs x"
  shows "select_best eligible beats xs = Some x"
proof -
  from assms obtain us vs where x: "xs = us @ x # vs" "eligible x"
      "\<And>u. u \<in> set us \<Longrightarrow> eligible u \<Longrightarrow> beats x u" "\<forall>v\<in>set vs. eligible v \<longrightarrow> \<not> beats v x"
    by (auto simp: is_first_best_def)
  have "foldl (first_best eligible beats) None us \<noteq> Some u \<or> (u \<in> set us \<and> eligible u)" for u
    using is_first_best_mem [OF select_best_Some [of eligible us u]]
    by (auto simp: select_best_def)
  then have "foldl (first_best eligible beats) None (us @ [x]) = Some x"
    using x(2,3) by (auto simp: first_best_def split: option.splits)
  moreover have "foldl (first_best eligible beats) (Some x) vs = Some x"
    using x(4) by (induction vs) (auto simp: first_best_def)
  ultimately show ?thesis by (simp add: select_best_def x(1))
qed

lemma select_best_iff:
  "select_best eligible beats xs = Some x \<longleftrightarrow> is_first_best eligible beats xs x"
  using select_best_Some is_first_best_select by blast

end

end
