(* ===== verification/Dispatch.thy ===== *)
theory Dispatch
  imports TextProbes BinaryProbes Ssh Mqtt Http Select
begin

text \<open>
  The probe registry and the banner-first dispatcher, \<open>crates/scanerr-protocol/src/engine.rs\<close>.  The
  environment gathers what the probes take from outside the program: the HTTP client and SHA-256
  (\<open>http_env\<close>), the base64 encoders, the JSON printer, the TLS handshake with the certificate data it
  yields, and the number of reads the MQTT probe gets in before its deadline.  The registry's
  selection loop is \<open>select_best\<close>, whose contract is interpreted here on the probe priorities.
\<close>

datatype probe_kind =
    SshProbe | FtpProbe | SmtpProbe | ImapProbe | Pop3Probe | TelnetProbe | MysqlProbe | PptpProbe
  | MqttProbe | SccpProbe | MikrotikProbe | RtspProbe | BgpProbe

record probe_env =
  pe_http :: http_env
  pe_show :: "json \<Rightarrow> string"
  pe_b64 :: "u8 list \<Rightarrow> string"
  pe_b64url :: "u8 list \<Rightarrow> string"
  pe_tls :: "string \<Rightarrow> u16 \<Rightarrow> ssl_data option"
  pe_mqtt_reads :: nat

section \<open>The probe trait, by kind\<close>

fun protocol_of :: "probe_kind \<Rightarrow> protocol" where
  "protocol_of SshProbe = Ssh"
| "protocol_of FtpProbe = Ftp"
| "protocol_of SmtpProbe = Smtp"
| "protocol_of ImapProbe = Imap"
| "protocol_of Pop3Probe = Pop3"
| "protocol_of TelnetProbe = Telnet"
| "protocol_of MysqlProbe = Mysql"
| "protocol_of PptpProbe = Pptp"
| "protocol_of MqttProbe = Mqtt"
| "protocol_of SccpProbe = Sccp"
| "protocol_of MikrotikProbe = Mikrotik"
| "protocol_of RtspProbe = Rtsp"
| "protocol_of BgpProbe = Bgp"

definition requires_probe_without_banner :: "probe_kind \<Rightarrow> bool" where
  "requires_probe_without_banner p =
     (p = SshProbe \<or> p = PptpProbe \<or> p = MqttProbe \<or> p = SccpProbe \<or> p = RtspProbe \<or> p = BgpProbe)"

fun detects_banner :: "probe_kind \<Rightarrow> u8 list \<Rightarrow> bool" where
  "detects_banner SshProbe b = ssh_detects b"
| "detects_banner FtpProbe b = ftp_detects b"
| "detects_banner SmtpProbe b = smtp_detects b"
| "detects_banner ImapProbe b = imap_detects b"
| "detects_banner Pop3Probe b = pop3_detects b"
| "detects_banner TelnetProbe b = telnet_detects b"
| "detects_banner MysqlProbe b = mysql_detects b"
| "detects_banner MikrotikProbe b = mikrotik_detects b"
| "detects_banner BgpProbe b = bgp_detects b"
| "detects_banner _ b = False"

fun raw_probe ::
  "probe_env \<Rightarrow> string \<Rightarrow> u16 \<Rightarrow> u8 list \<Rightarrow> probe_kind \<Rightarrow> net \<Rightarrow> service_data outcome \<times> net"
where
  "raw_probe e ip port b SshProbe n = ssh_probe (pe_b64 e) (pe_b64url e) (e_sha (pe_http e)) b n"
| "raw_probe e ip port b FtpProbe n = ftp_probe b n"
| "raw_probe e ip port b SmtpProbe n = smtp_probe b n"
| "raw_probe e ip port b ImapProbe n = imap_probe b n"
| "raw_probe e ip port b Pop3Probe n = pop3_probe b n"
| "raw_probe e ip port b TelnetProbe n = telnet_probe n"
| "raw_probe e ip port b MysqlProbe n = mysql_probe (e_lc (pe_http e)) b n"
| "raw_probe e ip port b PptpProbe n = pptp_probe n"
| "raw_probe e ip port b MqttProbe n = mqtt_probe (pe_mqtt_reads e) n"
| "raw_probe e ip port b SccpProbe n = sccp_probe n"
| "raw_probe e ip port b MikrotikProbe n = mikrotik_probe n"
| "raw_probe e ip port b RtspProbe n = rtsp_probe ip port n"
| "raw_probe e ip port b BgpProbe n = bgp_probe n"

text \<open>\<open>ProbeKind::probe\<close>: the variant's probe, with the kind set to the protocol's name.\<close>

definition kind_probe ::
  "probe_env \<Rightarrow> string \<Rightarrow> u16 \<Rightarrow> u8 list \<Rightarrow> probe_kind \<Rightarrow> net \<Rightarrow> service_data outcome \<times> net"
where
  "kind_probe e ip port b p n =
     and_then (raw_probe e ip port b p n) (\<lambda>d n.
       (Ok (d\<lparr>sd_kind := as_str_protocol (protocol_of p)\<rparr>), n))"

text \<open>\<open>ProbeRegistry::new\<close>: the variants in declaration order.\<close>

definition registry :: "probe_kind list" where
  "registry =
     [SshProbe, FtpProbe, SmtpProbe, ImapProbe, Pop3Probe, TelnetProbe, MysqlProbe, PptpProbe,
      MqttProbe, SccpProbe, MikrotikProbe, RtspProbe, BgpProbe]"

definition probe_priority :: "protocol \<Rightarrow> u32" where
  "probe_priority p =
     (case p of
        Ssh \<Rightarrow> 100 | Ftp \<Rightarrow> 90 | Smtp \<Rightarrow> 90 | Imap \<Rightarrow> 80 | Pop3 \<Rightarrow> 80 | Telnet \<Rightarrow> 80 | Mysql \<Rightarrow> 80
      | Pptp \<Rightarrow> 60 | Mqtt \<Rightarrow> 60 | Sccp \<Rightarrow> 60 | Mikrotik \<Rightarrow> 70 | Rtsp \<Rightarrow> 70 | Bgp \<Rightarrow> 50 | _ \<Rightarrow> 0)"

section \<open>Dispatch\<close>

text \<open>\<open>read_banner\<close>: a read timeout is an empty banner, connection and read errors are errors.\<close>

definition read_banner :: "net \<Rightarrow> u8 list outcome \<times> net" where
  "read_banner n =
     and_then (net_connect n) (\<lambda>s n.
       (case fst (read_chunk 4096 s) of
          RData bs \<Rightarrow> Ok bs | REof \<Rightarrow> Ok [] | RTimeout \<Rightarrow> Ok [] | RErr \<Rightarrow> Bail ''read failed'', n))"

definition is_https_port :: "u16 \<Rightarrow> bool" where
  "is_https_port port = (port = 443 \<or> port = 8443)"

definition eligible :: "u8 list \<Rightarrow> probe_kind \<Rightarrow> bool" where
  "eligible b p = (\<not> requires_probe_without_banner p \<and> detects_banner p b)"

definition higher_priority :: "probe_kind \<Rightarrow> probe_kind \<Rightarrow> bool" where
  "higher_priority p q = (probe_priority (protocol_of p) > probe_priority (protocol_of q))"

text \<open>The selection loop over the registry.\<close>

definition best_probe :: "u8 list \<Rightarrow> probe_kind option" where
  "best_probe b = select_best (eligible b) higher_priority registry"

definition try_http_fallback :: "probe_env \<Rightarrow> string \<Rightarrow> u16 \<Rightarrow> service_data outcome" where
  "try_http_fallback e ip port =
     (let (first, second) = (if is_https_port port then (''https'', ''http'') else (''http'', ''https''))
      in case http_probe (pe_http e) (pe_show e) first ip port of
           Ok d \<Rightarrow> Ok d
         | Panic \<Rightarrow> Panic
         | Bail _ \<Rightarrow>
             (case http_probe (pe_http e) (pe_show e) second ip port of
                Ok d \<Rightarrow> Ok d
              | Panic \<Rightarrow> Panic
              | Bail _ \<Rightarrow>
                  (case pe_tls e ip port of
                     Some ssl \<Rightarrow>
                       Ok (if ssl_subject_cn ssl \<noteq> None \<or> ssl_issuer_cn ssl \<noteq> None
                           then default_service_data\<lparr>sd_kind := ''tls'', sd_ssl := Some ssl\<rparr>
                           else default_service_data\<lparr>sd_kind := ''tls''\<rparr>)
                   | None \<Rightarrow> Ok default_service_data)))"

text \<open>The probes that need no banner, in order, until one succeeds.\<close>

fun blind_probes ::
  "probe_env \<Rightarrow> string \<Rightarrow> u16 \<Rightarrow> u8 list \<Rightarrow> probe_kind list \<Rightarrow> net \<Rightarrow> service_data outcome \<times> net"
where
  "blind_probes e ip port b [] n = (Ok default_service_data, n)"
| "blind_probes e ip port b (p # ps) n =
     (if requires_probe_without_banner p then
        (case kind_probe e ip port b p n of
           (Ok d, n) \<Rightarrow> (Ok d, n)
         | (Bail _, n) \<Rightarrow> blind_probes e ip port b ps n
         | (Panic, n) \<Rightarrow> (Panic, n))
      else blind_probes e ip port b ps n)"

definition after_banner ::
  "probe_env \<Rightarrow> string \<Rightarrow> u16 \<Rightarrow> u8 list \<Rightarrow> net \<Rightarrow> service_data outcome \<times> net" where
  "after_banner e ip port b n =
     (case (if b \<noteq> [] then best_probe b else None) of
        Some p \<Rightarrow> kind_probe e ip port b p n
      | None \<Rightarrow>
          (case try_http_fallback e ip port of
             Panic \<Rightarrow> (Panic, n)
           | Ok d \<Rightarrow> if sd_product d \<noteq> None \<or> sd_http d \<noteq> None then (Ok d, n)
                     else blind_probes e ip port b registry n
           | Bail _ \<Rightarrow> blind_probes e ip port b registry n))"

definition dispatch :: "probe_env \<Rightarrow> string \<Rightarrow> u16 \<Rightarrow> net \<Rightarrow> service_data outcome \<times> net" where
  "dispatch e ip port n =
     (if is_https_port port then after_banner e ip port [] n
      else (case read_banner n of
              (Ok b, n) \<Rightarrow> after_banner e ip port b n
            | (Bail _, n) \<Rightarrow> (Ok (default_service_data\<lparr>sd_kind := ''firewalled''\<rparr>), n)
            | (Panic, n) \<Rightarrow> (Panic, n)))"

section \<open>Selection\<close>

interpretation pr: strict_ranking higher_priority
  by unfold_locales (auto simp: higher_priority_def)

lemma smtp_banner_is_ftp: "smtp_detects b \<Longrightarrow> ftp_detects b"
  by (simp add: smtp_detects_def ftp_detects_def Let_def)

lemma best_probe_first_max:
  "best_probe b = Some p \<longleftrightarrow> is_first_best (eligible b) higher_priority registry p"
  unfolding best_probe_def by (rule pr.select_best_iff)

text \<open>
  C28. The priority loop over the registry is this decision list: FTP for every 220 greeting, also
  one that announces SMTP, then IMAP, POP3, Telnet, MySQL and MikroTik.  The SMTP probe and, since
  they are excluded from the loop, the SSH and BGP probes are never selected by their banner.
\<close>

theorem best_probe_decision_list:
  "best_probe b =
     (if ftp_detects b then Some FtpProbe
      else if imap_detects b then Some ImapProbe
      else if pop3_detects b then Some Pop3Probe
      else if telnet_detects b then Some TelnetProbe
      else if mysql_detects b then Some MysqlProbe
      else if mikrotik_detects b then Some MikrotikProbe
      else None)"
proof -
  have e: "eligible b SshProbe = False" "eligible b FtpProbe = ftp_detects b"
    "eligible b SmtpProbe = smtp_detects b" "eligible b ImapProbe = imap_detects b"
    "eligible b Pop3Probe = pop3_detects b" "eligible b TelnetProbe = telnet_detects b"
    "eligible b MysqlProbe = mysql_detects b" "eligible b PptpProbe = False"
    "eligible b MqttProbe = False" "eligible b SccpProbe = False"
    "eligible b MikrotikProbe = mikrotik_detects b" "eligible b RtspProbe = False"
    "eligible b BgpProbe = False"
    by (simp_all add: eligible_def requires_probe_without_banner_def)
  note d = best_probe_def select_best_def registry_def first_best_def higher_priority_def
    probe_priority_def e
  show ?thesis
  proof (cases "ftp_detects b")
    case True
    then show ?thesis by (cases "smtp_detects b") (simp_all add: d)
  next
    case False
    then have "\<not> smtp_detects b" using smtp_banner_is_ftp by blast
    with False show ?thesis by (simp add: d)
  qed
qed

section \<open>What a dispatch can return\<close>

lemma and_then_OkE:
  assumes "fst (and_then r f) = Ok y"
  obtains x where "fst r = Ok x" "fst (f x (snd r)) = Ok y"
  using assms by (cases r; cases "fst r") auto

lemma on_sccp_ssl [simp]: "sd_ssl (on_sccp f d) = sd_ssl d"
  by (simp add: on_sccp_def)

lemma default_ssl [simp]: "sd_ssl default_service_data = None"
  by (simp add: default_service_data_def)

lemma sccp_ssl: "sd_ssl (sccp_reply m b) = None" "sd_ssl (sccp_enrich x d) = sd_ssl d"
  by (simp_all add: sccp_reply_def sccp_enrich_def voip_data_def Let_def)

lemma pptp_ssl: "pptp_parse b = Ok d \<Longrightarrow> sd_ssl d = None"
  by (auto simp: pptp_parse_def Let_def split: if_splits)

text \<open>No probe reports certificate data.\<close>

lemma raw_probe_ssl: "fst (raw_probe e ip port b p n) = Ok d \<Longrightarrow> sd_ssl d = None"
proof (cases p)
  case SshProbe
  then show "fst (raw_probe e ip port b p n) = Ok d \<Longrightarrow> ?thesis"
    by (auto simp: ssh_probe_def Let_def case_prod_beta elim!: and_then_OkE split: if_splits)
next
  case FtpProbe
  then show "fst (raw_probe e ip port b p n) = Ok d \<Longrightarrow> ?thesis"
    by (auto simp: ftp_probe_def Let_def case_prod_beta elim!: and_then_OkE)
next
  case SmtpProbe
  then show "fst (raw_probe e ip port b p n) = Ok d \<Longrightarrow> ?thesis"
    by (auto simp: smtp_probe_def Let_def case_prod_beta elim!: and_then_OkE)
next
  case ImapProbe
  then show "fst (raw_probe e ip port b p n) = Ok d \<Longrightarrow> ?thesis"
    by (auto simp: imap_probe_def Let_def case_prod_beta elim!: and_then_OkE)
next
  case Pop3Probe
  then show "fst (raw_probe e ip port b p n) = Ok d \<Longrightarrow> ?thesis"
    by (auto simp: pop3_probe_def Let_def case_prod_beta elim!: and_then_OkE)
next
  case TelnetProbe
  then show "fst (raw_probe e ip port b p n) = Ok d \<Longrightarrow> ?thesis"
    by (auto simp: telnet_probe_def Let_def elim!: and_then_OkE split: if_splits)
next
  case MysqlProbe
  then show "fst (raw_probe e ip port b p n) = Ok d \<Longrightarrow> ?thesis"
    by (auto simp: mysql_probe_def Let_def case_prod_beta elim!: and_then_OkE)
next
  case PptpProbe
  then show "fst (raw_probe e ip port b p n) = Ok d \<Longrightarrow> ?thesis"
    by (auto simp: pptp_probe_def pptp_finish_def Let_def case_prod_beta
        elim!: and_then_OkE dest: pptp_ssl split: if_splits)
next
  case MqttProbe
  then show "fst (raw_probe e ip port b p n) = Ok d \<Longrightarrow> ?thesis"
    by (auto simp: mqtt_probe_def Let_def case_prod_beta
        elim!: and_then_OkE split: if_splits outcome.splits)
next
  case SccpProbe
  then show "fst (raw_probe e ip port b p n) = Ok d \<Longrightarrow> ?thesis"
    by (auto simp: sccp_probe_def Let_def case_prod_beta sccp_ssl
        elim!: and_then_OkE split: if_splits option.splits)
next
  case MikrotikProbe
  then show "fst (raw_probe e ip port b p n) = Ok d \<Longrightarrow> ?thesis"
    by (auto simp: mikrotik_probe_def)
next
  case RtspProbe
  then show "fst (raw_probe e ip port b p n) = Ok d \<Longrightarrow> ?thesis"
    by (auto simp: rtsp_probe_def Let_def elim!: and_then_OkE split: if_splits)
next
  case BgpProbe
  then show "fst (raw_probe e ip port b p n) = Ok d \<Longrightarrow> ?thesis"
    by (simp add: bgp_probe_not_Ok)
qed

lemma kind_probe_ok:
  assumes "fst (kind_probe e ip port b p n) = Ok d"
  shows "sd_kind d = as_str_protocol (protocol_of p) \<and> sd_ssl d = None \<and> p \<noteq> BgpProbe"
proof -
  from assms obtain r where r: "fst (raw_probe e ip port b p n) = Ok r"
    and d: "d = r\<lparr>sd_kind := as_str_protocol (protocol_of p)\<rparr>"
    unfolding kind_probe_def by (auto elim: and_then_OkE)
  have "p \<noteq> BgpProbe" using r bgp_probe_not_Ok by auto
  with raw_probe_ssl [OF r] d show ?thesis by simp
qed

lemma http_probe_ok:
  "http_probe e sj scheme ip port = Ok d \<Longrightarrow> sd_kind d = scheme \<and> sd_ssl d = None \<and> sd_http d \<noteq> None"
  by (auto simp: http_probe_def Let_def split: option.splits if_splits)

lemma fallback_ok:
  assumes "try_http_fallback e ip port = Ok d"
  shows "sd_kind d \<in> {''http'', ''https''} \<and> sd_ssl d = None \<or> sd_product d = None \<and> sd_http d = None"
  using assms
  by (auto simp: try_http_fallback_def default_service_data_def dest!: http_probe_ok
      split: if_splits outcome.splits option.splits)

definition found_kinds :: "string list" where
  "found_kinds =
     [''ssh'', ''ftp'', ''imap'', ''pop3'', ''telnet'', ''mysql'', ''pptp'', ''mqtt'', ''sccp'', ''mikrotik'',
      ''rtsp'', ''http'', ''https'', ''firewalled'', ''unknown'']"

lemma blind_probes_ok:
  "fst (blind_probes e ip port b ps n) = Ok d \<Longrightarrow> sd_ssl d = None \<and> sd_kind d \<in> set found_kinds"
proof (induction ps arbitrary: n)
  case Nil
  then show ?case by (auto simp: default_service_data_def found_kinds_def)
next
  case (Cons p ps)
  show ?case
  proof (cases "requires_probe_without_banner p")
    case False
    with Cons show ?thesis by simp
  next
    case req: True
    obtain r n' where k: "kind_probe e ip port b p n = (r, n')" by fastforce
    show ?thesis
    proof (cases r)
      case (Ok x)
      with Cons.prems req k have "fst (kind_probe e ip port b p n) = Ok d" by simp
      from kind_probe_ok [OF this] req show ?thesis
        by (auto simp: requires_probe_without_banner_def found_kinds_def)
    qed (use Cons req k in simp_all)
  qed
qed

lemma selected_kinds: "best_probe b = Some p \<Longrightarrow> as_str_protocol (protocol_of p) \<in> set found_kinds"
proof -
  assume "best_probe b = Some p"
  then have "eligible b p" "is_first_best (eligible b) higher_priority registry p"
    using is_first_best_mem [of "eligible b" higher_priority registry p] by (simp_all add: best_probe_first_max)
  moreover have "p \<noteq> SmtpProbe"
  proof
    assume p: "p = SmtpProbe"
    with calculation(1) have "eligible b FtpProbe"
      by (simp add: eligible_def requires_probe_without_banner_def smtp_banner_is_ftp)
    moreover obtain us vs where r: "registry = us @ SmtpProbe # vs"
      "\<forall>u\<in>set us. eligible b u \<longrightarrow> higher_priority SmtpProbe u"
      using \<open>is_first_best (eligible b) higher_priority registry p\<close> p by (auto simp: is_first_best_def)
    moreover have "FtpProbe \<in> set us"
      using r(1) by (auto simp: registry_def Cons_eq_append_conv)
    ultimately show False by (auto simp: higher_priority_def probe_priority_def)
  qed
  ultimately show ?thesis
    by (cases p) (auto simp: eligible_def requires_probe_without_banner_def found_kinds_def)
qed

lemma after_banner_ok:
  assumes "fst (after_banner e ip port b n) = Ok d"
  shows "sd_ssl d = None \<and> sd_kind d \<in> set found_kinds"
proof (cases "if b \<noteq> [] then best_probe b else None")
  case (Some p)
  then have "best_probe b = Some p" by (simp split: if_splits)
  moreover have "fst (kind_probe e ip port b p n) = Ok d" using assms Some by (simp add: after_banner_def)
  ultimately show ?thesis using kind_probe_ok selected_kinds by metis
next
  case None
  show ?thesis
  proof (cases "try_http_fallback e ip port")
    case (Ok x)
    show ?thesis
    proof (cases "sd_product x \<noteq> None \<or> sd_http x \<noteq> None")
      case True
      with assms None Ok have "x = d" by (auto simp: after_banner_def)
      then show ?thesis using fallback_ok [OF Ok] True by (auto simp: found_kinds_def)
    next
      case False
      then show ?thesis using assms None Ok blind_probes_ok by (auto simp: after_banner_def)
    qed
  qed (use assms None blind_probes_ok in \<open>auto simp: after_banner_def\<close>)
qed

lemma dispatch_result:
  assumes "fst (dispatch e ip port n) = Ok d"
  shows "sd_ssl d = None \<and> sd_kind d \<in> set found_kinds"
proof (cases "is_https_port port")
  case True
  then show ?thesis using assms after_banner_ok by (auto simp: dispatch_def)
next
  case False
  obtain o1 n1 where b: "read_banner n = (o1, n1)" by fastforce
  show ?thesis
    using assms False b after_banner_ok
    by (cases o1) (auto simp: dispatch_def found_kinds_def default_service_data_def)
qed

text \<open>
  C29. What a dispatch can return: a service of one of these kinds, never \<open>smtp\<close>, \<open>bgp\<close> or \<open>tls\<close>, and
  never certificate data.  The TLS handshake of the fallback is made, but its result has neither a
  product nor an HTTP payload, so the dispatcher drops it.
\<close>

theorem dispatch_kinds:
  assumes "fst (dispatch e ip port n) = Ok d"
  shows "sd_ssl d = None \<and> sd_kind d \<in> set found_kinds"
  using assms by (rule dispatch_result)

definition demo_env :: probe_env where
  "demo_env =
     \<lparr>pe_http = \<lparr>e_get = \<lambda>u. None, e_join = \<lambda>u l. None, e_re_concat = \<lambda>b. None, e_re_meta = \<lambda>b. None,
        e_re_simple = \<lambda>b. None, e_lc = id, e_sha = \<lambda>b. [], e_rdns = \<lambda>h. None\<rparr>,
      pe_show = \<lambda>v. [], pe_b64 = \<lambda>b. [], pe_b64url = \<lambda>b. [],
      pe_tls = \<lambda>ip port. Some \<lparr>ssl_subject_cn = Some ''router'', ssl_issuer_cn = None, ssl_self_signed = True\<rparr>,
      pe_mqtt_reads = 0\<rparr>"

definition closed_net :: net where
  "closed_net = \<lparr>n_conns = [], n_log = []\<rparr>"

lemma demo_tls_dispatch: "fst (dispatch demo_env ''10.0.0.1'' 443 closed_net) = Ok default_service_data"
  by code_simp

theorem dispatch_kinds_witness:
  "sd_ssl default_service_data = None \<and> sd_kind default_service_data \<in> set found_kinds"
  by (rule dispatch_kinds [OF demo_tls_dispatch])

lemma blind_probes_no_bail: "fst (blind_probes e ip port b ps n) \<noteq> Bail msg"
  by (induction ps arbitrary: n) (auto split: prod.splits outcome.splits)

text \<open>
  A dispatch fails only when the port answered a banner and the probe selected for it failed: a
  refused connection is the kind \<open>firewalled\<close>, and failures of the fallbacks are absorbed.
\<close>

theorem dispatch_error:
  assumes "fst (dispatch e ip port n) = Bail msg"
  shows "\<exists>b n' p. \<not> is_https_port port \<and> read_banner n = (Ok b, n') \<and> b \<noteq> [] \<and> best_probe b = Some p \<and>
           fst (kind_probe e ip port b p n') = Bail msg"
proof -
  have sel: "b \<noteq> [] \<and> (\<exists>p. best_probe b = Some p \<and> fst (kind_probe e ip port b p m) = Bail msg)"
    if "fst (after_banner e ip port b m) = Bail msg" for b m
    using that blind_probes_no_bail
    by (auto simp: after_banner_def split: option.splits if_splits outcome.splits)
  show ?thesis
  proof (cases "is_https_port port")
    case True
    then show ?thesis using assms sel by (auto simp: dispatch_def)
  next
    case False
    obtain o1 n1 where b: "read_banner n = (o1, n1)" by fastforce
    show ?thesis using assms False b sel by (cases o1) (auto simp: dispatch_def)
  qed
qed

definition telnet_net :: net where
  "telnet_net = \<lparr>n_conns = [Inr [RData [0xFF, 0xFD, 0x18]], Inr []], n_log = []\<rparr>"

lemma demo_telnet_dispatch:
  "fst (dispatch demo_env ''10.0.0.1'' 23 telnet_net) = Bail ''no telnet banner received''"
  by code_simp

theorem dispatch_error_witness:
  "\<exists>b n' p. read_banner telnet_net = (Ok b, n') \<and> b \<noteq> [] \<and> best_probe b = Some p \<and>
     fst (kind_probe demo_env ''10.0.0.1'' 23 b p n') = Bail ''no telnet banner received''"
  using dispatch_error [OF demo_telnet_dispatch] by blast

end
