(* ===== verification/Fingerprint.thy ===== *)
theory Fingerprint
  imports Utf8 Models Select Http
begin

text \<open>
  The fingerprint engine, \<open>crates/scanerr-fingerprint/src/\<close>: the signature and matcher types
  (\<open>signature.rs\<close>), the evidence map (\<open>evidence.rs\<close>), scoring and resolution (\<open>score.rs\<close>) and
  identification (\<open>engine.rs\<close>).  The regular expression compiler \<open>re\<close>, SHA-256 and the lower-case
  table are parameters.  Scores are 32-bit words that wrap, and the confidence is computed in IEEE
  double precision, written out below for the operands that occur.
\<close>

section \<open>Signatures\<close>

datatype match_condition = AnyOf | AllOf

datatype operator =
    Contains | Icontains | Regex | Equals | StartsWith | EndsWith | HashEquals | Exists
  | NotContains | NotIcontains | NotRegex | NotEquals | NotStartsWith | NotEndsWith

record matcher_def =
  md_field :: string
  md_op :: operator
  md_value :: string
  md_weight :: u32

record signature =
  sg_id :: string
  sg_name :: string
  sg_category :: string
  sg_tags :: "string list"
  sg_priority :: u16
  sg_condition :: match_condition
  sg_matchers :: "matcher_def list"

record compiled_matcher =
  cm_field :: string
  cm_op :: operator
  cm_value :: string
  cm_weight :: u32
  cm_regex :: "(string \<Rightarrow> bool) option"

record compiled_signature =
  cs_id :: string
  cs_name :: string
  cs_tags :: "string list"
  cs_priority :: u16
  cs_condition :: match_condition
  cs_matchers :: "compiled_matcher list"

definition compile_matcher :: "(string \<Rightarrow> (string \<Rightarrow> bool) option) \<Rightarrow> matcher_def \<Rightarrow> compiled_matcher" where
  "compile_matcher re d =
     \<lparr>cm_field = md_field d, cm_op = md_op d, cm_value = md_value d, cm_weight = md_weight d,
      cm_regex = (if md_op d = Regex \<or> md_op d = NotRegex then re (md_value d) else None)\<rparr>"

definition compile :: "(string \<Rightarrow> (string \<Rightarrow> bool) option) \<Rightarrow> signature \<Rightarrow> compiled_signature" where
  "compile re raw =
     \<lparr>cs_id = sg_id raw, cs_name = sg_name raw, cs_tags = sg_tags raw, cs_priority = sg_priority raw,
      cs_condition = sg_condition raw, cs_matchers = map (compile_matcher re) (sg_matchers raw)\<rparr>"

text \<open>\<open>str::parse::<i64>\<close>.\<close>

definition parse_i64 :: "string \<Rightarrow> int option" where
  "parse_i64 s =
     (if s \<noteq> [] \<and> hd s = CHR ''-'' then
        (if tl s = [] then None
         else (case digits_value 0 (tl s) of
                 None \<Rightarrow> None
               | Some v \<Rightarrow> if v \<le> 2 ^ 63 then Some (- int v) else None))
      else map_option int (parse_uint (2 ^ 63 - 1) s))"

definition is_negative :: "operator \<Rightarrow> bool" where
  "is_negative p =
     (p = NotContains \<or> p = NotIcontains \<or> p = NotRegex \<or> p = NotEquals \<or> p = NotStartsWith \<or>
      p = NotEndsWith)"

text \<open>The \<open>match self.op\<close> of \<open>CompiledMatcher::matches\<close> on a non-empty list of values.\<close>

definition op_hit ::
  "(string \<Rightarrow> string) \<Rightarrow> (u8 list \<Rightarrow> u8 list) \<Rightarrow> compiled_matcher \<Rightarrow> string list \<Rightarrow> bool" where
  "op_hit lc sha m vs =
     (let value = cm_value m;
          icontains = (let needle = to_lowercase lc value
                       in list_ex (\<lambda>v. contains_sub (to_lowercase lc v) needle) vs)
      in case cm_op m of
           Contains \<Rightarrow> list_ex (\<lambda>v. contains_sub v value) vs
         | Icontains \<Rightarrow> icontains
         | Regex \<Rightarrow> (case cm_regex m of Some r \<Rightarrow> list_ex r vs | None \<Rightarrow> False)
         | Equals \<Rightarrow> list_ex (\<lambda>v. v = value) vs
         | StartsWith \<Rightarrow> list_ex (prefix value) vs
         | EndsWith \<Rightarrow> list_ex (suffix value) vs
         | HashEquals \<Rightarrow> list_ex (\<lambda>v. parse_i64 value = Some (hash_bytes sha (as_bytes v))) vs
         | Exists \<Rightarrow> vs \<noteq> []
         | NotContains \<Rightarrow> \<not> list_ex (\<lambda>v. contains_sub v value) vs
         | NotIcontains \<Rightarrow> \<not> icontains
         | NotRegex \<Rightarrow> (case cm_regex m of Some r \<Rightarrow> \<not> list_ex r vs | None \<Rightarrow> True)
         | NotEquals \<Rightarrow> \<not> list_ex (\<lambda>v. v = value) vs
         | NotStartsWith \<Rightarrow> \<not> list_ex (prefix value) vs
         | NotEndsWith \<Rightarrow> \<not> list_ex (suffix value) vs)"

definition cm_matches ::
  "(string \<Rightarrow> string) \<Rightarrow> (u8 list \<Rightarrow> u8 list) \<Rightarrow> compiled_matcher \<Rightarrow> string list \<Rightarrow> bool \<times> u32" where
  "cm_matches lc sha m vs =
     (if vs = [] then (if is_negative (cm_op m) then (True, cm_weight m) else (False, 0))
      else if op_hit lc sha m vs then (True, cm_weight m) else (False, 0))"

definition total_weight :: "compiled_signature \<Rightarrow> u32" where
  "total_weight sig = sum_list (map cm_weight (cs_matchers sig))"

section \<open>Evidence\<close>

type_synonym evidence = "string \<Rightarrow> string list"

definition push :: "evidence \<Rightarrow> string \<times> string \<Rightarrow> evidence" where
  "push m kv = m(fst kv := m (fst kv) @ [snd kv])"

definition opt_entry :: "string \<Rightarrow> string option \<Rightarrow> (string \<times> string) list" where
  "opt_entry k v = (case v of Some s \<Rightarrow> [(k, s)] | None \<Rightarrow> [])"

definition list_entries :: "string \<Rightarrow> string list \<Rightarrow> (string \<times> string) list" where
  "list_entries k vs = map (Pair k) vs"

definition show_int :: "int \<Rightarrow> string" where
  "show_int i = (if i < 0 then ''-'' @ dec (nat (- i)) else dec (nat i))"

definition show_bool :: "bool \<Rightarrow> string" where
  "show_bool b = (if b then ''true'' else ''false'')"

definition header_entries :: "(string \<Rightarrow> string) \<Rightarrow> string \<times> json \<Rightarrow> (string \<times> string) list" where
  "header_entries lc h =
     (let key = ''http.header.'' @ to_lowercase lc (fst h)
      in case snd h of
           JStr s \<Rightarrow> [(key, s)]
         | JArr arr \<Rightarrow> list_entries key (List.map_filter json_as_str arr)
         | _ \<Rightarrow> [])"

definition http_entries :: "(string \<Rightarrow> string) \<Rightarrow> http_data \<Rightarrow> (string \<times> string) list" where
  "http_entries lc h =
     [(''http.status'', dec (unat (h_status h)))] @
     opt_entry ''http.title'' (h_title h) @ opt_entry ''http.body'' (h_body h) @
     opt_entry ''http.server'' (h_server h) @ opt_entry ''http.host'' (h_host h) @
     opt_entry ''http.rdns'' (h_rdns h) @ opt_entry ''http.waf'' (h_waf h) @
     opt_entry ''http.favicon_hash'' (map_option show_int (h_favicon_hash h)) @
     opt_entry ''http.html_hash'' (map_option show_int (h_html_hash h)) @
     opt_entry ''http.robots'' (h_robots h) @ opt_entry ''http.securitytxt'' (h_securitytxt h) @
     list_entries ''http.tags'' (h_tags h) @ concat (map (header_entries lc) (h_headers h))"

definition ssl_entries :: "ssl_data \<Rightarrow> (string \<times> string) list" where
  "ssl_entries s =
     opt_entry ''ssl.subject_cn'' (ssl_subject_cn s) @ opt_entry ''ssl.issuer_cn'' (ssl_issuer_cn s) @
     (if ssl_self_signed s then [(''ssl.self_signed'', ''true'')] else [])"

definition ssh_entries :: "ssh_data \<Rightarrow> (string \<times> string) list" where
  "ssh_entries s =
     [(''ssh.raw'', ssh_raw s)] @ opt_entry ''ssh.key_type'' (ssh_key_type s) @
     opt_entry ''ssh.fingerprint'' (ssh_fingerprint s) @ opt_entry ''ssh.product'' (ssh_product s) @
     opt_entry ''ssh.version'' (ssh_version s)"

definition ftp_entries :: "ftp_data \<Rightarrow> (string \<times> string) list" where
  "ftp_entries f =
     opt_entry ''ftp.system'' (ftp_system f) @
     opt_entry ''ftp.anonymous_listing'' (ftp_anonymous_listing f) @
     (case ftp_features f of Some xs \<Rightarrow> list_entries ''ftp.features'' xs | None \<Rightarrow> []) @
     (case ftp_commands f of Some xs \<Rightarrow> list_entries ''ftp.commands'' xs | None \<Rightarrow> [])"

definition smtp_entries :: "smtp_data \<Rightarrow> (string \<times> string) list" where
  "smtp_entries s =
     opt_entry ''smtp.starttls'' (map_option show_bool (smtp_starttls s)) @
     (case smtp_ehlo s of Some xs \<Rightarrow> list_entries ''smtp.ehlo'' xs | None \<Rightarrow> [])"

definition mqtt_entries :: "mqtt_data \<Rightarrow> (string \<times> string) list" where
  "mqtt_entries q =
     opt_entry ''mqtt.version'' (mqtt_version q) @
     opt_entry ''mqtt.return_code'' (map_option (\<lambda>v. dec (unat v)) (mqtt_return_code q)) @
     list_entries ''mqtt.subscriptions'' (mqtt_subscriptions q)"

definition opt_entries :: "('a \<Rightarrow> (string \<times> string) list) \<Rightarrow> 'a option \<Rightarrow> (string \<times> string) list" where
  "opt_entries f v = (case v of Some x \<Rightarrow> f x | None \<Rightarrow> [])"

definition entries_of :: "(string \<Rightarrow> string) \<Rightarrow> service_data \<Rightarrow> (string \<times> string) list" where
  "entries_of lc d =
     [(''kind'', sd_kind d)] @ opt_entry ''port'' (map_option (\<lambda>p. dec (unat p)) (sd_port d)) @
     opt_entry ''product'' (sd_product d) @ opt_entry ''version'' (sd_version d) @
     opt_entry ''banner'' (sd_banner d) @ list_entries ''tags'' (sd_tags d) @
     opt_entries (http_entries lc) (sd_http d) @ opt_entries ssl_entries (sd_ssl d) @
     opt_entries ssh_entries (sd_ssh d) @ opt_entries ftp_entries (sd_ftp d) @
     opt_entries smtp_entries (sd_smtp d) @ opt_entries mqtt_entries (sd_mqtt d)"

text \<open>\<open>Evidence::from\<close>; \<open>values\<close> is application.\<close>

definition evidence_from :: "(string \<Rightarrow> string) \<Rightarrow> service_data \<Rightarrow> evidence" where
  "evidence_from lc d = foldl push (\<lambda>_. []) (entries_of lc d)"

section \<open>Scoring\<close>

text \<open>
  \<open>((a as f64 / b as f64) * 100.0) as u8\<close> for 32-bit \<open>a\<close> and \<open>b\<close>: the quotient rounded to 53 bits, to
  nearest and ties to even, the product rounded again, truncated and saturated; \<open>0/0\<close> is NaN,
  which casts to 0.
\<close>

definition rne :: "nat \<Rightarrow> nat \<Rightarrow> nat" where
  "rne x y =
     (let q = x div y; r = x mod y
      in if 2 * r < y then q else if y < 2 * r then q + 1 else q + q mod 2)"

function scale :: "nat \<Rightarrow> nat \<Rightarrow> nat" where
  "scale a b = (if a = 0 \<or> 2 ^ 52 * b \<le> a then 0 else Suc (scale (2 * a) b))"
  by pat_completeness auto
termination
  by (relation "measure (\<lambda>(a, b). 2 ^ 52 * b - a)") auto

fun excess :: "nat \<Rightarrow> nat" where
  "excess p = (if p < 2 ^ 53 then 0 else Suc (excess (p div 2)))"

declare scale.simps [simp del] excess.simps [simp del]

definition f64_percent :: "u32 \<Rightarrow> u32 \<Rightarrow> u8" where
  "f64_percent a b =
     (if b = 0 then (if a = 0 then 0 else 255)
      else if a = 0 then 0
      else (let s = scale (unat a) (unat b);
                p = rne (unat a * 2 ^ s) (unat b) * 100;
                t = excess p
            in of_nat (min 255 (rne p (2 ^ t) * 2 ^ t div 2 ^ s))))"

record match_result =
  mr_id :: string
  mr_score :: u32
  mr_confidence :: u8
  mr_matched :: bool

text \<open>The loop of \<open>evaluate\<close>: total score, number of hits, heaviest hit.\<close>

definition eval_step ::
  "(string \<Rightarrow> string) \<Rightarrow> (u8 list \<Rightarrow> u8 list) \<Rightarrow> evidence \<Rightarrow> u32 \<times> u32 \<times> u32 \<Rightarrow> compiled_matcher \<Rightarrow>
   u32 \<times> u32 \<times> u32"
where
  "eval_step lc sha ev acc m =
     (case acc of (score, count, best) \<Rightarrow>
        (case cm_matches lc sha m (ev (cm_field m)) of (hit, weight) \<Rightarrow>
           if hit then (score + weight, count + 1, if best < weight then weight else best)
           else (score, count, best)))"

definition max_weight :: "compiled_signature \<Rightarrow> u32" where
  "max_weight sig =
     (case map cm_weight (cs_matchers sig) of [] \<Rightarrow> 1 | w # ws \<Rightarrow> foldl max w ws)"

definition evaluate ::
  "(string \<Rightarrow> string) \<Rightarrow> (u8 list \<Rightarrow> u8 list) \<Rightarrow> compiled_signature \<Rightarrow> evidence \<Rightarrow> match_result" where
  "evaluate lc sha sig ev =
     (let (score, count, best) = foldl (eval_step lc sha ev) (0, 0, 0) (cs_matchers sig);
          matched = (case cs_condition sig of
                       AnyOf \<Rightarrow> count > 0
                     | AllOf \<Rightarrow> count = of_nat (length (cs_matchers sig)));
          confidence =
            (if matched then
               (case cs_condition sig of
                  AnyOf \<Rightarrow> f64_percent best (max_weight sig)
                | AllOf \<Rightarrow> if total_weight sig > 0 then f64_percent score (total_weight sig) else 0)
             else 0)
      in \<lparr>mr_id = cs_id sig, mr_score = score, mr_confidence = confidence, mr_matched = matched\<rparr>)"

definition priority_of :: "compiled_signature list \<Rightarrow> string \<Rightarrow> u16" where
  "priority_of sigs i =
     (case find (\<lambda>s. cs_id s = i) sigs of Some s \<Rightarrow> cs_priority s | None \<Rightarrow> 0)"

definition outranks :: "compiled_signature list \<Rightarrow> match_result \<Rightarrow> match_result \<Rightarrow> bool" where
  "outranks sigs r c =
     (mr_score c < mr_score r \<or>
      mr_score r = mr_score c \<and> priority_of sigs (mr_id c) < priority_of sigs (mr_id r))"

definition resolve ::
  "(string \<Rightarrow> string) \<Rightarrow> (u8 list \<Rightarrow> u8 list) \<Rightarrow> compiled_signature list \<Rightarrow> evidence \<Rightarrow>
   match_result option"
where
  "resolve lc sha sigs ev =
     select_best mr_matched (outranks sigs) (map (\<lambda>sig. evaluate lc sha sig ev) sigs)"

section \<open>Identification\<close>

definition has_tag :: "string list \<Rightarrow> string \<Rightarrow> bool" where
  "has_tag tags tag = list_ex (\<lambda>t. eq_ignore_ascii_case t tag) tags"

definition merge_tag :: "string list \<Rightarrow> string \<Rightarrow> string list" where
  "merge_tag tags tag = (if has_tag tags tag then tags else tags @ [tag])"

definition identify ::
  "(string \<Rightarrow> string) \<Rightarrow> (u8 list \<Rightarrow> u8 list) \<Rightarrow> compiled_signature list \<Rightarrow> service_data \<Rightarrow> service_data"
where
  "identify lc sha sigs d =
     (case resolve lc sha sigs (evidence_from lc d) of
        None \<Rightarrow> d
      | Some r \<Rightarrow>
          (case find (\<lambda>s. cs_id s = mr_id r) sigs of
             None \<Rightarrow> d
           | Some sig \<Rightarrow>
               d\<lparr>sd_product := Some (cs_name sig), sd_confidence := Some (mr_confidence r),
                 sd_tags := foldl merge_tag (sd_tags d) (cs_tags sig)\<rparr>))"

section \<open>Rounding\<close>

lemma rne_le: "0 < y \<Longrightarrow> x \<le> k * y \<Longrightarrow> rne x y \<le> k"
proof -
  assume y: "0 < y" and x: "x \<le> k * y"
  have q: "x div y \<le> k" using x y by (metis div_le_mono div_mult_self_is_m)
  show ?thesis
  proof (cases "x div y = k")
    case True
    then have "x mod y = 0" using x y
      by (metis add_le_same_cancel2 add.commute div_mult_mod_eq le_zero_eq)
    then show ?thesis using True y by (simp add: rne_def)
  next
    case False
    with q have "x div y + 1 \<le> k" by simp
    moreover have "x div y mod 2 \<le> 1" by linarith
    ultimately show ?thesis by (simp add: rne_def Let_def)
  qed
qed

lemma rne_exact: "0 < y \<Longrightarrow> rne (k * y) y = k"
  by (simp add: rne_def)

lemma excess_le: "p < 2 ^ (53 + k) \<Longrightarrow> excess p \<le> k"
proof (induction k arbitrary: p)
  case 0
  then show ?case by (simp add: excess.simps [of p])
next
  case (Suc k)
  have "p < 2 ^ (53 + k) * 2" using Suc.prems by (simp add: power_add mult.commute)
  then have "p div 2 < 2 ^ (53 + k)" by (rule less_mult_imp_div_less)
  from Suc.IH [OF this] show ?case by (simp add: excess.simps [of p])
qed

lemma excess_percent:
  assumes "p \<le> 100 * 2 ^ s"
  shows "excess p \<le> s"
proof (rule excess_le)
  have "(100 :: nat) * 2 ^ s < 2 ^ 53 * 2 ^ s" by simp
  with assms have "p < 2 ^ 53 * 2 ^ s" by (rule le_less_trans)
  then show "p < 2 ^ (53 + s)" by (simp only: power_add)
qed

lemma f64_percent_le:
  assumes "a \<le> b"
  shows "f64_percent a b \<le> 100"
proof (cases "a = 0 \<or> b = 0")
  case True
  moreover have "b = 0 \<Longrightarrow> a = 0" using assms by simp
  ultimately show ?thesis by (auto simp: f64_percent_def)
next
  case False
  define s where "s = scale (unat a) (unat b)"
  define p where "p = rne (unat a * 2 ^ s) (unat b) * 100"
  define t where "t = excess p"
  have b: "0 < unat b" using False by (simp add: unat_gt_0)
  have "unat a * 2 ^ s \<le> 2 ^ s * unat b" using assms by (simp add: word_le_nat_alt)
  then have p: "p \<le> 100 * 2 ^ s" using rne_le [OF b] by (simp add: p_def)
  then have t: "t \<le> s" unfolding t_def by (rule excess_percent)
  then have e: "(100 :: nat) * 2 ^ s = 100 * 2 ^ (s - t) * 2 ^ t" by (simp flip: power_add)
  then have "rne p (2 ^ t) \<le> 100 * 2 ^ (s - t)" using p by (intro rne_le) simp_all
  then have "rne p (2 ^ t) * 2 ^ t \<le> 100 * 2 ^ s" unfolding e by (rule mult_le_mono1)
  then have "rne p (2 ^ t) * 2 ^ t div 2 ^ s \<le> 100"
    by (metis div_le_mono div_mult_self_is_m zero_less_numeral zero_less_power)
  then have "f64_percent a b = of_nat (rne p (2 ^ t) * 2 ^ t div 2 ^ s)"
    "rne p (2 ^ t) * 2 ^ t div 2 ^ s \<le> 100"
    using False by (simp_all add: f64_percent_def Let_def flip: s_def p_def t_def)
  then show ?thesis by (simp add: word_le_nat_alt unat_of_nat)
qed

lemma f64_percent_self:
  assumes "a \<noteq> 0"
  shows "f64_percent a a = 100"
proof -
  define s where "s = scale (unat a) (unat a)"
  have a: "0 < unat a" using assms by (simp add: unat_gt_0)
  have p: "rne (unat a * 2 ^ s) (unat a) * 100 = 100 * 2 ^ s"
    using rne_exact [OF a, of "2 ^ s"] by (simp add: mult.commute)
  define t where "t = excess (100 * 2 ^ s)"
  have "t \<le> s" unfolding t_def by (rule excess_percent) simp
  then have e: "(100 :: nat) * 2 ^ s = 100 * 2 ^ (s - t) * 2 ^ t" by (simp flip: power_add)
  have "rne (100 * 2 ^ s) (2 ^ t) * 2 ^ t = 100 * 2 ^ s"
    unfolding e by (subst rne_exact) simp_all
  then have "rne (100 * 2 ^ s) (2 ^ t) * 2 ^ t div 2 ^ s = 100" by simp
  then show ?thesis using assms
    by (simp add: f64_percent_def Let_def p flip: s_def t_def)
qed

section \<open>Properties\<close>

lemma foldl_max_le: "foldl max b ws \<le> k \<longleftrightarrow> b \<le> k \<and> list_all (\<lambda>w. w \<le> k) ws"
  for b :: "'a :: linorder"
  by (induction ws arbitrary: b) auto

lemma foldl_max_ge: "w = b \<or> w \<in> set ws \<Longrightarrow> w \<le> foldl max b ws"
  for b :: "'a :: linorder"
  using foldl_max_le [of b ws "foldl max b ws"] by (auto simp: list_all_iff)

lemma max_weight_ge: "m \<in> set (cs_matchers sig) \<Longrightarrow> cm_weight m \<le> max_weight sig"
  by (cases "cs_matchers sig") (auto simp: max_weight_def intro!: foldl_max_ge)

definition hits ::
  "(string \<Rightarrow> string) \<Rightarrow> (u8 list \<Rightarrow> u8 list) \<Rightarrow> evidence \<Rightarrow> compiled_matcher list \<Rightarrow> compiled_matcher list" where
  "hits lc sha ev ms = filter (\<lambda>m. fst (cm_matches lc sha m (ev (cm_field m)))) ms"

lemma cm_matches_weight: "cm_matches lc sha m vs = (True, w) \<Longrightarrow> w = cm_weight m"
  by (auto simp: cm_matches_def split: if_splits)

lemma eval_fold:
  "foldl (eval_step lc sha ev) (t, c, b) ms =
   (t + sum_list (map cm_weight (hits lc sha ev ms)), c + of_nat (length (hits lc sha ev ms)),
    foldl max b (map cm_weight (hits lc sha ev ms)))"
proof (induction ms arbitrary: t c b)
  case Nil
  then show ?case by (simp add: hits_def)
next
  case (Cons m ms)
  obtain h w where m: "cm_matches lc sha m (ev (cm_field m)) = (h, w)" by fastforce
  show ?case
  proof (cases h)
    case True
    with m have "w = cm_weight m" using cm_matches_weight by metis
    with m True have "eval_step lc sha ev (t, c, b) m = (t + cm_weight m, c + 1, max b (cm_weight m))"
      "hits lc sha ev (m # ms) = m # hits lc sha ev ms"
      by (auto simp: eval_step_def hits_def)
    with Cons.IH show ?thesis by (simp add: add.assoc)
  next
    case False
    with m Cons.IH show ?thesis by (simp add: eval_step_def hits_def)
  qed
qed

lemma all_hit:
  assumes "length ms < 2 ^ 32" "(of_nat (length (hits lc sha ev ms)) :: u32) = of_nat (length ms)"
  shows "hits lc sha ev ms = ms"
proof -
  have "length (hits lc sha ev ms) \<le> length ms" by (simp add: hits_def)
  then have "length (hits lc sha ev ms) < 2 ^ 32" using assms(1) by simp
  then have "length (hits lc sha ev ms) = length ms"
    using arg_cong [OF assms(2), of unat] assms(1) by (simp add: unat_of_nat)
  then show ?thesis unfolding hits_def
    by (metis filter_True length_filter_less less_irrefl)
qed

text \<open>
  C31. The confidence of a match is a percentage, for every evidence and any weights: at most 100 in
  spite of the wrapping scores and the floating-point rounding, and for a signature that demands all
  its matchers it is 100, or 0 when the weights sum to 0.
\<close>

theorem evaluate_confidence:
  assumes "length (cs_matchers sig) < 2 ^ 32"
  shows "mr_confidence (evaluate lc sha sig ev) \<le> 100 \<and>
         (cs_condition sig = AllOf \<and> mr_matched (evaluate lc sha sig ev) \<longrightarrow>
          mr_confidence (evaluate lc sha sig ev) = (if total_weight sig = 0 then 0 else 100))"
proof (cases "cs_condition sig")
  case AnyOf
  have "foldl max 0 (map cm_weight (hits lc sha ev (cs_matchers sig))) \<le> max_weight sig"
    by (auto simp: foldl_max_le hits_def list_all_iff intro: max_weight_ge)
  then have "f64_percent (foldl max 0 (map cm_weight (hits lc sha ev (cs_matchers sig)))) (max_weight sig) \<le> 100"
    by (rule f64_percent_le)
  then show ?thesis using AnyOf by (simp add: evaluate_def eval_fold Let_def)
next
  case AllOf
  show ?thesis
  proof (cases "mr_matched (evaluate lc sha sig ev)")
    case True
    then have "hits lc sha ev (cs_matchers sig) = cs_matchers sig"
      using AllOf assms by (intro all_hit) (simp_all add: evaluate_def eval_fold Let_def)
    then show ?thesis using AllOf
      by (simp add: evaluate_def eval_fold Let_def total_weight_def f64_percent_self word_gt_0)
  next
    case False
    then show ?thesis by (auto simp: evaluate_def eval_fold Let_def)
  qed
qed

definition demo_signature :: compiled_signature where
  "demo_signature =
     \<lparr>cs_id = ''nginx'', cs_name = ''nginx'', cs_tags = [''web''], cs_priority = 50, cs_condition = AllOf,
      cs_matchers =
        [\<lparr>cm_field = ''http.header.server'', cm_op = Icontains, cm_value = ''nginx'', cm_weight = 5,
          cm_regex = None\<rparr>]\<rparr>"

theorem evaluate_confidence_witness:
  "mr_confidence (evaluate id (\<lambda>b. []) demo_signature (\<lambda>k. if k = ''http.header.server'' then [''NGINX/1.2''] else [])) = 100"
proof -
  let ?ev = "\<lambda>k. if k = ''http.header.server'' then [''NGINX/1.2''] else []"
  have "length (cs_matchers demo_signature) < 2 ^ 32" "cs_condition demo_signature = AllOf"
    by (simp_all add: demo_signature_def)
  moreover have "mr_matched (evaluate id (\<lambda>b. []) demo_signature ?ev)" by code_simp
  moreover have "total_weight demo_signature \<noteq> 0" by code_simp
  ultimately show ?thesis using evaluate_confidence [of demo_signature id "\<lambda>b. []" ?ev] by simp
qed

interpretation rs: strict_ranking "outranks sigs" for sigs
  by unfold_locales (auto simp: outranks_def)

text \<open>
  C30. Resolution returns the first signature, in corpus order, among the matching ones of the highest
  score and, within that score, the highest priority, where the priority is that of the first signature
  with the same id; it returns nothing only when no signature matches.
\<close>

theorem resolve_first_best:
  "resolve lc sha sigs ev = Some r \<longleftrightarrow>
   is_first_best mr_matched (outranks sigs) (map (\<lambda>sig. evaluate lc sha sig ev) sigs) r"
  unfolding resolve_def by (rule rs.select_best_iff)

definition negated :: "operator \<Rightarrow> operator option" where
  "negated p =
     (case p of Contains \<Rightarrow> Some NotContains | Icontains \<Rightarrow> Some NotIcontains | Regex \<Rightarrow> Some NotRegex
      | Equals \<Rightarrow> Some NotEquals | StartsWith \<Rightarrow> Some NotStartsWith | EndsWith \<Rightarrow> Some NotEndsWith
      | _ \<Rightarrow> None)"

text \<open>
  Every negative operator is the complement of its positive one, on all evidence: also on a field
  that is absent and on a regular expression that does not compile.
\<close>

theorem negative_operators:
  assumes "negated (cm_op m) = Some p"
  shows "fst (cm_matches lc sha (m\<lparr>cm_op := p\<rparr>) vs) \<longleftrightarrow> \<not> fst (cm_matches lc sha m vs)"
  using assms
  by (cases "cm_op m"; cases "cm_regex m")
     (auto simp: negated_def cm_matches_def is_negative_def op_hit_def Let_def)

theorem negative_operators_witness:
  "fst (cm_matches id (\<lambda>b. []) \<lparr>cm_field = ''banner'', cm_op = NotContains, cm_value = ''a'', cm_weight = 1, cm_regex = None\<rparr> [])"
  using negative_operators [of "\<lparr>cm_field = ''banner'', cm_op = Contains, cm_value = ''a'', cm_weight = 1, cm_regex = None\<rparr>" NotContains id "\<lambda>b. []" "[]"]
  by (simp add: negated_def cm_matches_def is_negative_def)

end
