(* ===== verification/QueryLex.thy ===== *)
theory QueryLex
  imports Utf8 "HOL-Library.Monad_Syntax"
begin

text \<open>
  The tokenizer of the search language, \<open>src/query.rs\<close>.  The input is the UTF-8 byte sequence of
  the query and the state is the byte offset \<open>pos\<close>.  Slicing \<open>&self.input[self.pos..]\<close> panics
  unless the offset is a character boundary; a panic is \<open>None\<close>.  Whether a non-ASCII character
  is alphanumeric is a Unicode table of the standard library, the parameter \<open>ualnum\<close>.
  The lemmas: every loop makes progress and ends; on ASCII input nothing panics; on any other
  input the tokenizer panics, because every advance is by one byte.
\<close>

datatype filter_op = Default | Contains | IContains | Regex | Equals | Startswith | Endswith

datatype token =
    KeyVal string filter_op string
  | BareWord string
  | TAnd
  | TOr
  | TNot
  | LParen
  | RParen

section \<open>Reading characters\<close>

text \<open>Bytes of the character that starts with a given byte.\<close>

definition char_width :: "char \<Rightarrow> nat" where
  "char_width c = (if byte c < 0x80 then 1 else if byte c < 0xE0 then 2
                   else if byte c < 0xF0 then 3 else 4)"

text \<open>\<open>Tokenizer::current\<close>: panic, end of input, or the next character's bytes.\<close>

definition current :: "string \<Rightarrow> nat \<Rightarrow> string option option" where
  "current inp p =
     (if \<not> char_boundary inp p then None
      else if p = length inp then Some None
      else Some (Some (take (char_width (inp ! p)) (drop p inp))))"

lemma current_SomeD: "current inp p = Some (Some ch) \<Longrightarrow> p < length inp \<and> ch \<noteq> []"
  by (auto simp: current_def char_boundary_def char_width_def split: if_splits)

lemma current_Some_less: "current inp p = Some (Some ch) \<Longrightarrow> p < length inp"
  using current_SomeD by blast

text \<open>No white-space character is alphanumeric, whatever the table says of the others.\<close>

definition is_alphanumeric :: "(string \<Rightarrow> bool) \<Rightarrow> string \<Rightarrow> bool" where
  "is_alphanumeric ualnum ch =
     (case ch of [c] \<Rightarrow> is_alnum c | _ \<Rightarrow> \<not> is_ws ch \<and> ualnum ch)"

definition word_stop :: "string \<Rightarrow> bool" where
  "word_stop ch =
     (is_ws ch \<or> ch = ''('' \<or> ch = '')'' \<or> ch = '':'' \<or> ch = [CHR 0x22] \<or> ch = ''.'')"

text \<open>\<open>Tokenizer::skip_whitespace\<close> and the loop of \<open>Tokenizer::read_word\<close>.\<close>

function skip_whitespace :: "string \<Rightarrow> nat \<Rightarrow> nat option" where
  "skip_whitespace inp p =
     (case current inp p of
        None \<Rightarrow> None
      | Some None \<Rightarrow> Some p
      | Some (Some ch) \<Rightarrow> if is_ws ch then skip_whitespace inp (p + 1) else Some p)"
  by pat_completeness auto
termination
  by (relation "measure (\<lambda>(inp, p). length inp - p)") (auto dest: current_Some_less)

function word_end :: "string \<Rightarrow> nat \<Rightarrow> nat option" where
  "word_end inp p =
     (case current inp p of
        None \<Rightarrow> None
      | Some None \<Rightarrow> Some p
      | Some (Some ch) \<Rightarrow> if word_stop ch then Some p else word_end inp (p + 1))"
  by pat_completeness auto
termination
  by (relation "measure (\<lambda>(inp, p). length inp - p)") (auto dest: current_Some_less)

definition read_word :: "string \<Rightarrow> nat \<Rightarrow> (string \<times> nat) option" where
  "read_word inp start =
     (case word_end inp start of
        None \<Rightarrow> None
      | Some p \<Rightarrow> Some (take (p - start) (drop start inp), p))"

text \<open>
  The loop of \<open>Tokenizer::read_quoted\<close>: a backslash takes the next character literally, the
  closing quote may be missing.
\<close>

function quoted_from :: "string \<Rightarrow> string \<Rightarrow> nat \<Rightarrow> (string \<times> nat) option" where
  "quoted_from inp result p =
     (case current inp p of
        None \<Rightarrow> None
      | Some None \<Rightarrow> Some (result, p)
      | Some (Some ch) \<Rightarrow>
          if ch = [CHR 0x22] then Some (result, p + 1)
          else if ch = [CHR 0x5C] then
            (case current inp (p + 1) of
               None \<Rightarrow> None
             | Some None \<Rightarrow> quoted_from inp result (p + 1)
             | Some (Some nxt) \<Rightarrow> quoted_from inp (result @ nxt) (p + 2))
          else quoted_from inp (result @ ch) (p + 1))"
  by pat_completeness auto
termination
  by (relation "measure (\<lambda>(inp, _, p). length inp - p)") (auto dest: current_Some_less)

definition read_quoted :: "string \<Rightarrow> nat \<Rightarrow> (string \<times> nat) option" where
  "read_quoted inp p = quoted_from inp [] (p + 1)"

declare skip_whitespace.simps [simp del] word_end.simps [simp del] quoted_from.simps [simp del]

definition read_value :: "string \<Rightarrow> nat \<Rightarrow> (string \<times> nat) option" where
  "read_value inp p =
     (case skip_whitespace inp p of
        None \<Rightarrow> None
      | Some p' \<Rightarrow>
          (case current inp p' of
             None \<Rightarrow> None
           | Some c \<Rightarrow> if c = Some [CHR 0x22] then read_quoted inp p' else read_word inp p'))"

section \<open>Progress of the readers\<close>

lemma skip_whitespace_mono:
  "skip_whitespace inp p = Some p' \<Longrightarrow> p \<le> p' \<and> (\<exists>c. current inp p' = Some c)"
proof (induction inp p rule: skip_whitespace.induct)
  case (1 inp p)
  show ?case
    using 1 by (subst (asm) (2) skip_whitespace.simps)
      (fastforce split: option.splits if_splits)
qed

lemma word_end_mono: "word_end inp p = Some p' \<Longrightarrow> p \<le> p'"
proof (induction inp p rule: word_end.induct)
  case (1 inp p)
  show ?case
    using 1 by (subst (asm) (2) word_end.simps)
      (fastforce split: option.splits if_splits)
qed

lemma quoted_from_mono: "quoted_from inp r p = Some (v, p') \<Longrightarrow> p \<le> p'"
proof (induction inp r p rule: quoted_from.induct)
  case (1 inp r p)
  show ?case
    using 1 by (subst (asm) (4) quoted_from.simps)
      (fastforce split: option.splits if_splits)
qed

lemma read_word_mono: "read_word inp p = Some (w, p') \<Longrightarrow> p \<le> p'"
  by (auto simp: read_word_def dest: word_end_mono split: option.splits)

lemma read_quoted_mono: "read_quoted inp p = Some (v, p') \<Longrightarrow> p < p'"
  by (auto simp: read_quoted_def dest: quoted_from_mono)

lemma read_value_mono: "read_value inp p = Some (v, p') \<Longrightarrow> p \<le> p'"
  unfolding read_value_def
  by (auto split: option.splits if_splits
      dest!: skip_whitespace_mono read_word_mono read_quoted_mono)

section \<open>Key and value, tokens\<close>

definition op_of_suffix :: "string \<Rightarrow> filter_op option" where
  "op_of_suffix s =
     (if s = ''contains'' then Some Contains
      else if s = ''icontains'' then Some IContains
      else if s = ''regex'' then Some Regex
      else if s = ''equals'' then Some Equals
      else if s = ''startswith'' then Some Startswith
      else if s = ''endswith'' then Some Endswith
      else None)"

function read_key_val :: "string \<Rightarrow> string \<Rightarrow> nat \<Rightarrow> (token \<times> nat) option" where
  "read_key_val inp key p =
     do {
       c \<leftarrow> current inp p;
       if c = Some ''.'' then
         do {
           (suf, p1) \<leftarrow> read_word inp (p + 1);
           (case op_of_suffix suf of
              Some op \<Rightarrow>
                do {
                  p2 \<leftarrow> skip_whitespace inp p1;
                  c2 \<leftarrow> current inp p2;
                  p3 \<leftarrow> (if c2 = Some '':'' then skip_whitespace inp (p2 + 1) else Some p2);
                  (v, q) \<leftarrow> read_value inp p3;
                  Some (KeyVal key op v, q)
                }
            | None \<Rightarrow>
                do {
                  c1 \<leftarrow> current inp p1;
                  if c1 = Some ''.'' \<or> c1 = Some '':''
                  then read_key_val inp (key @ ''.'' @ suf) p1
                  else Some (KeyVal (key @ ''.'' @ suf) Default [], p1)
                })
         }
       else
         do {
           p1 \<leftarrow> skip_whitespace inp (p + 1);
           (v, q) \<leftarrow> read_value inp p1;
           Some (KeyVal key Default v, q)
         }
     }"
  by pat_completeness auto
termination
  by (relation "measure (\<lambda>(inp, _, p). length inp - p)")
     (auto dest!: read_word_mono current_Some_less)

declare read_key_val.simps [simp del]

text \<open>
  \<open>Tokenizer::next_token\<close>, with the branch for a word first.  The keywords are compared in lower
  case, and no non-ASCII character has a lower-case form made of their letters.
\<close>

definition word_token :: "string \<Rightarrow> string \<Rightarrow> nat \<Rightarrow> (token option \<times> nat) option" where
  "word_token inp word q =
     (let w = map ascii_lower word
      in if w = ''and'' then Some (Some TAnd, q)
         else if w = ''or'' then Some (Some TOr, q)
         else if w = ''not'' then Some (Some TNot, q)
         else do {
           c' \<leftarrow> current inp q;
           if c' = Some '':'' \<or> c' = Some ''.'' then
             do { (t, q') \<leftarrow> read_key_val inp word q; Some (Some t, q') }
           else Some (Some (BareWord word), q)
         })"

definition next_token ::
  "(string \<Rightarrow> bool) \<Rightarrow> string \<Rightarrow> nat \<Rightarrow> (token option \<times> nat) option" where
  "next_token ualnum inp p =
     do {
       p0 \<leftarrow> skip_whitespace inp p;
       if p0 \<ge> length inp then Some (None, p0)
       else do {
         c \<leftarrow> current inp p0;
         (case c of
            None \<Rightarrow> Some (None, p0)
          | Some ch \<Rightarrow>
              if ch = ''('' then Some (Some LParen, p0 + 1)
              else if ch = '')'' then Some (Some RParen, p0 + 1)
              else if ch = ''-'' then
                (if p0 + 1 < length inp then
                   do {
                     c' \<leftarrow> current inp (p0 + 1);
                     (case c' of
                        None \<Rightarrow> None
                      | Some nxt \<Rightarrow>
                          if \<not> is_ws nxt then Some (Some TNot, p0 + 1)
                          else Some (Some (BareWord ''-''), p0 + 1))
                   }
                 else Some (Some (BareWord ''-''), p0 + 1))
              else if ch = [CHR 0x22] then
                do { (s, q) \<leftarrow> read_quoted inp p0; Some (Some (BareWord s), q) }
              else if is_alphanumeric ualnum ch \<or> ch = ''_'' then
                do { (word, q) \<leftarrow> read_word inp p0; word_token inp word q }
              else Some (Some (BareWord ch), p0 + 1))
       }
     }"

lemma word_end_progress:
  assumes "current inp p = Some (Some ch)" "\<not> word_stop ch" "word_end inp p = Some q"
  shows "p < q"
  using assms by (subst (asm) word_end.simps) (auto dest: word_end_mono)

lemma read_key_val_mono: "read_key_val inp key p = Some (t, q) \<Longrightarrow> p < q"
proof (induction inp key p rule: read_key_val.induct)
  case (1 inp key p)
  obtain c where c: "current inp p = Some c"
    using "1.prems" by (subst (asm) read_key_val.simps) (auto simp: bind_eq_Some_conv)
  show ?case
  proof (cases "c = Some ''.''")
    case False
    then show ?thesis
      using "1.prems" c
      by (subst (asm) read_key_val.simps)
        (auto simp: bind_eq_Some_conv dest!: read_value_mono skip_whitespace_mono)
  next
    case True
    obtain suf p1 where w: "read_word inp (p + 1) = Some (suf, p1)"
      using "1.prems" c True by (subst (asm) read_key_val.simps) (auto simp: bind_eq_Some_conv)
    then have p1: "p + 1 \<le> p1" by (rule read_word_mono)
    show ?thesis
    proof (cases "op_of_suffix suf")
      case (Some op)
      then show ?thesis
        using "1.prems" c True w p1
        by (subst (asm) read_key_val.simps)
          (auto simp: bind_eq_Some_conv split: if_splits
            dest!: read_value_mono skip_whitespace_mono)
    next
      case None
      then obtain c1 where c1: "current inp p1 = Some c1"
        using "1.prems" c True w
        by (subst (asm) read_key_val.simps) (auto simp: bind_eq_Some_conv)
      show ?thesis
      proof (cases "c1 = Some ''.'' \<or> c1 = Some '':''")
        case True2: True
        have "read_key_val inp (key @ ''.'' @ suf) p1 = Some (t, q)"
          using "1.prems" c True w None c1 True2 by (subst (asm) read_key_val.simps) auto
        from "1.IH" [OF c True w refl None c1 True2 this] p1 show ?thesis by simp
      next
        case False
        then show ?thesis
          using "1.prems" c True w None c1 p1 by (subst (asm) read_key_val.simps) auto
      qed
    qed
  qed
qed

lemma is_alphanumeric_not_stop:
  "is_alphanumeric ualnum ch \<or> ch = ''_'' \<Longrightarrow> \<not> word_stop ch"
proof (cases ch rule: remdups_adj.cases)
  case (2 c)
  assume "is_alphanumeric ualnum ch \<or> ch = ''_''"
  with 2 show ?thesis
    by (auto simp: word_stop_def is_alphanumeric_def is_ws_def ws_seqs_def is_alnum_def
        is_digit_def is_upper_def is_lower_def byte_def)
qed (auto simp: word_stop_def is_alphanumeric_def is_ws_def ws_seqs_def)

lemma read_word_progress:
  assumes "current inp p = Some (Some ch)" "is_alphanumeric ualnum ch \<or> ch = ''_''"
    "read_word inp p = Some (w, q)"
  shows "p < q"
  using assms word_end_progress [OF assms(1) is_alphanumeric_not_stop [OF assms(2)]]
  by (auto simp: read_word_def split: option.splits)

lemma word_token_mono: "word_token inp w q = Some (r, q') \<Longrightarrow> q \<le> q'"
  by (auto simp: word_token_def Let_def bind_eq_Some_conv split: if_splits
      dest!: read_key_val_mono)

lemma next_token_mono:
  assumes "next_token ualnum inp p = Some (Some t, q)"
  shows "p < q \<and> p < length inp"
proof -
  obtain p0 where p0: "skip_whitespace inp p = Some p0" "p \<le> p0"
    using assms skip_whitespace_mono by (auto simp: next_token_def bind_eq_Some_conv)
  then have lt: "p0 < length inp"
    using assms by (auto simp: next_token_def split: if_splits)
  obtain ch where ch: "current inp p0 = Some (Some ch)"
    using assms p0 lt by (auto simp: next_token_def bind_eq_Some_conv split: option.splits)
  show ?thesis
  proof (cases "is_alphanumeric ualnum ch \<or> ch = ''_''")
    case True
    have ne: "ch \<noteq> ''(''" "ch \<noteq> '')''" "ch \<noteq> ''-''" "ch \<noteq> [CHR 0x22]"
      using True is_alphanumeric_not_stop [OF True]
      by (auto simp: word_stop_def is_alphanumeric_def is_alnum_def is_digit_def is_upper_def
          is_lower_def byte_def)
    have "next_token ualnum inp p =
        do { (word, q) \<leftarrow> read_word inp p0; word_token inp word q }"
      using p0 lt ch ne True by (simp add: next_token_def)
    then obtain w q1 where w: "read_word inp p0 = Some (w, q1)"
      and wt: "word_token inp w q1 = Some (Some t, q)"
      using assms by (cases "read_word inp p0") auto
    have "p0 < q1" using read_word_progress [OF ch True w] .
    with word_token_mono [OF wt] have "p0 < q" by simp
    with p0 lt show ?thesis by simp
  next
    case False
    have "p0 < q"
      using assms p0 lt ch False
      by (auto simp: next_token_def bind_eq_Some_conv split: if_splits option.splits
          dest!: read_quoted_mono)
    with p0 lt show ?thesis by simp
  qed
qed

text \<open>\<open>Tokenizer::tokenize\<close>.\<close>

function tokenize_from :: "(string \<Rightarrow> bool) \<Rightarrow> string \<Rightarrow> nat \<Rightarrow> token list option" where
  "tokenize_from ualnum inp p =
     (case next_token ualnum inp p of
        None \<Rightarrow> None
      | Some (None, q) \<Rightarrow> Some []
      | Some (Some t, q) \<Rightarrow> map_option ((#) t) (tokenize_from ualnum inp q))"
  by pat_completeness auto
termination
  by (relation "measure (\<lambda>(_, inp, p). length inp - p)")
     (auto dest!: next_token_mono)

declare tokenize_from.simps [simp del]

definition tokenize :: "(string \<Rightarrow> bool) \<Rightarrow> string \<Rightarrow> token list option" where
  "tokenize ualnum inp = tokenize_from ualnum inp 0"

section \<open>When the tokenizer panics\<close>

definition ascii_str :: "string \<Rightarrow> bool" where
  "ascii_str s = (\<forall>c \<in> set s. is_ascii c)"

definition asc_upto :: "string \<Rightarrow> nat \<Rightarrow> bool" where
  "asc_upto inp p = (\<forall>i < p. i < length inp \<longrightarrow> is_ascii (inp ! i))"

lemma asc_upto_Suc: "asc_upto inp p \<Longrightarrow> is_ascii (inp ! p) \<Longrightarrow> asc_upto inp (Suc p)"
  by (auto simp: asc_upto_def less_Suc_eq)

lemma asc_upto_end: "asc_upto inp p \<Longrightarrow> length inp \<le> p \<Longrightarrow> ascii_str inp"
  by (auto simp: asc_upto_def ascii_str_def in_set_conv_nth)

lemma is_ascii_not_cont: "is_ascii c \<Longrightarrow> \<not> is_cont (u8_of_char c)"
  by (auto simp: is_cont_def word_ord_nat simp flip: u8_of_char_less)

lemma current_ascii:
  assumes "ascii_str inp" "p \<le> length inp"
  shows "current inp p = Some (if p = length inp then None else Some [inp ! p])"
proof (cases "p = length inp")
  case False
  with assms have p: "p < length inp" "is_ascii (inp ! p)"
    by (auto simp: ascii_str_def)
  then show ?thesis
    by (auto simp: current_def char_boundary_def char_width_def is_ascii_not_cont is_ascii_def
        take_Suc hd_drop_conv_nth)
qed (simp add: current_def char_boundary_def)

lemma current_ascii_Some: "ascii_str inp \<Longrightarrow> p \<le> length inp \<Longrightarrow> current inp p \<noteq> None"
  by (simp add: current_ascii)

text \<open>An advance by one byte over a non-ASCII character leaves no character boundary.\<close>

lemma current_after_wide:
  assumes v: "valid_utf8 (as_bytes inp)" and c: "current inp p = Some (Some ch)"
    and n: "\<not> is_ascii (inp ! p)"
  shows "current inp (Suc p) = None"
proof -
  have p: "p < length inp" using c by (rule current_Some_less)
  let ?bs = "as_bytes inp"
  have b: "?bs ! p = u8_of_char (inp ! p)" using p by (simp add: as_bytes_def)
  have hi: "0x80 \<le> ?bs ! p" using n u8_of_char_less [of "inp ! p"] b by (simp add: not_less)
  have "\<not> is_cont (?bs ! p)"
  proof (cases "p = 0")
    case True
    then show ?thesis
      using v p step_head_not_cont valid_utf8_uncons [OF v]
      by (metis as_bytes_Nil(2) as_str_as_bytes length_as_bytes less_numeral_extra(3) list.size(3) safe_get_in)
  next
    case False
    then show ?thesis using c p b by (auto simp: current_def char_boundary_def split: if_splits)
  qed
  with valid_utf8_lead_next [OF v _ hi] p
  have "Suc p < length inp" "is_cont (?bs ! Suc p)" by simp_all
  then show ?thesis by (simp add: current_def char_boundary_def as_bytes_def)
qed

lemma current_ascii_head:
  "current inp p = Some (Some ch) \<Longrightarrow> current inp (Suc p) \<noteq> None \<Longrightarrow>
   valid_utf8 (as_bytes inp) \<Longrightarrow> is_ascii (inp ! p)"
  by (metis current_after_wide)

lemma current_hd: "current inp p = Some (Some ch) \<Longrightarrow> hd ch = inp ! p"
  by (auto simp: current_def char_boundary_def char_width_def hd_drop_conv_nth hd_conv_nth
      split: if_splits)

lemma current_stop_ascii:
  "current inp p = Some (Some [c]) \<Longrightarrow> is_ascii c \<Longrightarrow> is_ascii (inp ! p)"
  using current_hd by fastforce

text \<open>On ASCII input every reader returns, at an offset inside the input.\<close>

lemma skip_whitespace_ascii:
  "ascii_str inp \<Longrightarrow> p \<le> length inp \<Longrightarrow> \<exists>q \<le> length inp. skip_whitespace inp p = Some q"
proof (induction inp p rule: skip_whitespace.induct)
  case (1 inp p)
  then show ?case
    by (subst skip_whitespace.simps) (auto simp: current_ascii)
qed

lemma word_end_ascii:
  "ascii_str inp \<Longrightarrow> p \<le> length inp \<Longrightarrow> \<exists>q \<le> length inp. word_end inp p = Some q"
proof (induction inp p rule: word_end.induct)
  case (1 inp p)
  then show ?case
    by (subst word_end.simps) (auto simp: current_ascii)
qed

lemma quoted_from_ascii:
  "ascii_str inp \<Longrightarrow> p \<le> length inp \<Longrightarrow> \<exists>v. \<exists>q \<le> length inp. quoted_from inp r p = Some (v, q)"
proof (induction inp r p rule: quoted_from.induct)
  case (1 inp r p)
  show ?case
  proof (cases "p = length inp")
    case True
    with 1(4) show ?thesis by (subst quoted_from.simps) (simp add: current_ascii)
  next
    case False
    with 1(5) have p: "p < length inp" by simp
    then have c: "current inp p = Some (Some [inp ! p])" using 1(4) by (simp add: current_ascii)
    show ?thesis
    proof (cases "Suc p = length inp")
      case True
      with c p 1 show ?thesis by (subst quoted_from.simps) (simp add: current_ascii)
    next
      case False
      with c p 1 show ?thesis by (subst quoted_from.simps) (simp add: current_ascii)
    qed
  qed
qed

lemma read_word_ascii:
  "ascii_str inp \<Longrightarrow> p \<le> length inp \<Longrightarrow> \<exists>w. \<exists>q \<le> length inp. read_word inp p = Some (w, q)"
  using word_end_ascii by (fastforce simp: read_word_def)

lemma read_value_ascii:
  assumes "ascii_str inp" "p \<le> length inp"
  shows "\<exists>v. \<exists>q \<le> length inp. read_value inp p = Some (v, q)"
proof -
  obtain p' where p': "p' \<le> length inp" "skip_whitespace inp p = Some p'"
    using skip_whitespace_ascii [OF assms] by blast
  show ?thesis
  proof (cases "current inp p' = Some (Some [CHR 0x22])")
    case True
    then have "p' + 1 \<le> length inp" using current_Some_less by fastforce
    with True p' assms(1) quoted_from_ascii [of inp "p' + 1" "[]"] show ?thesis
      by (simp add: read_value_def read_quoted_def)
  next
    case False
    with p' read_word_ascii [OF assms(1) p'(1)] show ?thesis
      by (auto simp: read_value_def current_ascii [OF assms(1) p'(1)] split: if_splits)
  qed
qed

lemma read_key_val_ascii:
  "ascii_str inp \<Longrightarrow> p < length inp \<Longrightarrow> \<exists>t. \<exists>q \<le> length inp. read_key_val inp key p = Some (t, q)"
proof (induction inp key p rule: read_key_val.induct)
  case (1 inp key p)
  note asc = "1.prems"(1)
  have c: "current inp p = Some (Some [inp ! p])" using "1.prems" by (simp add: current_ascii)
  have p1: "p + 1 \<le> length inp" using "1.prems" by simp
  obtain w q1 where w: "read_word inp (p + 1) = Some (w, q1)" "q1 \<le> length inp"
    using read_word_ascii [OF asc p1] by blast
  obtain s0 where s0: "skip_whitespace inp (p + 1) = Some s0" "s0 \<le> length inp"
    using skip_whitespace_ascii [OF asc p1] by blast
  obtain v0 q0 where v0: "read_value inp s0 = Some (v0, q0)" "q0 \<le> length inp"
    using read_value_ascii [OF asc s0(2)] by blast
  obtain s1 where s1: "skip_whitespace inp q1 = Some s1" "s1 \<le> length inp"
    using skip_whitespace_ascii [OF asc w(2)] by blast
  obtain v1 r1 where v1: "read_value inp s1 = Some (v1, r1)" "r1 \<le> length inp"
    using read_value_ascii [OF asc s1(2)] by blast
  show ?case
  proof (cases "inp ! p = CHR ''.''")
    case False
    with c s0 v0 show ?thesis by (subst read_key_val.simps) simp
  next
    case True
    show ?thesis
    proof (cases "op_of_suffix w")
      case (Some op)
      show ?thesis
      proof (cases "s1 < length inp \<and> inp ! s1 = CHR '':''")
        case True2: True
        then have "Suc s1 \<le> length inp" by simp
        then obtain s2 where s2: "skip_whitespace inp (Suc s1) = Some s2" "s2 \<le> length inp"
          using skip_whitespace_ascii [OF asc] by blast
        obtain v2 r2 where v2: "read_value inp s2 = Some (v2, r2)" "r2 \<le> length inp"
          using read_value_ascii [OF asc s2(2)] by blast
        have "current inp s1 = Some (Some '':'')"
          using True2 asc by (simp add: current_ascii)
        with c True w Some s1 s2 v2 show ?thesis by (subst read_key_val.simps) simp
      next
        case False
        then have "current inp s1 \<noteq> Some (Some '':'')" "current inp s1 \<noteq> None"
          using s1 asc by (auto simp: current_ascii)
        with c True w Some s1 v1 show ?thesis by (subst read_key_val.simps) auto
      qed
    next
      case None
      show ?thesis
      proof (cases "q1 < length inp \<and> (inp ! q1 = CHR ''.'' \<or> inp ! q1 = CHR '':'')")
        case True2: True
        then have c1: "current inp q1 = Some (Some [inp ! q1])"
          using asc by (simp add: current_ascii)
        have "\<exists>t. \<exists>q \<le> length inp. read_key_val inp (key @ ''.'' @ w) q1 = Some (t, q)"
          using True True2 by (intro "1.IH" [OF c _ w(1) refl None c1]) (auto simp: asc)
        with c True w None c1 True2 show ?thesis by (subst read_key_val.simps) auto
      next
        case False
        then have "current inp q1 \<noteq> None" "current inp q1 \<noteq> Some (Some ''.'')"
          "current inp q1 \<noteq> Some (Some '':'')"
          using w asc by (auto simp: current_ascii)
        with c True w None show ?thesis by (subst read_key_val.simps) auto
      qed
    qed
  qed
qed

lemma word_token_ascii:
  assumes "ascii_str inp" "q \<le> length inp"
  shows "\<exists>t. \<exists>r \<le> length inp. word_token inp w q = Some (Some t, r)"
  using assms read_key_val_ascii [of inp q w]
  by (auto simp: word_token_def Let_def current_ascii)

lemma next_token_ascii:
  assumes "ascii_str inp" "p \<le> length inp"
  shows "\<exists>r. \<exists>q \<le> length inp. next_token ualnum inp p = Some (r, q)"
proof -
  obtain p0 where p0: "skip_whitespace inp p = Some p0" "p0 \<le> length inp"
    using skip_whitespace_ascii [OF assms] by blast
  show ?thesis
  proof (cases "p0 = length inp")
    case True
    with p0 show ?thesis by (simp add: next_token_def)
  next
    case False
    with p0 have lt: "p0 < length inp" by simp
    have c: "current inp p0 = Some (Some [inp ! p0])"
      using lt assms(1) by (simp add: current_ascii)
    obtain v q where qd: "read_quoted inp p0 = Some (v, q)" "q \<le> length inp"
      using quoted_from_ascii [OF assms(1), of "p0 + 1" "[]"] lt by (auto simp: read_quoted_def)
    obtain w q1 where w: "read_word inp p0 = Some (w, q1)" "q1 \<le> length inp"
      using read_word_ascii [OF assms(1) p0(2)] by blast
    obtain t r where t: "word_token inp w q1 = Some (Some t, r)" "r \<le> length inp"
      using word_token_ascii [OF assms(1) w(2)] by blast
    show ?thesis
      using p0 lt c qd w t current_ascii [OF assms(1), of "p0 + 1"]
      by (simp add: next_token_def)
  qed
qed

lemma tokenize_from_ascii:
  "ascii_str inp \<Longrightarrow> p \<le> length inp \<Longrightarrow> tokenize_from ualnum inp p \<noteq> None"
proof (induction ualnum inp p rule: tokenize_from.induct)
  case (1 ualnum inp p)
  obtain r q where "next_token ualnum inp p = Some (r, q)" "q \<le> length inp"
    using next_token_ascii [OF "1.prems"] by blast
  with 1 show ?case by (subst tokenize_from.simps) (cases r; simp)
qed

text \<open>
  On any valid input a reader that returns has passed over ASCII characters only.
\<close>

lemma skip_whitespace_asc:
  "skip_whitespace inp p = Some q \<Longrightarrow> valid_utf8 (as_bytes inp) \<Longrightarrow> asc_upto inp p \<Longrightarrow> asc_upto inp q"
proof (induction inp p rule: skip_whitespace.induct)
  case (1 inp p)
  obtain c where c: "current inp p = Some c"
    using "1.prems" by (subst (asm) skip_whitespace.simps) (auto split: option.splits)
  show ?case
  proof (cases "\<exists>ch. c = Some ch \<and> is_ws ch")
    case True
    then obtain ch where ch: "current inp p = Some (Some ch)" "is_ws ch" using c by blast
    have rec: "skip_whitespace inp (p + 1) = Some q"
      using "1.prems" ch by (subst (asm) skip_whitespace.simps) simp
    then have "current inp (Suc p) \<noteq> None"
      by (subst (asm) skip_whitespace.simps) (auto split: option.splits)
    then have "is_ascii (inp ! p)" using current_ascii_head ch(1) "1.prems"(2) by blast
    then have "asc_upto inp (p + 1)" using asc_upto_Suc "1.prems"(3) by simp
    with "1.IH" [OF c _ ch(2) rec] ch c "1.prems"(2) show ?thesis by simp
  next
    case False
    with "1.prems" c show ?thesis
      by (subst (asm) skip_whitespace.simps) (auto split: option.splits)
  qed
qed

lemma word_end_asc:
  "word_end inp p = Some q \<Longrightarrow> valid_utf8 (as_bytes inp) \<Longrightarrow> asc_upto inp p \<Longrightarrow> asc_upto inp q"
proof (induction inp p rule: word_end.induct)
  case (1 inp p)
  obtain c where c: "current inp p = Some c"
    using "1.prems" by (subst (asm) word_end.simps) (auto split: option.splits)
  show ?case
  proof (cases "\<exists>ch. c = Some ch \<and> \<not> word_stop ch")
    case True
    then obtain ch where ch: "current inp p = Some (Some ch)" "\<not> word_stop ch" using c by blast
    have rec: "word_end inp (p + 1) = Some q"
      using "1.prems" ch by (subst (asm) word_end.simps) simp
    then have "current inp (Suc p) \<noteq> None"
      by (subst (asm) word_end.simps) (auto split: option.splits)
    then have "is_ascii (inp ! p)" using current_ascii_head ch(1) "1.prems"(2) by blast
    then have "asc_upto inp (p + 1)" using asc_upto_Suc "1.prems"(3) by simp
    with "1.IH" [OF c _ ch(2) rec] ch c "1.prems"(2) show ?thesis by simp
  next
    case False
    with "1.prems" c show ?thesis
      by (subst (asm) word_end.simps) (auto split: option.splits if_splits)
  qed
qed

lemma quoted_from_current: "quoted_from inp r p = Some x \<Longrightarrow> current inp p \<noteq> None"
  by (subst (asm) quoted_from.simps) (auto split: option.splits)

lemma quoted_from_asc:
  "quoted_from inp r p = Some (v, q) \<Longrightarrow> valid_utf8 (as_bytes inp) \<Longrightarrow> asc_upto inp p \<Longrightarrow> asc_upto inp q"
proof (induction inp r p rule: quoted_from.induct)
  case (1 inp r p)
  note v = "1.prems"(2)
  obtain c where c: "current inp p = Some c"
    using quoted_from_current [OF "1.prems"(1)] by auto
  show ?case
  proof (cases c)
    case None
    with "1.prems" c show ?thesis by (subst (asm) quoted_from.simps) simp
  next
    case (Some ch)
    with c have ch: "current inp p = Some (Some ch)" by simp
    have step: "asc_upto inp (Suc p)" if "current inp (Suc p) \<noteq> None"
      using asc_upto_Suc "1.prems"(3) current_ascii_head [OF ch that v] by blast
    consider "ch = [CHR 0x22]" | "ch = [CHR 0x5C]" | "ch \<noteq> [CHR 0x22]" "ch \<noteq> [CHR 0x5C]" by blast
    then show ?thesis
    proof cases
      case 1
      have "is_ascii (inp ! p)" using ch 1 current_stop_ascii by (auto simp: is_ascii_def byte_def)
      with 1 ch "1.prems" show ?thesis
        by (subst (asm) quoted_from.simps) (auto intro: asc_upto_Suc)
    next
      case 2
      then have ne: "ch \<noteq> [CHR 0x22]" by simp
      obtain c' where c': "current inp (p + 1) = Some c'"
        using "1.prems"(1) ch 2 by (subst (asm) quoted_from.simps) (auto split: option.splits)
      have a1: "asc_upto inp (p + 1)" using step c' by simp
      show ?thesis
      proof (cases c')
        case None
        have "quoted_from inp r (p + 1) = Some (v, q)"
          using "1.prems"(1) ch 2 c' None by (subst (asm) quoted_from.simps) simp
        from "1.IH"(1) [OF c Some ne 2 c' None this v a1] show ?thesis .
      next
        case (Some nxt)
        have rec: "quoted_from inp (r @ nxt) (p + 2) = Some (v, q)"
          using "1.prems"(1) ch 2 c' Some by (subst (asm) quoted_from.simps) simp
        have "current inp (Suc (Suc p)) \<noteq> None" using quoted_from_current [OF rec] by simp
        then have "is_ascii (inp ! Suc p)"
          using current_ascii_head [of inp "Suc p" nxt] c' Some v by simp
        then have "asc_upto inp (p + 2)" using asc_upto_Suc a1 by simp
        from "1.IH"(2) [OF c \<open>c = Some ch\<close> ne 2 c' Some rec v this] show ?thesis .
      qed
    next
      case 3
      have rec: "quoted_from inp (r @ ch) (p + 1) = Some (v, q)"
        using "1.prems"(1) ch 3 by (subst (asm) quoted_from.simps) simp
      have "asc_upto inp (p + 1)" using step quoted_from_current [OF rec] by simp
      from "1.IH"(3) [OF c Some 3 rec v this] show ?thesis .
    qed
  qed
qed

lemma read_word_asc:
  "read_word inp p = Some (w, q) \<Longrightarrow> valid_utf8 (as_bytes inp) \<Longrightarrow> asc_upto inp p \<Longrightarrow> asc_upto inp q"
  by (auto simp: read_word_def split: option.splits dest: word_end_asc)

lemma asc_upto_stop:
  "current inp p = Some (Some [c]) \<Longrightarrow> is_ascii c \<Longrightarrow> asc_upto inp p \<Longrightarrow> asc_upto inp (Suc p)"
  using asc_upto_Suc current_stop_ascii by blast

lemma is_ascii_marks: "is_ascii (CHR ''.'')" "is_ascii (CHR '':'')" "is_ascii (CHR 0x22)"
  "is_ascii (CHR ''('')" "is_ascii (CHR '')'')" "is_ascii (CHR ''-'')"
  by (simp_all add: is_ascii_def byte_def)

lemma read_value_asc:
  assumes "read_value inp p = Some (v, q)" "valid_utf8 (as_bytes inp)" "asc_upto inp p"
  shows "asc_upto inp q"
proof -
  obtain p' c where p': "skip_whitespace inp p = Some p'" "current inp p' = Some c"
    using assms(1) by (auto simp: read_value_def split: option.splits)
  then have a: "asc_upto inp p'" using skip_whitespace_asc assms by blast
  show ?thesis
  proof (cases "c = Some [CHR 0x22]")
    case True
    then have "asc_upto inp (p' + 1)" using asc_upto_stop p'(2) a is_ascii_marks by simp
    with True p' assms quoted_from_asc show ?thesis
      by (auto simp: read_value_def read_quoted_def)
  next
    case False
    with p' assms a read_word_asc show ?thesis by (auto simp: read_value_def)
  qed
qed

lemma read_key_val_asc:
  "read_key_val inp key p = Some (t, q) \<Longrightarrow> valid_utf8 (as_bytes inp) \<Longrightarrow> asc_upto inp p \<Longrightarrow>
   current inp p = Some (Some '':'') \<or> current inp p = Some (Some ''.'') \<Longrightarrow> asc_upto inp q"
proof (induction inp key p rule: read_key_val.induct)
  case (1 inp key p)
  note v = "1.prems"(2) and a = "1.prems"(3)
  obtain c where c: "current inp p = Some c" using "1.prems"(4) by auto
  have a1: "asc_upto inp (p + 1)"
    using "1.prems"(4) asc_upto_stop [OF _ _ a] is_ascii_marks by auto
  show ?case
  proof (cases "c = Some ''.''")
    case False
    then obtain p1 where "skip_whitespace inp (p + 1) = Some p1" "read_value inp p1 = Some (snd (case t of KeyVal k d x \<Rightarrow> ((k, d), x) | _ \<Rightarrow> (([], Default), [])), q)"
      using "1.prems"(1) c by (subst (asm) read_key_val.simps) (auto simp: bind_eq_Some_conv)
    then show ?thesis using skip_whitespace_asc read_value_asc v a1 by blast
  next
    case True
    obtain suf p1 where w: "read_word inp (p + 1) = Some (suf, p1)"
      using "1.prems"(1) c True by (subst (asm) read_key_val.simps) (auto simp: bind_eq_Some_conv)
    have a2: "asc_upto inp p1" using read_word_asc [OF w v a1] .
    show ?thesis
    proof (cases "op_of_suffix suf")
      case (Some op)
      obtain p2 c2 p3 x where st: "skip_whitespace inp p1 = Some p2" "current inp p2 = Some c2"
        "(if c2 = Some '':'' then skip_whitespace inp (p2 + 1) else Some p2) = Some p3"
        "read_value inp p3 = Some (x, q)"
        using "1.prems"(1) c True w Some
        by (subst (asm) read_key_val.simps) (auto simp: bind_eq_Some_conv)
      have a3: "asc_upto inp p2" using skip_whitespace_asc [OF st(1) v a2] .
      have "asc_upto inp p3"
      proof (cases "c2 = Some '':''")
        case True
        then have "asc_upto inp (p2 + 1)" using asc_upto_stop st(2) a3 is_ascii_marks by simp
        with True st(3) skip_whitespace_asc v show ?thesis by simp
      qed (use st(3) a3 in simp)
      with st(4) read_value_asc v show ?thesis by blast
    next
      case None
      obtain c1 where c1: "current inp p1 = Some c1"
        using "1.prems"(1) c True w None
        by (subst (asm) read_key_val.simps) (auto simp: bind_eq_Some_conv)
      show ?thesis
      proof (cases "c1 = Some ''.'' \<or> c1 = Some '':''")
        case True2: True
        have rec: "read_key_val inp (key @ ''.'' @ suf) p1 = Some (t, q)"
          using "1.prems"(1) c True w None c1 True2 by (subst (asm) read_key_val.simps) auto
        have "current inp p1 = Some (Some '':'') \<or> current inp p1 = Some (Some ''.'')"
          using c1 True2 by auto
        from "1.IH" [OF c True w refl None c1 True2 rec v a2 this] show ?thesis .
      next
        case False
        then show ?thesis
          using "1.prems"(1) c True w None c1 a2 by (subst (asm) read_key_val.simps) auto
      qed
    qed
  qed
qed

lemma word_token_asc:
  assumes "word_token inp w p = Some (t, q)" "valid_utf8 (as_bytes inp)" "asc_upto inp p"
  shows "asc_upto inp q"
  using assms read_key_val_asc
  by (auto simp: word_token_def Let_def bind_eq_Some_conv split: if_splits)

lemma next_token_asc:
  assumes "next_token ualnum inp p = Some (t, q)" "valid_utf8 (as_bytes inp)" "asc_upto inp p"
  shows "asc_upto inp q \<or> current inp q = None"
proof -
  note v = assms(2)
  obtain p0 where p0: "skip_whitespace inp p = Some p0"
    using assms by (auto simp: next_token_def bind_eq_Some_conv)
  then have a0: "asc_upto inp p0" using skip_whitespace_asc v assms(3) by blast
  obtain c where c: "current inp p0 = Some c" using p0 skip_whitespace_mono by blast
  show ?thesis
  proof (cases "length inp \<le> p0 \<or> c = None")
    case True
    with assms(1) p0 c a0 show ?thesis by (auto simp: next_token_def split: if_splits)
  next
    case False
    then obtain ch where ch: "current inp p0 = Some (Some ch)" and lt: "p0 < length inp"
      using c by auto
    have adv: "asc_upto inp (Suc p0) \<or> current inp (Suc p0) = None"
      using asc_upto_Suc [OF a0] current_ascii_head [OF ch _ v] by blast
    consider (one) "q = Suc p0" | (quo) "\<exists>x. read_quoted inp p0 = Some (x, q)" "ch = [CHR 0x22]"
      | (word) "\<exists>w q1. read_word inp p0 = Some (w, q1) \<and> word_token inp w q1 = Some (t, q)"
      using assms(1) p0 ch lt
      by (auto simp: next_token_def bind_eq_Some_conv split: if_splits option.splits)
    then show ?thesis
    proof cases
      case one
      with adv show ?thesis by simp
    next
      case quo
      then have "asc_upto inp (p0 + 1)" using asc_upto_stop ch a0 is_ascii_marks by simp
      with quo quoted_from_asc v show ?thesis by (auto simp: read_quoted_def)
    next
      case word
      with read_word_asc word_token_asc v a0 show ?thesis by blast
    qed
  qed
qed

lemma next_token_current: "next_token ualnum inp p = Some x \<Longrightarrow> current inp p \<noteq> None"
  by (auto simp: next_token_def bind_eq_Some_conv skip_whitespace.simps [of inp p]
      split: option.splits)

lemma word_token_not_None: "word_token inp w p \<noteq> Some (None, q)"
  by (auto simp: word_token_def Let_def bind_eq_Some_conv split: if_splits)

lemma next_token_end:
  assumes "next_token ualnum inp p = Some (None, q)"
  shows "skip_whitespace inp p = Some q \<and> length inp \<le> q"
proof -
  obtain p0 where p0: "skip_whitespace inp p = Some p0"
    using assms by (auto simp: next_token_def bind_eq_Some_conv)
  have "length inp \<le> p0"
  proof (rule ccontr)
    assume "\<not> length inp \<le> p0"
    moreover from this obtain ch where "current inp p0 = Some (Some ch)"
      using skip_whitespace_mono [OF p0] by (auto simp: current_def split: if_splits)
    ultimately show False
      using assms p0 word_token_not_None
      by (auto simp: next_token_def bind_eq_Some_conv split: if_splits option.splits)
  qed
  with assms p0 show ?thesis by (simp add: next_token_def)
qed

lemma tokenize_from_asc:
  "tokenize_from ualnum inp p = Some ts \<Longrightarrow> valid_utf8 (as_bytes inp) \<Longrightarrow>
   asc_upto inp p \<or> current inp p = None \<Longrightarrow> ascii_str inp"
proof (induction ualnum inp p arbitrary: ts rule: tokenize_from.induct)
  case (1 ualnum inp p)
  obtain t q where n: "next_token ualnum inp p = Some (t, q)"
    using "1.prems"(1) by (subst (asm) tokenize_from.simps) (auto split: option.splits)
  have a: "asc_upto inp p" using "1.prems"(3) next_token_current [OF n] by blast
  show ?case
  proof (cases t)
    case None
    with n next_token_end have "skip_whitespace inp p = Some q" "length inp \<le> q" by auto
    then have "asc_upto inp q \<and> length inp \<le> q" using skip_whitespace_asc "1.prems"(2) a by blast
    then show ?thesis using asc_upto_end by blast
  next
    case (Some tok)
    then obtain ts' where "tokenize_from ualnum inp q = Some ts'"
      using "1.prems"(1) n by (subst (asm) tokenize_from.simps) auto
    with "1.IH" [OF n refl Some] next_token_asc [OF n "1.prems"(2) a] "1.prems"(2)
    show ?thesis by blast
  qed
qed

lemma tokenize_None_iff:
  assumes "valid_utf8 (as_bytes inp)"
  shows "tokenize ualnum inp = None \<longleftrightarrow> \<not> ascii_str inp"
proof
  assume "tokenize ualnum inp = None"
  then show "\<not> ascii_str inp" using tokenize_from_ascii [of inp 0 ualnum] by (auto simp: tokenize_def)
next
  assume "\<not> ascii_str inp"
  then show "tokenize ualnum inp = None"
    using tokenize_from_asc [OF _ assms, of ualnum 0]
    by (cases "tokenize_from ualnum inp 0") (auto simp: tokenize_def asc_upto_def)
qed

text \<open>
  C33. The tokenizer panics exactly on the queries that contain a non-ASCII character: it advances
  by one byte over every character, and the next slice is not at a character boundary.
\<close>

theorem tokenize_panics_iff:
  assumes "valid_utf8 (as_bytes inp)"
  shows "tokenize ualnum inp = None \<longleftrightarrow> \<not> ascii_str inp"
  using assms by (rule tokenize_None_iff)

theorem tokenize_panics_iff_witness:
  "valid_utf8 (as_bytes (''tag:'' @ as_str [0xC3, 0xA9])) \<and>
   tokenize (\<lambda>_. True) (''tag:'' @ as_str [0xC3, 0xA9]) = None"
proof -
  have v: "valid_utf8 (as_bytes (''tag:'' @ as_str [0xC3, 0xA9]))" by code_simp
  have "\<not> ascii_str (''tag:'' @ as_str [0xC3, 0xA9])" by code_simp
  with tokenize_panics_iff [OF v, of "\<lambda>_. True"] v show ?thesis by blast
qed

end
