(* ===== verification/Tech.thy ===== *)
theory Tech
  imports QueryLex TextProbes Http
begin

text \<open>
  Technology detection from response headers and the page, \<open>crates/scanerr-fingerprint/src/tech.rs\<close>.
  The result is a list of tags, or a panic where a slice leaves the page: offsets are taken from the
  lower-case text and used on the original.  The lower-case and alphanumeric tables of Unicode are
  parameters.
\<close>

definition push_unique :: "string list \<Rightarrow> string \<Rightarrow> string list" where
  "push_unique out tag = (if list_ex (\<lambda>t. eq_ignore_ascii_case t tag) out then out else out @ [tag])"

definition find_char :: "(char \<Rightarrow> bool) \<Rightarrow> string \<Rightarrow> nat option" where
  "find_char P s =
     (let n = length (takeWhile (\<lambda>c. \<not> P c) s) in if n < length s then Some n else None)"

text \<open>\<open>chars().take_while(alphanumeric, '.' or '_')\<close>.\<close>

function take_ver :: "(string \<Rightarrow> bool) \<Rightarrow> string \<Rightarrow> string" where
  "take_ver ualnum s =
     (if s = [] then []
      else (let k = char_width (hd s); ch = take k s
            in if is_alphanumeric ualnum ch \<or> ch = ''.'' \<or> ch = ''_''
               then ch @ take_ver ualnum (drop k s) else []))"
  by pat_completeness auto
termination
  by (relation "measure (\<lambda>(_, s). length s)") (auto simp: char_width_def split: if_splits)

declare take_ver.simps [simp del]

definition good_version :: "string \<Rightarrow> bool" where
  "good_version ver = (ver \<noteq> [] \<and> length ver < 20)"

definition version_after_pattern ::
  "(string \<Rightarrow> string) \<Rightarrow> (string \<Rightarrow> bool) \<Rightarrow> string \<Rightarrow> string \<Rightarrow> string \<Rightarrow> string option outcome" where
  "version_after_pattern lc ualnum body name pattern =
     (case find_sub (to_lowercase lc body) (to_lowercase lc pattern) of
        None \<Rightarrow> Ok None
      | Some pos \<Rightarrow>
          bind_outcome (slice_from body (pos + length name)) (\<lambda>after.
            (case find_char (\<lambda>c. c = CHR ''/'' \<or> c = CHR ''-'' \<or> c = CHR ''.'') (to_lowercase lc after) of
               None \<Rightarrow> Ok None
             | Some vs \<Rightarrow>
                 bind_outcome (slice_from after (vs + 1)) (\<lambda>ver_str.
                   (let ver = take_ver ualnum ver_str
                    in Ok (if good_version ver then Some ver else None))))))"

definition version_after_query ::
  "(string \<Rightarrow> string) \<Rightarrow> (string \<Rightarrow> bool) \<Rightarrow> string \<Rightarrow> string \<Rightarrow> string option outcome" where
  "version_after_query lc ualnum body name =
     (case find_sub (to_lowercase lc body) (name @ ''?'') of
        None \<Rightarrow> Ok None
      | Some qpos \<Rightarrow>
          bind_outcome (slice_from body qpos) (\<lambda>after.
            (case find_sub (to_lowercase lc after) ''ver='' of
               None \<Rightarrow> Ok None
             | Some verpos \<Rightarrow>
                 bind_outcome (slice_from after (verpos + 4)) (\<lambda>ver_str.
                   (let ver = take_ver ualnum ver_str
                    in Ok (if good_version ver then Some ver else None))))))"

definition extract_version_from ::
  "(string \<Rightarrow> string) \<Rightarrow> (string \<Rightarrow> bool) \<Rightarrow> string \<Rightarrow> string \<Rightarrow> string \<Rightarrow> string option outcome" where
  "extract_version_from lc ualnum body name pattern =
     bind_outcome (version_after_pattern lc ualnum body name pattern) (\<lambda>v.
       (case v of Some ver \<Rightarrow> Ok (Some ver) | None \<Rightarrow> version_after_query lc ualnum body name))"

text \<open>
  The four libraries that are tagged by a marker in the page, with the version if one is found.
\<close>

definition library_tag ::
  "(string \<Rightarrow> string) \<Rightarrow> (string \<Rightarrow> bool) \<Rightarrow> string \<Rightarrow> string list \<Rightarrow> string \<Rightarrow> string \<Rightarrow> string list \<Rightarrow>
   string list outcome"
where
  "library_tag lc ualnum body markers name title out =
     (if list_ex (contains_sub body) markers then
        bind_outcome (extract_version_from lc ualnum body name (name @ ''[/.]'')) (\<lambda>v.
          Ok (push_unique out (case v of Some ver \<Rightarrow> title @ ''/'' @ ver | None \<Rightarrow> title)))
      else Ok out)"

definition detect_versions_from_body ::
  "(string \<Rightarrow> string) \<Rightarrow> (string \<Rightarrow> bool) \<Rightarrow> string \<Rightarrow> string list \<Rightarrow> string list outcome" where
  "detect_versions_from_body lc ualnum body out =
     bind_outcome (extract_version_from lc ualnum body ''jquery'' ''jquery[/.]'') (\<lambda>v.
     bind_outcome (Ok (case v of Some ver \<Rightarrow> push_unique out (''jQuery/'' @ ver) | None \<Rightarrow> out)) (\<lambda>out.
     bind_outcome (library_tag lc ualnum body [''bootstrap.min.css'', ''bootstrap.min.js'']
                     ''bootstrap'' ''Bootstrap'' out) (\<lambda>out.
     bind_outcome (library_tag lc ualnum body [''react.min.js'', ''react.production.min.js'', ''__REACT'']
                     ''react'' ''React'' out) (\<lambda>out.
     bind_outcome (library_tag lc ualnum body [''vue.min.js'', ''vue.js'', ''data-v-'']
                     ''vue'' ''Vue.js'' out) (\<lambda>out.
     library_tag lc ualnum body [''angular.min.js'', ''ng-app'', ''ng-controller'']
                     ''angular'' ''Angular'' out)))))"

text \<open>The part before the first slash and the trimmed part after it.\<close>

definition name_version :: "string \<Rightarrow> string \<times> string option" where
  "name_version s =
     (case find_sub s ''/'' of
        Some pos \<Rightarrow> (take pos s, Some (trim (drop (pos + 1) s)))
      | None \<Rightarrow> (s, None))"

definition product_tag :: "string \<Rightarrow> string option \<Rightarrow> string" where
  "product_tag name ver = (case ver of Some v \<Rightarrow> name @ ''/'' @ v | None \<Rightarrow> name)"

definition parse_server_header :: "(string \<Rightarrow> string) \<Rightarrow> string \<Rightarrow> string list \<Rightarrow> string list" where
  "parse_server_header lc server out =
     (let (name, ver) = name_version server; name = trim name
      in if name = [] then out
         else if to_lowercase lc name \<in> set [''webs'', ''httpd'', ''web'', ''server''] then out
         else push_unique out (product_tag name ver))"

definition parse_powered_by :: "string \<Rightarrow> string list \<Rightarrow> string list" where
  "parse_powered_by val out =
     (let (name, ver) = name_version (trim val); name = trim name
      in if name = [] then out else push_unique out (product_tag name ver))"

definition detect ::
  "(string \<Rightarrow> string) \<Rightarrow> (string \<Rightarrow> bool) \<Rightarrow> (string \<times> json) list \<Rightarrow> string \<Rightarrow> string list outcome" where
  "detect lc ualnum headers body =
     (let tags = (case header_str headers ''server'' of
                    Some server \<Rightarrow> parse_server_header lc server [] | None \<Rightarrow> []);
          tags = (case header_str headers ''x-powered-by'' of
                    Some powered \<Rightarrow> parse_powered_by powered tags | None \<Rightarrow> tags);
          tags = (if header_str headers ''x-aspnet-version'' \<noteq> None \<or>
                     header_str headers ''x-aspnetmvc-version'' \<noteq> None
                  then push_unique tags ''ASP.NET'' else tags)
      in detect_versions_from_body lc ualnum body tags)"

section \<open>Properties\<close>

text \<open>No tag is added twice, whatever its case.\<close>

definition tags_distinct :: "string list \<Rightarrow> bool" where
  "tags_distinct tags = distinct (map (map ascii_lower) tags)"

lemma push_unique_distinct: "tags_distinct out \<Longrightarrow> tags_distinct (push_unique out tag)"
  by (auto simp: tags_distinct_def push_unique_def eq_ignore_ascii_case_def list_ex_iff)

lemma library_tag_distinct:
  "tags_distinct out \<Longrightarrow> library_tag lc ua body ms n t out = Ok out' \<Longrightarrow> tags_distinct out'"
  by (auto simp: library_tag_def push_unique_distinct split: if_splits)

lemma body_distinct:
  assumes "tags_distinct out" "detect_versions_from_body lc ualnum body out = Ok tags"
  shows "tags_distinct tags"
proof -
  obtain v o1 o2 o3 ms1 ms2 ms3 ms4 n1 n2 n3 n4 t1 t2 t3 t4 where
    l: "library_tag lc ualnum body ms1 n1 t1
          (case v of Some ver \<Rightarrow> push_unique out (''jQuery/'' @ ver) | None \<Rightarrow> out) = Ok o1"
       "library_tag lc ualnum body ms2 n2 t2 o1 = Ok o2"
       "library_tag lc ualnum body ms3 n3 t3 o2 = Ok o3"
       "library_tag lc ualnum body ms4 n4 t4 o3 = Ok tags"
    using assms(2) unfolding detect_versions_from_body_def bind_outcome_Ok outcome.inject by metis
  have "tags_distinct (case v of Some ver \<Rightarrow> push_unique out (''jQuery/'' @ ver) | None \<Rightarrow> out)"
    using assms(1) push_unique_distinct by (cases v) simp_all
  then show ?thesis using l library_tag_distinct by metis
qed

text \<open>
  Technology detection returns no tag twice, up to ASCII case.
\<close>

theorem detect_distinct:
  assumes "detect lc ualnum headers body = Ok tags"
  shows "tags_distinct tags"
proof -
  have e: "tags_distinct []" by (simp add: tags_distinct_def)
  have s: "tags_distinct out \<Longrightarrow> tags_distinct (parse_server_header lc v out)"
    "tags_distinct out \<Longrightarrow> tags_distinct (parse_powered_by v out)" for v out
    by (simp_all add: parse_server_header_def parse_powered_by_def Let_def case_prod_beta
        push_unique_distinct)
  let ?a = "case header_str headers ''server'' of
              Some server \<Rightarrow> parse_server_header lc server [] | None \<Rightarrow> []"
  let ?b = "case header_str headers ''x-powered-by'' of
              Some powered \<Rightarrow> parse_powered_by powered ?a | None \<Rightarrow> ?a"
  let ?c = "if header_str headers ''x-aspnet-version'' \<noteq> None \<or>
               header_str headers ''x-aspnetmvc-version'' \<noteq> None
            then push_unique ?b ''ASP.NET'' else ?b"
  have "tags_distinct ?a" using e s(1) by (simp split: option.split)
  then have "tags_distinct ?b" using s(2) by (simp split: option.split)
  then have "tags_distinct ?c" by (simp add: push_unique_distinct)
  moreover have "detect_versions_from_body lc ualnum body ?c = Ok tags"
    using assms unfolding detect_def Let_def .
  ultimately show ?thesis by (rule body_distinct)
qed

theorem detect_distinct_witness:
  "tags_distinct [''nginx/1.2'', ''PHP/8'']"
proof (rule detect_distinct [of id "\<lambda>c. False" "[(''server'', JStr ''nginx/1.2''), (''x-powered-by'', JStr ''PHP/8'')]" "[]"])
  show "detect id (\<lambda>c. False) [(''server'', JStr ''nginx/1.2''), (''x-powered-by'', JStr ''PHP/8'')] [] =
      Ok [''nginx/1.2'', ''PHP/8'']" by code_simp
qed

text \<open>Whether a page carries the literal text the version search looks for.\<close>

definition searched_text :: "(string \<Rightarrow> string) \<Rightarrow> string \<Rightarrow> string \<Rightarrow> bool" where
  "searched_text lc body name =
     (contains_sub (to_lowercase lc body) (name @ ''[/.]'') \<or>
      contains_sub (to_lowercase lc body) (name @ ''?''))"

definition libraries :: "string list" where
  "libraries = [''jquery'', ''bootstrap'', ''react'', ''vue'', ''angular'']"

definition mark :: "string \<Rightarrow> string list \<Rightarrow> string \<Rightarrow> string list \<Rightarrow> string list" where
  "mark body markers title out =
     (if list_ex (contains_sub body) markers then push_unique out title else out)"

lemma no_version:
  assumes "\<not> searched_text lc body name" "name \<in> set libraries"
  shows "extract_version_from lc ua body name (name @ ''[/.]'') = Ok None"
proof -
  have "list_all (\<lambda>n. list_all is_ascii (n @ ''[/.]'') \<and> map ascii_lower (n @ ''[/.]'') = n @ ''[/.]'') libraries"
    by code_simp
  then have "to_lowercase lc (name @ ''[/.]'') = name @ ''[/.]''"
    using assms(2) by (simp add: list_all_iff to_lowercase_def)
  then show ?thesis
    using assms(1)
    by (simp add: extract_version_from_def version_after_pattern_def version_after_query_def
        searched_text_def contains_sub_def)
qed

text \<open>
  The version patterns are searched as literal text: on every page without the text \<open>jquery[/.]\<close> or
  \<open>jquery?\<close>, and likewise for the other libraries, no version is reported, jQuery is not reported at
  all and the others are reported without a version.
\<close>

theorem version_patterns_are_literal:
  assumes "list_all (\<lambda>name. \<not> searched_text lc body name) libraries"
  shows "detect_versions_from_body lc ualnum body out =
     Ok (mark body [''angular.min.js'', ''ng-app'', ''ng-controller''] ''Angular''
        (mark body [''vue.min.js'', ''vue.js'', ''data-v-''] ''Vue.js''
        (mark body [''react.min.js'', ''react.production.min.js'', ''__REACT''] ''React''
        (mark body [''bootstrap.min.css'', ''bootstrap.min.js''] ''Bootstrap'' out))))"
proof -
  have n: "extract_version_from lc ualnum body name (name @ ''[/.]'') = Ok None"
    if "name \<in> set libraries" for name
    using assms that by (intro no_version) (simp_all add: list_all_iff)
  have l: "library_tag lc ualnum body ms name title o1 = Ok (mark body ms title o1)"
    if "name \<in> set libraries" for name ms title o1
    using n [OF that] by (simp add: library_tag_def mark_def)
  have j: "extract_version_from lc ualnum body ''jquery'' ''jquery[/.]'' = Ok None"
    using n [of "''jquery''"] by (simp add: libraries_def)
  show ?thesis by (simp add: detect_versions_from_body_def j l libraries_def)
qed

definition demo_page :: string where
  "demo_page = ''<script src=/jquery-3.6.0.min.js></script><link href=/bootstrap/5.1.3/bootstrap.min.css>''"

theorem version_patterns_are_literal_witness:
  "detect_versions_from_body id (\<lambda>c. False) demo_page [] = Ok [''Bootstrap'']"
proof -
  have a: "list_all (\<lambda>name. \<not> searched_text id demo_page name) libraries" by code_simp
  have "mark demo_page [''angular.min.js'', ''ng-app'', ''ng-controller''] ''Angular''
        (mark demo_page [''vue.min.js'', ''vue.js'', ''data-v-''] ''Vue.js''
        (mark demo_page [''react.min.js'', ''react.production.min.js'', ''__REACT''] ''React''
        (mark demo_page [''bootstrap.min.css'', ''bootstrap.min.js''] ''Bootstrap'' []))) = [''Bootstrap'']"
    by code_simp
  then show ?thesis by (simp add: version_patterns_are_literal [OF a])
qed

end
