(* ===== verification/Normalize.thy ===== *)
theory Normalize
  imports Models
begin

text \<open>
  \<open>src/normalize.rs\<close>: canonical kinds, product slugs and category tags, and the keyset-paginated
  maintenance pass that both \<open>backfill\<close> and \<open>src/reidentify.rs\<close> run over the services table.
  The lemmas: every normal form is a fixed point, stated once for all of them in the locale
  \<open>normalizer\<close>; the tags are a sorted, duplicate-free selection of the allow-list; and a
  pass visits every selected row exactly once, whatever the page size.
\<close>

section \<open>Kinds\<close>

definition canonical_kind :: "string \<Rightarrow> string" where
  "canonical_kind k = (if k = ''https'' then ''http'' else if k = ''camera'' then ''http'' else k)"

definition kind_category :: "string \<Rightarrow> string option" where
  "kind_category k =
     (if k = ''http'' then Some ''web''
      else if k \<in> {''ssh'', ''telnet''} then Some ''remote-access''
      else if k = ''ftp'' then Some ''file-transfer''
      else if k \<in> {''smtp'', ''imap'', ''pop3''} then Some ''mail''
      else if k = ''mysql'' then Some ''database''
      else if k = ''mqtt'' then Some ''iot''
      else if k = ''pptp'' then Some ''vpn''
      else if k = ''sccp'' then Some ''voip''
      else if k \<in> {''mikrotik'', ''bgp''} then Some ''networking''
      else if k = ''rtsp'' then Some ''camera''
      else None)"

section \<open>Products\<close>

definition product_overrides :: "(string \<times> string) list" where
  "product_overrides =
     [(''OpenSSH'', ''openssh''), (''nginx'', ''nginx''), (''Apache httpd'', ''apache''),
      (''Microsoft IIS'', ''iis''), (''LiteSpeed'', ''litespeed''), (''MikroTik'', ''mikrotik''),
      (''MikroTik RouterOS'', ''mikrotik''), (''MikroTik EQUINIX SO1 CORE'', ''mikrotik''),
      (''MariaDB'', ''mariadb''), (''MySQL'', ''mysql''), (''Google Web Server'', ''gws''),
      (''Amazon CloudFront'', ''cloudfront''), (''Nginx Proxy Manager'', ''nginx-proxy-manager''),
      (''UniFi OS'', ''unifi-os''), (''SIGPLUS'', ''sigplus''), (''XAMPP'', ''xampp''),
      (''Nextcloud'', ''nextcloud''), (''Pritunl'', ''pritunl''),
      (''BigBlueButton'', ''bigbluebutton''), (''MOBOTIX Camera'', ''mobotix''),
      (''Wazuh'', ''wazuh''), (''Cacti'', ''cacti''), (''Nagios'', ''nagios''), (''BGP'', ''bgp''),
      (''Cloudflare'', ''cloudflare''), (''Sucuri'', ''sucuri'')]"

definition product_override :: "string \<Rightarrow> string option" where
  "product_override raw = map_of product_overrides raw"

text \<open>The loop of \<open>slugify\<close> on the bytes: a non-ASCII byte is dropped like any other character.\<close>

fun slug_loop :: "string \<Rightarrow> bool \<Rightarrow> string \<Rightarrow> string" where
  "slug_loop out dash [] = out"
| "slug_loop out dash (c # s) =
     (let l = ascii_lower c
      in if is_alnum l then slug_loop (out @ [l]) False s
         else if l = CHR '' '' \<or> l = CHR ''_'' \<or> l = CHR ''-'' then
           (if \<not> dash \<and> \<not> (out \<noteq> [] \<and> last out = CHR ''-'')
            then slug_loop (out @ [CHR ''-'']) True s
            else slug_loop out dash s)
         else slug_loop out dash s)"

definition slugify :: "string \<Rightarrow> string" where
  "slugify s = trim_matches (CHR ''-'') (slug_loop [] False s)"

definition canonical_product :: "string \<Rightarrow> string" where
  "canonical_product raw = (case product_override raw of Some c \<Rightarrow> c | None \<Rightarrow> slugify raw)"

section \<open>Tags\<close>

definition ALLOWED_TAGS :: "string list" where
  "ALLOWED_TAGS =
     [''web'', ''mail'', ''camera'', ''surveillance'', ''iot'', ''networking'', ''vpn'',
      ''security'', ''monitoring'', ''remote-access'', ''file-transfer'', ''database'', ''voip'',
      ''erp'', ''cms'', ''cdn'', ''waf'', ''proxy'', ''storage'', ''cloud'', ''hosting'',
      ''self-hosted'', ''media'', ''streaming'', ''conferencing'', ''gaming'', ''rss'',
      ''analytics'', ''development'', ''framework'', ''php'', ''javascript'',
      ''government'', ''pki'', ''isp'', ''billing'', ''helpdesk'', ''ticketing'',
      ''dashboard'', ''api-gateway'', ''reverse-proxy'', ''discovery'', ''gps'',
      ''tracking'', ''fleet-management'', ''mesh'', ''power'', ''solar'', ''inverter'',
      ''smart-home'', ''home-assistant'', ''embedded'', ''accounting'', ''email'',
      ''control-panel'', ''router'']"

definition tag_aliases :: "(string \<times> string) list" where
  "tag_aliases =
     [(''email'', ''mail''), (''webmail'', ''mail''), (''routing'', ''networking''),
      (''routeros'', ''networking''), (''logger'', ''power''), (''bigbluebutton'', ''conferencing''),
      (''greenlight'', ''conferencing''), (''minecraft'', ''gaming''), (''aws'', ''cloud''),
      (''amazon'', ''cloud''), (''video'', ''media''), (''tracking'', ''tracking''),
      (''gps'', ''tracking''), (''fleet-management'', ''tracking'')]"

definition tag_alias :: "string \<Rightarrow> string option" where
  "tag_alias t = map_of tag_aliases t"

definition dropped_tags :: "string list" where
  "dropped_tags =
     [''nginx'', ''openresty'', ''nvr'', ''dvr'', ''ubiquiti'', ''unifi'', ''mikrotik'',
      ''dropbear'', ''cisco'', ''btest'']"

definition canonical_tag :: "(string \<Rightarrow> string) \<Rightarrow> string \<Rightarrow> string option" where
  "canonical_tag lc raw =
     (let lower = to_lowercase lc raw
      in if prefix ''device:'' lower \<or> prefix ''firmware:'' lower then None
         else if list_ex (\<lambda>b. byte b < 0x20 \<or> byte b = 0x7F) lower then None
         else (case tag_alias lower of
                 Some alias \<Rightarrow> if alias \<in> set ALLOWED_TAGS then Some alias else None
               | None \<Rightarrow>
                   if lower \<in> set dropped_tags then None
                   else if lower \<in> set ALLOWED_TAGS then Some lower
                   else None))"

definition tag_list :: "(string \<Rightarrow> string) \<Rightarrow> string \<Rightarrow> string list \<Rightarrow> string list" where
  "tag_list lc kind tags =
     btree_set ((case kind_category (canonical_kind kind) of None \<Rightarrow> [] | Some c \<Rightarrow> [c]) @
                List.map_filter (canonical_tag lc) tags)"

definition normalize_tags :: "(string \<Rightarrow> string) \<Rightarrow> service_data \<Rightarrow> service_data" where
  "normalize_tags lc d = d\<lparr>sd_tags := tag_list lc (sd_kind d) (sd_tags d)\<rparr>"

definition normalize_service :: "(string \<Rightarrow> string) \<Rightarrow> service_data \<Rightarrow> service_data" where
  "normalize_service lc d =
     normalize_tags lc (d\<lparr>sd_kind := canonical_kind (sd_kind d),
                          sd_product := map_option canonical_product (sd_product d)\<rparr>)"

section \<open>Normal forms\<close>

locale normalizer =
  fixes f :: "'a \<Rightarrow> 'a"
  assumes idem: "f (f x) = f x"
begin

lemma funpow_idem: "(f ^^ Suc n) x = f x"
  by (induction n) (simp_all add: idem)

lemma fixed_iff: "f x = x \<longleftrightarrow> x \<in> range f"
  by (metis idem rangeE rangeI)

lemma map_idem: "map f (map f xs) = map f xs"
  by (simp add: idem)

lemma option_idem: "map_option f (map_option f x) = map_option f x"
  by (cases x) (simp_all add: idem)

lemma no_changes: "filter (\<lambda>x. f x \<noteq> x) (map f xs) = []"
  by (simp add: filter_empty_conv idem)

end

interpretation kind: normalizer canonical_kind
  by unfold_locales (simp add: canonical_kind_def)

definition clean_tag :: "string \<Rightarrow> bool" where
  "clean_tag a =
     (list_all (\<lambda>c. is_ascii c \<and> ascii_lower c = c \<and> 0x20 \<le> byte c \<and> byte c \<noteq> 0x7F) a \<and>
      \<not> prefix ''device:'' a \<and> \<not> prefix ''firmware:'' a)"

definition tag_fixed :: "string \<Rightarrow> bool" where
  "tag_fixed a =
     (a \<in> set ALLOWED_TAGS \<and> a \<notin> set dropped_tags \<and> clean_tag a \<and> tag_alias a \<in> {None, Some a})"

lemma aliases_fixed: "list_all (\<lambda>(t, a). tag_fixed a) tag_aliases"
  by code_simp

lemma allowed_clean:
  "list_all (\<lambda>a. a \<notin> set dropped_tags \<and> clean_tag a) ALLOWED_TAGS"
  by code_simp

lemma kinds_fixed:
  "list_all tag_fixed [''web'', ''remote-access'', ''file-transfer'', ''mail'', ''database'',
     ''iot'', ''vpn'', ''voip'', ''networking'', ''camera'']"
  by code_simp

lemma category_fixed: "kind_category k = Some c \<Longrightarrow> tag_fixed c"
  using kinds_fixed by (auto simp: kind_category_def split: if_splits)

lemma clean_lowercase: "clean_tag a \<Longrightarrow> to_lowercase lc a = a"
  by (auto simp: clean_tag_def to_lowercase_def list_all_iff map_idI)

lemma canonical_tag_fixed: "tag_fixed a \<Longrightarrow> canonical_tag lc a = Some a"
  by (auto simp: tag_fixed_def canonical_tag_def clean_lowercase Let_def clean_tag_def
      list_ex_iff list_all_iff)

lemma canonical_tag_result: "canonical_tag lc raw = Some a \<Longrightarrow> tag_fixed a"
proof -
  assume c: "canonical_tag lc raw = Some a"
  show "tag_fixed a"
  proof (cases "tag_alias (to_lowercase lc raw)")
    case None
    with c have "a = to_lowercase lc raw" "a \<in> set ALLOWED_TAGS" "a \<notin> set dropped_tags"
      by (auto simp: canonical_tag_def Let_def split: if_splits)
    then show ?thesis using None allowed_clean by (auto simp: tag_fixed_def list_all_iff)
  next
    case (Some b)
    with c have "a = b" by (auto simp: canonical_tag_def Let_def split: if_splits)
    then show ?thesis using Some aliases_fixed
      by (auto simp: tag_alias_def list_all_iff dest!: map_of_SomeD)
  qed
qed

lemma tag_list_fixed: "t \<in> set (tag_list lc k ts) \<Longrightarrow> tag_fixed t"
  by (auto simp: tag_list_def List.map_filter_def split: option.splits
      dest: category_fixed [OF sym] canonical_tag_result)

lemma map_filter_fixed: "list_all tag_fixed ts \<Longrightarrow> List.map_filter (canonical_tag lc) ts = ts"
  by (induction ts) (simp_all add: List.map_filter_def canonical_tag_fixed)

lemma tag_list_idem: "tag_list lc (canonical_kind k) (tag_list lc k ts) = tag_list lc k ts"
proof -
  let ?c = "case kind_category (canonical_kind k) of None \<Rightarrow> [] | Some c \<Rightarrow> [c]"
  let ?T = "tag_list lc k ts"
  have "List.map_filter (canonical_tag lc) ?T = ?T"
    using tag_list_fixed by (intro map_filter_fixed) (auto simp: list_all_iff)
  then have "tag_list lc (canonical_kind k) ?T = btree_set (?c @ ?T)"
    by (simp add: tag_list_def [of lc "canonical_kind k"] kind.idem)
  also have "\<dots> = btree_set ?T"
    by (rule btree_set_cong) (auto simp: tag_list_def)
  also have "\<dots> = ?T" by (simp add: tag_list_def btree_set_idem)
  finally show ?thesis .
qed

section \<open>Slugs\<close>

text \<open>A slug: lower-case letters, digits and single hyphens, none at either end.\<close>

definition slug_char :: "char \<Rightarrow> bool" where
  "slug_char c = (is_alnum c \<and> ascii_lower c = c \<or> c = CHR ''-'')"

fun no_double :: "string \<Rightarrow> bool" where
  "no_double (a # b # s) = (\<not> (a = CHR ''-'' \<and> b = CHR ''-'') \<and> no_double (b # s))"
| "no_double _ = True"

definition is_slug :: "string \<Rightarrow> bool" where
  "is_slug s =
     (list_all slug_char s \<and> no_double s \<and>
      (s \<noteq> [] \<longrightarrow> hd s \<noteq> CHR ''-'' \<and> last s \<noteq> CHR ''-''))"

lemma no_double_Cons:
  "no_double (c # s) \<longleftrightarrow> no_double s \<and> (s \<noteq> [] \<longrightarrow> \<not> (c = CHR ''-'' \<and> hd s = CHR ''-''))"
  by (cases s) auto

lemma no_double_append:
  "no_double (s @ t) \<longleftrightarrow> no_double s \<and> no_double t \<and>
     (s \<noteq> [] \<longrightarrow> t \<noteq> [] \<longrightarrow> \<not> (last s = CHR ''-'' \<and> hd t = CHR ''-''))"
proof (induction s)
  case (Cons c s)
  then show ?case by (cases s) (auto simp: no_double_Cons)
qed simp

lemma dash_char: "ascii_lower (CHR ''-'') = CHR ''-''" "\<not> is_alnum (CHR ''-'')"
  by code_simp+

lemma slug_loop_chars:
  "list_all slug_char out \<Longrightarrow> no_double out \<Longrightarrow>
   list_all slug_char (slug_loop out dash s) \<and> no_double (slug_loop out dash s)"
proof (induction out dash s rule: slug_loop.induct)
  case (2 out dash c s)
  show ?case
  proof (cases "is_alnum (ascii_lower c)")
    case True
    then have "ascii_lower c \<noteq> CHR ''-''" by (auto simp: is_alnum_def is_digit_def is_upper_def is_lower_def byte_def)
    then have "list_all slug_char (out @ [ascii_lower c])" "no_double (out @ [ascii_lower c])"
      using 2(5,6) True slug_char_def [of "ascii_lower c"] by (simp_all add: no_double_append)
    then show ?thesis using 2(1) [OF refl True] True by (simp add: Let_def)
  next
    case False
    have "list_all slug_char (out @ [CHR ''-''])" using 2(5) slug_char_def [of "CHR ''-''"] by simp
    moreover have "\<not> (out \<noteq> [] \<and> last out = CHR ''-'') \<Longrightarrow> no_double (out @ [CHR ''-''])"
      using 2(6) by (auto simp: no_double_append)
    ultimately show ?thesis
      using 2(2-4) [OF refl False] 2(5,6) False by (simp add: Let_def)
  qed
qed simp

lemma trim_split: "\<exists>a b. s = a @ trim_matches c s @ b"
  unfolding trim_matches_def
  by (metis append.assoc rev_append rev_rev_ident takeWhile_dropWhile_id)

lemma trim_ends: "trim_matches c s \<noteq> [] \<Longrightarrow> hd (trim_matches c s) \<noteq> c \<and> last (trim_matches c s) \<noteq> c"
proof -
  let ?t = "dropWhile (\<lambda>d. d = c) s"
  assume n: "trim_matches c s \<noteq> []"
  have t: "?t \<noteq> []" using n by (auto simp: trim_matches_def simp del: dropWhile_eq_Nil_conv)
  have t2: "dropWhile (\<lambda>d. d = c) (rev ?t) \<noteq> []"
    using n unfolding trim_matches_def rev_is_Nil_conv .
  have h: "hd ?t \<noteq> c" using hd_dropWhile [OF t] by simp
  obtain b where b: "?t = trim_matches c s @ b"
    unfolding trim_matches_def by (metis rev_append rev_rev_ident takeWhile_dropWhile_id)
  have "hd (trim_matches c s) = hd ?t" by (subst b) (simp add: n)
  moreover have "last (trim_matches c s) \<noteq> c"
    using hd_dropWhile [OF t2] t2 by (simp add: trim_matches_def last_rev)
  ultimately show ?thesis using h by simp
qed

lemma slugify_is_slug: "is_slug (slugify s)"
proof -
  have "list_all slug_char (slug_loop [] False s) \<and> no_double (slug_loop [] False s)"
    by (rule slug_loop_chars) simp_all
  moreover obtain a b where "slug_loop [] False s = a @ slugify s @ b"
    unfolding slugify_def using trim_split by blast
  ultimately have "list_all slug_char (slugify s)" "no_double (slugify s)"
    by (auto simp: no_double_append)
  then show ?thesis using trim_ends [of "CHR ''-''" "slug_loop [] False s"]
    by (simp add: is_slug_def slugify_def)
qed

lemma slug_loop_id:
  "list_all slug_char s \<Longrightarrow> no_double (out @ s) \<Longrightarrow> (dash \<Longrightarrow> out \<noteq> [] \<and> last out = CHR ''-'') \<Longrightarrow>
   slug_loop out dash s = out @ s"
proof (induction s arbitrary: out dash)
  case (Cons c s)
  have c: "slug_char c" and s: "list_all slug_char s" using Cons.prems(1) by auto
  have nd: "no_double ((out @ [c]) @ s)" using Cons.prems(2) by simp
  show ?case
  proof (cases "c = CHR ''-''")
    case True
    then have l: "ascii_lower c = CHR ''-''" "\<not> is_alnum (CHR ''-'')" by (simp_all add: dash_char)
    have e: "\<not> (out \<noteq> [] \<and> last out = CHR ''-'')"
      using Cons.prems(2) True by (auto simp: no_double_append)
    then have "\<not> dash" using Cons.prems(3) by blast
    with e show ?thesis using Cons.IH [OF s nd, of True] l True by (simp add: Let_def)
  next
    case False
    then have "is_alnum c" "ascii_lower c = c" using c by (auto simp: slug_char_def)
    then show ?thesis using Cons.IH [OF s nd, of False] by (simp add: Let_def)
  qed
qed simp

lemma slugify_slug: "is_slug s \<Longrightarrow> slugify s = s"
proof -
  assume s: "is_slug s"
  then have "slug_loop [] False s = s" using slug_loop_id [of s "[]" False] by (simp add: is_slug_def)
  moreover have "trim_matches c t = t" if "t \<noteq> [] \<Longrightarrow> hd t \<noteq> c \<and> last t \<noteq> c" for c t
  proof -
    have "dropWhile (\<lambda>d. d = c) t = t" "dropWhile (\<lambda>d. d = c) (rev t) = rev t"
      using that by (auto simp: dropWhile_eq_self_iff hd_rev)
    then show ?thesis by (simp add: trim_matches_def)
  qed
  ultimately show ?thesis using s by (simp add: slugify_def is_slug_def)
qed

lemma overrides_slugs: "list_all (\<lambda>(r, c). is_slug c) product_overrides"
  by code_simp

lemma overrides_fixed: "list_all (\<lambda>(r, c). is_slug r \<longrightarrow> c = r) product_overrides"
  by code_simp

lemma canonical_product_slug: "is_slug (canonical_product raw)"
  using overrides_slugs slugify_is_slug
  by (auto simp: canonical_product_def product_override_def list_all_iff
      split: option.splits dest!: map_of_SomeD)

lemma canonical_product_fixed: "is_slug s \<Longrightarrow> canonical_product s = s"
  using overrides_fixed slugify_slug
  by (auto simp: canonical_product_def product_override_def list_all_iff
      split: option.splits dest!: map_of_SomeD)

interpretation slug: normalizer slugify
  by unfold_locales (rule slugify_slug [OF slugify_is_slug])

interpretation product: normalizer canonical_product
  by unfold_locales (rule canonical_product_fixed [OF canonical_product_slug])

interpretation service: normalizer "normalize_service lc"
  by unfold_locales
    (simp add: normalize_service_def normalize_tags_def kind.idem product.option_idem
      tag_list_idem [of lc "canonical_kind k" for k, unfolded kind.idem])

section \<open>The maintenance pass\<close>

text \<open>
  The services table is the list of its rows in the order of their ids.  A pass selects a page of
  rows after the last id seen, rewrites each row whose document changes, and goes on after the
  last row of the page until a page is short.  \<open>f\<close> is the work on one document; where it fails the
  pass stops with an error and the rows rewritten so far stay rewritten.
\<close>

type_synonym service_table = "(int \<times> json) list"

record pass_result =
  pass_failed :: bool
  pass_table :: service_table
  pass_updated :: nat

definition set_row :: "int \<Rightarrow> json \<Rightarrow> service_table \<Rightarrow> service_table" where
  "set_row i d t = map (\<lambda>(j, e). (j, if j = i then d else e)) t"

fun update_page ::
  "(json \<Rightarrow> json option) \<Rightarrow> (int \<times> json) list \<Rightarrow> service_table \<Rightarrow> nat \<Rightarrow> pass_result" where
  "update_page f [] t n = \<lparr>pass_failed = False, pass_table = t, pass_updated = n\<rparr>"
| "update_page f ((i, d) # ps) t n =
     (case f d of
        None \<Rightarrow> \<lparr>pass_failed = True, pass_table = t, pass_updated = n\<rparr>
      | Some e \<Rightarrow>
          if d \<noteq> e then update_page f ps (set_row i e t) (n + 1) else update_page f ps t n)"

definition select_page :: "(json \<Rightarrow> bool) \<Rightarrow> nat \<Rightarrow> int \<Rightarrow> service_table \<Rightarrow> (int \<times> json) list" where
  "select_page sel chunk last_id t = take chunk (filter (\<lambda>(i, d). sel d \<and> last_id < i) t)"

lemma map_fst_set_row [simp]: "map fst (set_row i d t) = map fst t"
  by (simp add: set_row_def case_prod_beta comp_def)

lemma map_fst_update_page [simp]: "map fst (pass_table (update_page f ps t n)) = map fst t"
  by (induction f ps t n rule: update_page.induct) (auto split: option.splits)

lemma page_last:
  "select_page sel chunk a t \<noteq> [] \<Longrightarrow>
   a < fst (last (select_page sel chunk a t)) \<and> fst (last (select_page sel chunk a t)) \<in> set (map fst t)"
proof -
  assume n: "select_page sel chunk a t \<noteq> []"
  have "last (select_page sel chunk a t) \<in> set (select_page sel chunk a t)"
    using n by (rule last_in_set)
  then have "last (select_page sel chunk a t) \<in> set (filter (\<lambda>(i, d). sel d \<and> a < i) t)"
    unfolding select_page_def by (rule in_set_takeD)
  then show ?thesis by (auto simp: image_iff)
qed

function keyset_loop ::
  "(json \<Rightarrow> bool) \<Rightarrow> (json \<Rightarrow> json option) \<Rightarrow> nat \<Rightarrow> int \<Rightarrow> service_table \<Rightarrow> nat \<Rightarrow> pass_result"
where
  "keyset_loop sel f chunk last_id t n =
     (let page = select_page sel chunk last_id t
      in if page = [] then \<lparr>pass_failed = False, pass_table = t, pass_updated = n\<rparr>
         else (let r = update_page f page t n
               in if pass_failed r \<or> length page < chunk then r
                  else keyset_loop sel f chunk (fst (last page)) (pass_table r) (pass_updated r)))"
  by pat_completeness auto
termination
proof (relation "measure (\<lambda>(sel, f, chunk, a, t, n). length (filter (\<lambda>i. a < i) (map fst t)))", goal_cases)
  case (2 sel f chunk a t n page r)
  have p: "a < fst (last page)" "fst (last page) \<in> set (map fst t)"
    using page_last [of sel chunk a t] 2(1,2) by auto
  have "length (filter (\<lambda>i. fst (last page) < i) is) < length (filter (\<lambda>i. a < i) is)"
    if m: "fst (last page) \<in> set is" for "is" :: "int list"
  proof -
    have "card {k. k < length is \<and> fst (last page) < is ! k} < card {k. k < length is \<and> a < is ! k}"
    proof (rule psubset_card_mono)
      obtain k where "k < length is" "is ! k = fst (last page)"
        using m by (auto simp: in_set_conv_nth)
      then show "{k. k < length is \<and> fst (last page) < is ! k} \<subset> {k. k < length is \<and> a < is ! k}"
        using p(1) less_trans by (intro psubsetI subsetI) (auto simp: set_eq_iff intro!: exI [of _ k])
    qed simp
    then show ?thesis by (simp add: length_filter_conv_card)
  qed
  from this [OF p(2)] show ?case unfolding 2(3) in_measure case_prod_conv map_fst_update_page .
qed simp

declare keyset_loop.simps [simp del]

definition sorted_ids :: "service_table \<Rightarrow> bool" where
  "sorted_ids t = sorted_wrt (<) (map fst t)"

definition rewrite_from ::
  "(json \<Rightarrow> bool) \<Rightarrow> (json \<Rightarrow> json) \<Rightarrow> int \<Rightarrow> service_table \<Rightarrow> service_table" where
  "rewrite_from sel g a t = map (\<lambda>(i, d). (i, if sel d \<and> a < i then g d else d)) t"

definition changed_from :: "(json \<Rightarrow> bool) \<Rightarrow> (json \<Rightarrow> json) \<Rightarrow> int \<Rightarrow> service_table \<Rightarrow> nat" where
  "changed_from sel g a t = length (filter (\<lambda>(i, d). sel d \<and> a < i \<and> g d \<noteq> d) t)"

lemma update_page_spec:
  "set ps \<subseteq> set t \<Longrightarrow> distinct (map fst ps) \<Longrightarrow> distinct (map fst t) \<Longrightarrow>
   (\<And>i d. (i, d) \<in> set ps \<Longrightarrow> f d = Some (g d)) \<Longrightarrow>
   update_page f ps t n =
     \<lparr>pass_failed = False,
      pass_table = map (\<lambda>(i, d). (i, if (i, d) \<in> set ps then g d else d)) t,
      pass_updated = n + length (filter (\<lambda>(i, d). g d \<noteq> d) ps)\<rparr>"
proof (induction f ps t n rule: update_page.induct)
  case (1 f t n)
  then show ?case by (simp add: case_prod_beta)
next
  case (2 f i d ps t n)
  have fd: "f d = Some (g d)" using 2(6) [of i d] by simp
  have nin: "(i, x) \<notin> set ps" for x using 2(4) by force
  have uniq: "(i, x) \<in> set t \<Longrightarrow> x = d" for x
    using 2(3,5) by (metis eq_key_imp_eq_value insertI1 list.simps(15) subsetD)
  show ?case
  proof (cases "d = g d")
    case True
    then have m: "map (\<lambda>(j, x). (j, if (j, x) \<in> set ((i, d) # ps) then g x else x)) t =
        map (\<lambda>(j, x). (j, if (j, x) \<in> set ps then g x else x)) t" by auto
    have "update_page f ps t n = \<lparr>pass_failed = False,
        pass_table = map (\<lambda>(i, d). (i, if (i, d) \<in> set ps then g d else d)) t,
        pass_updated = n + length (filter (\<lambda>(i, d). g d \<noteq> d) ps)\<rparr>"
      using 2(3-6) True by (intro 2(2) [OF fd]) auto
    then show ?thesis by (subst m) (simp add: fd True [symmetric])
  next
    case False
    have "set ps \<subseteq> set (set_row i (g d) t)"
      using 2(3) nin by (force simp: set_row_def image_iff)
    then have "update_page f ps (set_row i (g d) t) (n + 1) = \<lparr>pass_failed = False,
        pass_table = map (\<lambda>(i, d). (i, if (i, d) \<in> set ps then g d else d)) (set_row i (g d) t),
        pass_updated = n + 1 + length (filter (\<lambda>(i, d). g d \<noteq> d) ps)\<rparr>"
      using 2(3-6) False by (intro 2(1) [OF fd]) auto
    moreover have m: "map (\<lambda>(j, x). (j, if (j, x) \<in> set ((i, d) # ps) then g x else x)) t =
        map (\<lambda>(j, x). (j, if (j, x) \<in> set ps then g x else x)) (set_row i (g d) t)"
      using nin uniq by (auto simp: set_row_def)
    ultimately show ?thesis using False by (subst m) (simp add: fd)
  qed
qed

lemma page_rows:
  assumes "sorted_ids t" "xs = filter (\<lambda>(i, d). sel d \<and> a < i) t" "take chunk xs \<noteq> []"
  shows "(i, d) \<in> set (take chunk xs) \<longleftrightarrow>
         (i, d) \<in> set t \<and> sel d \<and> a < i \<and> i \<le> fst (last (take chunk xs))"
proof -
  let ?p = "take chunk xs"
  have s: "sorted_wrt (\<lambda>x y. fst x < fst y) xs"
    using assms(1) unfolding assms(2) sorted_ids_def
    by (intro sorted_wrt_filter) (simp add: sorted_wrt_map)
  then have s2: "sorted_wrt (\<lambda>x y. fst x < fst y) (?p @ drop chunk xs)" by simp
  have le: "fst x \<le> fst (last ?p)" if "x \<in> set ?p" for x
  proof -
    obtain ys where ys: "?p = ys @ [last ?p]" using assms(3) by (metis append_butlast_last_id)
    then have "sorted_wrt (\<lambda>x y. fst x < fst y) (ys @ [last ?p])" "x \<in> set (ys @ [last ?p])"
      using s2 that by (metis sorted_wrt_append, metis)
    then show ?thesis by (auto simp: sorted_wrt_append)
  qed
  have gt: "fst (last ?p) < fst x" if "x \<in> set (drop chunk xs)" for x
    using s2 that assms(3) last_in_set unfolding sorted_wrt_append by blast
  have "(i, d) \<in> set xs \<longleftrightarrow> (i, d) \<in> set ?p \<or> (i, d) \<in> set (drop chunk xs)"
    by (metis Un_iff append_take_drop_id set_append)
  moreover have "(i, d) \<in> set xs \<longleftrightarrow> (i, d) \<in> set t \<and> sel d \<and> a < i" by (simp add: assms(2))
  ultimately show ?thesis using le [of "(i, d)"] gt [of "(i, d)"] by fastforce
qed

lemma after_page:
  assumes "sorted_ids t" "xs = filter (\<lambda>(i, d). sel d \<and> a < i) t" "take chunk xs \<noteq> []"
  shows "filter (\<lambda>(i, d). sel d \<and> fst (last (take chunk xs)) < i) t = drop chunk xs"
proof -
  let ?b = "fst (last (take chunk xs))"
  have ab: "a < ?b"
    using last_in_set [OF assms(3)] page_rows [OF assms, of "?b" "snd (last (take chunk xs))"] by simp
  have d: "distinct xs"
    using assms(1) unfolding assms(2) sorted_ids_def
    by (intro distinct_filter) (metis distinct_map strict_sorted_iff)
  have f: "filter (\<lambda>(i, d). sel d \<and> b < i) t = filter (\<lambda>(i, d). b < i) xs" if "a < b" for b
    unfolding assms(2) filter_filter by (rule filter_cong) (use that in auto)
  have "filter (\<lambda>(i, d). sel d \<and> ?b < i) t = filter (\<lambda>(i, d). ?b < i) xs" by (rule f [OF ab])
  also have "\<dots> = filter (\<lambda>(i, d). ?b < i) (take chunk xs) @ filter (\<lambda>(i, d). ?b < i) (drop chunk xs)"
    by (metis append_take_drop_id filter_append)
  also have "filter (\<lambda>(i, d). ?b < i) (take chunk xs) = []"
    using page_rows [OF assms] by (fastforce simp: filter_empty_conv)
  also have "filter (\<lambda>(i, d). ?b < i) (drop chunk xs) = drop chunk xs"
  proof (rule filter_True, clarify)
    fix i d assume i: "(i, d) \<in> set (drop chunk xs)"
    then have "(i, d) \<in> set xs" "(i, d) \<notin> set (take chunk xs)"
      using set_drop_subset d by (fastforce, metis IntI append_take_drop_id distinct_append empty_iff)
    then show "?b < i" using page_rows [OF assms, of i d] by (auto simp: assms(2))
  qed
  finally show ?thesis by simp
qed

lemma keyset_loop_result:
  "sorted_ids t \<Longrightarrow> 0 < chunk \<Longrightarrow> (\<And>i d. (i, d) \<in> set t \<Longrightarrow> sel d \<Longrightarrow> a < i \<Longrightarrow> f d = Some (g d)) \<Longrightarrow>
   keyset_loop sel f chunk a t n =
     \<lparr>pass_failed = False, pass_table = rewrite_from sel g a t,
      pass_updated = n + changed_from sel g a t\<rparr>"
proof (induction sel f chunk a t n rule: keyset_loop.induct)
  case (1 sel f chunk a t n)
  define xs where "xs = filter (\<lambda>(i, d). sel d \<and> a < i) t"
  have page: "select_page sel chunk a t = take chunk xs" by (simp add: select_page_def xs_def)
  have ch: "changed_from sel g a t = length (filter (\<lambda>(i, d). g d \<noteq> d) xs)"
    by (simp add: changed_from_def xs_def) (rule arg_cong [of _ _ length], auto intro: filter_cong)
  show ?case
  proof (cases "take chunk xs = []")
    case True
    then have xs: "xs = []" using 1(3) by simp
    have "rewrite_from sel g a t = t"
      using xs unfolding rewrite_from_def xs_def by (intro map_idI) (auto simp: filter_empty_conv)
    then show ?thesis using True xs ch by (subst keyset_loop.simps) (simp add: page)
  next
    case False
    note pr = page_rows [OF 1(2) xs_def False]
    let ?b = "fst (last (take chunk xs))"
    let ?t = "map (\<lambda>(i, d). (i, if (i, d) \<in> set (take chunk xs) then g d else d)) t"
    have ids: "distinct (map fst t)" using 1(2) by (simp add: sorted_ids_def strict_sorted_iff)
    have "set (take chunk xs) \<subseteq> set t" using pr by auto
    moreover have "distinct (map fst (take chunk xs))"
      using ids unfolding xs_def by (simp add: distinct_map_filter flip: take_map)
    ultimately have up: "update_page f (take chunk xs) t n = \<lparr>pass_failed = False, pass_table = ?t,
        pass_updated = n + length (filter (\<lambda>(i, d). g d \<noteq> d) (take chunk xs))\<rparr>"
      using ids pr 1(4) by (intro update_page_spec) auto
    have step: "keyset_loop sel f chunk a t n =
        (if length (take chunk xs) < chunk then update_page f (take chunk xs) t n
         else keyset_loop sel f chunk ?b ?t
           (n + length (filter (\<lambda>(i, d). g d \<noteq> d) (take chunk xs))))"
      using False by (subst keyset_loop.simps) (simp add: page up Let_def del: length_take)
    show ?thesis
    proof (cases "length (take chunk xs) < chunk")
      case True
      then have all: "take chunk xs = xs" by simp
      have "?t = rewrite_from sel g a t"
        unfolding all rewrite_from_def by (auto simp: xs_def)
      then show ?thesis using True by (simp add: step up [unfolded all] all ch)
    next
      case more: False
      have b: "a < ?b" using pr [of ?b "snd (last (take chunk xs))"] last_in_set [OF False] by simp
      have same: "rewrite_from sel g ?b ?t = rewrite_from sel g a t"
        unfolding rewrite_from_def map_map by (rule map_cong) (use pr b in auto)
      have "filter (\<lambda>(i, d). sel d \<and> ?b < i \<and> g d \<noteq> d) ?t = filter (\<lambda>(i, d). g d \<noteq> d) (drop chunk xs)"
      proof -
        have "filter (\<lambda>(i, d). sel d \<and> ?b < i \<and> g d \<noteq> d) ?t =
            filter (\<lambda>(i, d). sel d \<and> ?b < i \<and> g d \<noteq> d) t"
          unfolding filter_map comp_def using pr by (intro map_idI [THEN trans]) (auto intro!: filter_cong)
        also have "\<dots> = filter (\<lambda>(i, d). g d \<noteq> d) (drop chunk xs)"
          unfolding after_page [OF 1(2) xs_def False, symmetric] filter_filter
          by (rule filter_cong) auto
        finally show ?thesis .
      qed
      then have "changed_from sel g ?b ?t = length (filter (\<lambda>(i, d). g d \<noteq> d) (drop chunk xs))"
        by (simp add: changed_from_def)
      moreover have "length (filter (\<lambda>(i, d). g d \<noteq> d) xs) =
          length (filter (\<lambda>(i, d). g d \<noteq> d) (take chunk xs)) +
          length (filter (\<lambda>(i, d). g d \<noteq> d) (drop chunk xs))"
        by (metis append_take_drop_id filter_append length_append)
      moreover have "sorted_ids ?t" using 1(2) by (simp add: sorted_ids_def case_prod_beta comp_def)
      moreover have "f d = Some (g d)" if "(i, d) \<in> set ?t" "sel d" "?b < i" for i d
        using that b by (intro 1(4) [of i d]) (auto simp: pr split: if_splits)
      ultimately show ?thesis
        using 1(1) [of "take chunk xs" "update_page f (take chunk xs) t n"] 1(3) False more same
        by (simp add: step page up ch)
    qed
  qed
qed

text \<open>
  \<open>backfill\<close>.  The conversions between a document and \<open>ServiceData\<close> are generated by \<open>serde\<close>: the
  parameters \<open>de\<close> and \<open>ser\<close>.
\<close>

definition backfill ::
  "(json \<Rightarrow> service_data option) \<Rightarrow> (service_data \<Rightarrow> json) \<Rightarrow> (string \<Rightarrow> string) \<Rightarrow> service_table \<Rightarrow> pass_result"
where
  "backfill de ser lc t =
     keyset_loop (\<lambda>_. True) (\<lambda>d. map_option (\<lambda>x. ser (normalize_service lc x)) (de d)) 1000 0 t 0"

section \<open>Properties\<close>

text \<open>
  C36. Normalizing a service twice is normalizing it once.
\<close>

theorem normalize_service_idem:
  "normalize_service lc (normalize_service lc d) = normalize_service lc d"
  by (rule service.idem)


text \<open>
  A product slug consists of lower-case letters, digits and single hyphens, with no hyphen at
  either end, and is its own slug.
\<close>

theorem canonical_product_is_slug:
  "is_slug (canonical_product raw) \<and> canonical_product (canonical_product raw) = canonical_product raw"
  using canonical_product_slug product.idem by simp

text \<open>
  The keyset-paginated pass rewrites every selected row after the starting id exactly once and
  no other, and counts the rows it changed, whatever the page size.
\<close>

theorem keyset_pass_spec:
  assumes "sorted_ids t" "0 < chunk" "\<And>i d. (i, d) \<in> set t \<Longrightarrow> sel d \<Longrightarrow> a < i \<Longrightarrow> f d = Some (g d)"
  shows "keyset_loop sel f chunk a t 0 =
     \<lparr>pass_failed = False,
      pass_table = map (\<lambda>(i, d). (i, if sel d \<and> a < i then g d else d)) t,
      pass_updated = length (filter (\<lambda>(i, d). sel d \<and> a < i \<and> g d \<noteq> d) t)\<rparr>"
  using keyset_loop_result [OF assms, where n = 0] by (simp add: rewrite_from_def changed_from_def)

theorem keyset_pass_spec_witness:
  "pass_table (keyset_loop (\<lambda>d. d \<noteq> JNull) (\<lambda>d. Some (JArr [d])) 2 0
     [(1, JBool True), (2, JNull), (4, JBool False), (7, JStr ''x'')] 0) =
   [(1, JArr [JBool True]), (2, JNull), (4, JArr [JBool False]), (7, JArr [JStr ''x''])]"
  using keyset_pass_spec [where t = "[(1, JBool True), (2, JNull), (4, JBool False), (7, JStr ''x'')]"
      and chunk = 2 and sel = "\<lambda>d. d \<noteq> JNull" and a = 0 and f = "\<lambda>d. Some (JArr [d])"
      and g = "\<lambda>d. JArr [d]"]
  by (simp add: sorted_ids_def)

text \<open>
  C38. Running the backfill a second time changes no row, when every document can be read and a
  normalized service that is written can be read back.
\<close>

theorem backfill_rerun:
  assumes "sorted_ids t" "\<And>i d. (i, d) \<in> set t \<Longrightarrow> 0 < i \<and> de d \<noteq> None"
    "\<And>i d x. (i, d) \<in> set t \<Longrightarrow> de d = Some x \<Longrightarrow>
       de (ser (normalize_service lc x)) = Some (normalize_service lc x)"
  shows "backfill de ser lc (pass_table (backfill de ser lc t)) =
     \<lparr>pass_failed = False, pass_table = pass_table (backfill de ser lc t), pass_updated = 0\<rparr>"
proof -
  define g where "g = (\<lambda>d. ser (normalize_service lc (the (de d))))"
  let ?f = "\<lambda>d. map_option (\<lambda>x. ser (normalize_service lc x)) (de d)"
  have run: "backfill de ser lc u = \<lparr>pass_failed = False, pass_table = rewrite_from (\<lambda>_. True) g 0 u,
      pass_updated = changed_from (\<lambda>_. True) g 0 u\<rparr>"
    if u: "sorted_ids u" "\<And>i d. (i, d) \<in> set u \<Longrightarrow> de d \<noteq> None" for u
  proof -
    have "?f d = Some (g d)" if "(i, d) \<in> set u" for i d
      using u(2) [OF that] by (auto simp: g_def)
    then show ?thesis unfolding backfill_def using u(1) by (subst keyset_loop_result [where g = g]) auto
  qed
  let ?u = "rewrite_from (\<lambda>_. True) g 0 t"
  have u: "?u = map (\<lambda>(i, d). (i, g d)) t"
    unfolding rewrite_from_def using assms(2) by auto
  have reread: "de (g d) = Some (normalize_service lc (the (de d)))" if "(i, d) \<in> set t" for i d
    using assms(2) [OF that] assms(3) [OF that] by (auto simp: g_def)
  have idem: "g (g d) = g d" if "(i, d) \<in> set t" for i d
    using reread [OF that] by (simp add: g_def service.idem)
  have "sorted_ids ?u" using assms(1) by (simp add: u sorted_ids_def case_prod_beta comp_def)
  moreover have "de d \<noteq> None" if "(i, d) \<in> set ?u" for i d
    using that reread by (auto simp: u)
  ultimately have "backfill de ser lc ?u = \<lparr>pass_failed = False,
      pass_table = rewrite_from (\<lambda>_. True) g 0 ?u, pass_updated = changed_from (\<lambda>_. True) g 0 ?u\<rparr>"
    by (rule run)
  moreover have "rewrite_from (\<lambda>_. True) g 0 ?u = ?u"
    unfolding rewrite_from_def [of _ _ _ ?u] using idem by (intro map_idI) (auto simp: u)
  moreover have "changed_from (\<lambda>_. True) g 0 ?u = 0"
    using idem by (auto simp: changed_from_def u filter_empty_conv)
  ultimately show ?thesis using run [OF assms(1)] assms(2) by simp
qed

definition demo_service :: service_data where
  "demo_service =
     default_service_data\<lparr>sd_kind := ''https'', sd_product := Some ''Apache httpd'',
       sd_tags := [''nginx'', ''Email'']\<rparr>"

definition demo_ser :: "service_data \<Rightarrow> json" where
  "demo_ser x = (if sd_kind x = ''http'' then JStr ''new'' else JStr ''old'')"

definition demo_de :: "json \<Rightarrow> service_data option" where
  "demo_de d = (if d = JStr ''old'' then Some demo_service
                else if d = JStr ''new'' then Some (normalize_service id demo_service) else None)"

theorem backfill_rerun_witness:
  "backfill demo_de demo_ser id [(1, JStr ''old'')] =
     \<lparr>pass_failed = False, pass_table = [(1, JStr ''new'')], pass_updated = 1\<rparr> \<and>
   backfill demo_de demo_ser id [(1, JStr ''new'')] =
     \<lparr>pass_failed = False, pass_table = [(1, JStr ''new'')], pass_updated = 0\<rparr>"
proof -
  have k: "sd_kind (normalize_service id demo_service) = ''http''" by code_simp
  have a: "backfill demo_de demo_ser id [(1, JStr ''old'')] =
      \<lparr>pass_failed = False, pass_table = [(1, JStr ''new'')], pass_updated = 1\<rparr>"
    unfolding backfill_def
    by (subst keyset_loop_result [where g = "\<lambda>_. JStr ''new''"])
      (auto simp: sorted_ids_def rewrite_from_def changed_from_def demo_de_def demo_ser_def k)
  have "backfill demo_de demo_ser id (pass_table (backfill demo_de demo_ser id [(1, JStr ''old'')])) =
     \<lparr>pass_failed = False, pass_table = pass_table (backfill demo_de demo_ser id [(1, JStr ''old'')]),
      pass_updated = 0\<rparr>"
    by (rule backfill_rerun) (auto simp: sorted_ids_def demo_de_def demo_ser_def k)
  then show ?thesis using a by simp
qed

end
