(* ===== verification/Queue.thy ===== *)
theory Queue
  imports Prelude
begin

text \<open>
  The leased work queues, \<open>src/queue.rs\<close>, on the tables of \<open>migrations/\<close>.  A table is the list of
  its rows in insertion order with the next value of the identity column, polymorphic in the
  payload a row carries.  Every operation is the SQL statement the code sends, executed
  atomically; rows locked by a concurrent statement (\<open>SKIP LOCKED\<close>) are an argument.  The
  lemmas: which rows a claim returns and what it does to the leases, the keys stay unique,
  what a sweep does, and, over all interleavings of any number of workers, that no two of them
  hold an unexpired lease on the same row.
\<close>

record 'a queue_row =
  row_id :: int
  item :: 'a
  attempts :: int
  claimed_until :: "int option"

record 'a queue =
  rows :: "'a queue_row list"
  next_id :: int

record service_probe =
  sp_ip :: string
  sp_port :: int
  sp_transport :: string

record enrichment =
  en_service_id :: int
  en_kind :: string
  en_queued_at :: int

type_synonym host_queue = "string queue"
type_synonym probe_queue = "service_probe queue"
type_synonym enrich_queue = "enrichment queue"

definition empty_queue :: "'a queue" where
  "empty_queue = \<lparr>rows = [], next_id = 1\<rparr>"

section \<open>Operations\<close>

definition lease_secs :: int where
  "lease_secs = 300"

text \<open>\<open>COALESCE(claimed_until, 0) < $2\<close>.\<close>

definition claimable :: "int \<Rightarrow> 'a queue_row \<Rightarrow> bool" where
  "claimable now r = ((case claimed_until r of None \<Rightarrow> 0 | Some u \<Rightarrow> u) < now)"

definition claim_ids :: "nat \<Rightarrow> int \<Rightarrow> int list \<Rightarrow> 'a queue \<Rightarrow> int list" where
  "claim_ids batch now locked q =
     take batch (map row_id (sort_key row_id
       (filter (\<lambda>r. claimable now r \<and> row_id r \<notin> set locked) (rows q))))"

definition claim_rows :: "nat \<Rightarrow> int \<Rightarrow> int list \<Rightarrow> 'a queue \<Rightarrow> 'a queue_row list \<times> 'a queue" where
  "claim_rows batch now locked q =
     (let ids = claim_ids batch now locked q
      in (filter (\<lambda>r. row_id r \<in> set ids) (rows q),
          q\<lparr>rows := map (\<lambda>r. if row_id r \<in> set ids
                               then r\<lparr>claimed_until := Some (now + lease_secs)\<rparr> else r) (rows q)\<rparr>))"

definition claim_host_scans ::
  "nat \<Rightarrow> int \<Rightarrow> int list \<Rightarrow> host_queue \<Rightarrow> (int \<times> string) list \<times> host_queue" where
  "claim_host_scans batch now locked q =
     (let (rs, q') = claim_rows batch now locked q in (map (\<lambda>r. (row_id r, item r)) rs, q'))"

definition claim_service_probes ::
  "nat \<Rightarrow> int \<Rightarrow> int list \<Rightarrow> probe_queue \<Rightarrow> (int \<times> string \<times> int \<times> string) list \<times> probe_queue"
where
  "claim_service_probes batch now locked q =
     (let (rs, q') = claim_rows batch now locked q
      in (map (\<lambda>r. (row_id r, sp_ip (item r), sp_port (item r), sp_transport (item r))) rs, q'))"

definition claim_enrichments ::
  "nat \<Rightarrow> int \<Rightarrow> int list \<Rightarrow> enrich_queue \<Rightarrow> (int \<times> int \<times> string) list \<times> enrich_queue" where
  "claim_enrichments batch now locked q =
     (let (rs, q') = claim_rows batch now locked q
      in (map (\<lambda>r. (row_id r, en_service_id (item r), en_kind (item r))) rs, q'))"

definition update_row :: "int \<Rightarrow> ('a queue_row \<Rightarrow> 'a queue_row) \<Rightarrow> 'a queue \<Rightarrow> 'a queue" where
  "update_row i f q = q\<lparr>rows := map (\<lambda>r. if row_id r = i then f r else r) (rows q)\<rparr>"

definition heartbeat :: "int \<Rightarrow> int \<Rightarrow> 'a queue \<Rightarrow> 'a queue" where
  "heartbeat i now = update_row i (\<lambda>r. r\<lparr>claimed_until := Some (now + lease_secs)\<rparr>)"

definition complete :: "int \<Rightarrow> 'a queue \<Rightarrow> 'a queue" where
  "complete i q = q\<lparr>rows := filter (\<lambda>r. row_id r \<noteq> i) (rows q)\<rparr>"

definition increment_attempts :: "int \<Rightarrow> 'a queue \<Rightarrow> 'a queue" where
  "increment_attempts i = update_row i (\<lambda>r. r\<lparr>attempts := attempts r + 1\<rparr>)"

definition lease_expired :: "int \<Rightarrow> 'a queue_row \<Rightarrow> bool" where
  "lease_expired now r = (case claimed_until r of None \<Rightarrow> False | Some u \<Rightarrow> u < now)"

text \<open>\<open>sweep\<close>: the requeueing update, then the delete whose row count is returned.\<close>

definition requeue :: "int \<Rightarrow> int \<Rightarrow> 'a queue \<Rightarrow> 'a queue" where
  "requeue max_attempts now q =
     q\<lparr>rows := map (\<lambda>r. if lease_expired now r \<and> attempts r < max_attempts
                        then r\<lparr>claimed_until := None\<rparr> else r) (rows q)\<rparr>"

definition drop_dead :: "int \<Rightarrow> int \<Rightarrow> 'a queue \<Rightarrow> nat \<times> 'a queue" where
  "drop_dead max_attempts now q =
     (let dead = (\<lambda>r. lease_expired now r \<and> attempts r \<ge> max_attempts)
      in (length (filter dead (rows q)), q\<lparr>rows := filter (\<lambda>r. \<not> dead r) (rows q)\<rparr>))"

definition sweep :: "int \<Rightarrow> int \<Rightarrow> 'a queue \<Rightarrow> nat \<times> 'a queue" where
  "sweep max_attempts now q = drop_dead max_attempts now (requeue max_attempts now q)"

lemmas sweep_defs = sweep_def requeue_def drop_dead_def

definition backpressure_active :: "probe_queue \<Rightarrow> u32 \<Rightarrow> bool" where
  "backpressure_active q max_depth =
     (int (length (filter (\<lambda>r. claimed_until r = None) (rows q))) \<ge> int (unat max_depth))"

text \<open>
  \<open>INSERT ... ON CONFLICT (key) DO NOTHING\<close>: the identity value is drawn before the conflict is
  found, so it is used up either way.
\<close>

definition insert_row :: "('a \<Rightarrow> 'k) \<Rightarrow> 'a \<Rightarrow> 'a queue \<Rightarrow> 'a queue" where
  "insert_row key x q =
     (if \<exists>r\<in>set (rows q). key (item r) = key x then q\<lparr>next_id := next_id q + 1\<rparr>
      else \<lparr>rows = rows q @ [\<lparr>row_id = next_id q, item = x, attempts = 0, claimed_until = None\<rparr>],
            next_id = next_id q + 1\<rparr>)"

text \<open>The cast \<open>::inet\<close> is the database's: \<open>inet\<close> yields the canonical address or an error.\<close>

definition insert_host_scan ::
  "(string \<Rightarrow> string option) \<Rightarrow> string \<Rightarrow> host_queue \<Rightarrow> bool \<times> host_queue" where
  "insert_host_scan inet ip q =
     (case inet ip of None \<Rightarrow> (False, q) | Some a \<Rightarrow> (True, insert_row id a q))"

definition probe_key :: "service_probe \<Rightarrow> string \<times> int \<times> string" where
  "probe_key p = (sp_ip p, sp_port p, sp_transport p)"

definition insert_service_probe ::
  "(string \<Rightarrow> string option) \<Rightarrow> string \<Rightarrow> int \<Rightarrow> string \<Rightarrow> probe_queue \<Rightarrow> bool \<times> probe_queue" where
  "insert_service_probe inet ip port transport q =
     (case inet ip of
        None \<Rightarrow> (False, q)
      | Some a \<Rightarrow>
          if 1 \<le> port \<and> port \<le> 65535
          then (True, insert_row probe_key
                  \<lparr>sp_ip = a, sp_port = port, sp_transport = transport\<rparr> q)
          else (False, q\<lparr>next_id := next_id q + 1\<rparr>))"

definition enrich_key :: "enrichment \<Rightarrow> int \<times> string" where
  "enrich_key e = (en_service_id e, en_kind e)"

text \<open>The foreign key to \<open>services\<close> is the set \<open>services\<close> of existing ids.\<close>

definition insert_enrichment ::
  "int list \<Rightarrow> int \<Rightarrow> string \<Rightarrow> int \<Rightarrow> enrich_queue \<Rightarrow> bool \<times> enrich_queue" where
  "insert_enrichment services service_id kind now q =
     (let e = \<lparr>en_service_id = service_id, en_kind = kind, en_queued_at = now\<rparr>
      in if service_id \<in> set services then (True, insert_row enrich_key e q)
         else (False, q\<lparr>next_id := next_id q + 1\<rparr>))"

section \<open>The table invariant\<close>

definition queue_ok :: "('a \<Rightarrow> 'k) \<Rightarrow> 'a queue \<Rightarrow> bool" where
  "queue_ok key q =
     (distinct (map row_id (rows q)) \<and> (\<forall>r\<in>set (rows q). row_id r < next_id q) \<and>
      distinct (map (\<lambda>r. key (item r)) (rows q)))"

definition lease_of :: "'a queue \<Rightarrow> int \<Rightarrow> int option option" where
  "lease_of q i = map_of (map (\<lambda>r. (row_id r, claimed_until r)) (rows q)) i"

lemma queue_ok_empty: "queue_ok key empty_queue"
  by (simp add: queue_ok_def empty_queue_def)

lemma queue_ok_insert: "queue_ok key q \<Longrightarrow> queue_ok key (insert_row key x q)"
  by (force simp: queue_ok_def insert_row_def image_iff)

lemma queue_ok_map:
  assumes "queue_ok key q" "\<And>r. row_id (f r) = row_id r" "\<And>r. item (f r) = item r"
  shows "queue_ok key (q\<lparr>rows := map f (rows q)\<rparr>)"
  using assms by (simp add: queue_ok_def comp_def)

lemma queue_ok_filter: "queue_ok key q \<Longrightarrow> queue_ok key (q\<lparr>rows := filter P (rows q)\<rparr>)"
  by (simp add: queue_ok_def distinct_map_filter)

lemma queue_ok_next: "queue_ok key q \<Longrightarrow> queue_ok key (q\<lparr>next_id := next_id q + 1\<rparr>)"
  by (force simp: queue_ok_def)

lemma queue_ok_claim: "queue_ok key q \<Longrightarrow> queue_ok key (snd (claim_rows b t l q))"
  by (simp add: claim_rows_def Let_def queue_ok_map)

lemma queue_ok_update:
  "queue_ok key q \<Longrightarrow> (\<And>r. row_id (f r) = row_id r) \<Longrightarrow> (\<And>r. item (f r) = item r) \<Longrightarrow>
   queue_ok key (update_row i f q)"
  unfolding update_row_def by (rule queue_ok_map) simp_all

lemma queue_ok_requeue: "queue_ok key q \<Longrightarrow> queue_ok key (requeue m t q)"
  unfolding requeue_def by (rule queue_ok_map) simp_all

lemma queue_ok_drop: "queue_ok key q \<Longrightarrow> queue_ok key (snd (drop_dead m t q))"
  by (simp add: drop_dead_def Let_def queue_ok_filter)

lemma queue_ok_complete: "queue_ok key q \<Longrightarrow> queue_ok key (complete i q)"
  by (simp add: complete_def queue_ok_filter)

section \<open>Leases\<close>

abbreviation distinct_ids :: "'a queue \<Rightarrow> bool" where
  "distinct_ids q \<equiv> distinct (map row_id (rows q))"

lemma queue_ok_ids: "queue_ok key q \<Longrightarrow> distinct_ids q"
  by (simp add: queue_ok_def)

lemma lease_of_row: "distinct_ids q \<Longrightarrow> r \<in> set (rows q) \<Longrightarrow> lease_of q (row_id r) = Some (claimed_until r)"
  unfolding lease_of_def by (rule map_of_is_SomeI) (simp_all add: comp_def)

lemma lease_of_None: "lease_of q i = None \<longleftrightarrow> i \<notin> row_id ` set (rows q)"
  by (simp add: lease_of_def map_of_eq_None_iff image_image)

lemma lease_of_SomeD: "lease_of q i = Some c \<Longrightarrow> \<exists>r\<in>set (rows q). row_id r = i \<and> claimed_until r = c"
  unfolding lease_of_def by (auto dest!: map_of_SomeD)

lemma lease_of_map:
  assumes "\<And>r. row_id (f r) = row_id r" "\<And>r. claimed_until (f r) = g (row_id r) (claimed_until r)"
  shows "lease_of (q\<lparr>rows := map f (rows q)\<rparr>) i = map_option (g i) (lease_of q i)"
proof -
  have "map_of (map (\<lambda>r. (row_id r, claimed_until r)) (map f rs)) i =
      map_option (g i) (map_of (map (\<lambda>r. (row_id r, claimed_until r)) rs) i)" for rs
    using assms by (induction rs) auto
  then show ?thesis by (simp add: lease_of_def)
qed

lemma claim_ids_set:
  "set (claim_ids b t l q) \<subseteq> row_id ` {r \<in> set (rows q). claimable t r \<and> row_id r \<notin> set l}"
  unfolding claim_ids_def by (rule subset_trans [OF set_take_subset]) auto

lemma claim_rows_ids: "row_id ` set (fst (claim_rows b t l q)) = set (claim_ids b t l q)"
  using claim_ids_set [of b t l q] by (auto simp: claim_rows_def Let_def)

lemma lease_of_claim:
  "lease_of (snd (claim_rows b t l q)) i =
     (if i \<in> set (claim_ids b t l q) then Some (Some (t + lease_secs)) else lease_of q i)"
proof -
  have "lease_of (snd (claim_rows b t l q)) i =
      map_option (\<lambda>c. if i \<in> set (claim_ids b t l q) then Some (t + lease_secs) else c) (lease_of q i)"
    unfolding claim_rows_def Let_def snd_conv
    by (rule lease_of_map [where
        g = "\<lambda>i c. if i \<in> set (claim_ids b t l q) then Some (t + lease_secs) else c"]) simp_all
  moreover have "i \<in> set (claim_ids b t l q) \<Longrightarrow> lease_of q i \<noteq> None"
    using claim_ids_set [of b t l q] by (auto simp: lease_of_None)
  ultimately show ?thesis by (auto simp: map_option.identity [unfolded id_def])
qed

lemma claim_free:
  assumes "distinct_ids q" "i \<in> set (claim_ids b t l q)"
  shows "\<exists>c. lease_of q i = Some c \<and> (\<forall>u. c = Some u \<longrightarrow> u < t)"
proof -
  obtain r where r: "r \<in> set (rows q)" "claimable t r" "i = row_id r"
    using claim_ids_set [of b t l q] assms(2) by blast
  then show ?thesis using lease_of_row [OF assms(1) r(1)]
    by (auto simp: claimable_def split: option.splits)
qed

lemma claim_first:
  assumes "r \<in> set (rows q)" "claimable t r" "row_id r \<notin> set l" "row_id r \<notin> set (claim_ids b t l q)"
  shows "length (claim_ids b t l q) = b \<and> (\<forall>j\<in>set (claim_ids b t l q). j \<le> row_id r)"
proof -
  define xs where "xs = map row_id (sort_key row_id
    (filter (\<lambda>r. claimable t r \<and> row_id r \<notin> set l) (rows q)))"
  have x: "row_id r \<in> set xs" "sorted xs" "claim_ids b t l q = take b xs"
    using assms(1-3) by (auto simp: xs_def claim_ids_def)
  have "xs = take b xs @ drop b xs" by simp
  then have d: "row_id r \<in> set (drop b xs)"
    using x(1,3) assms(4) by (metis Un_iff set_append)
  have "sorted (take b xs @ drop b xs)" using x(2) by simp
  then have "\<forall>j\<in>set (take b xs). j \<le> row_id r" using d unfolding sorted_append by blast
  moreover have "length (take b xs) = b" using d by (cases "b \<le> length xs") auto
  ultimately show ?thesis using x(3) by simp
qed

lemma lease_of_update:
  "(\<And>r. row_id (f r) = row_id r) \<Longrightarrow> (\<And>r. claimed_until (f r) = g (claimed_until r)) \<Longrightarrow>
   lease_of (update_row i f q) j = (if j = i then map_option g (lease_of q j) else lease_of q j)"
  unfolding update_row_def
  by (subst lease_of_map [where g = "\<lambda>k c. if k = i then g c else c"])
    (auto simp: map_option.identity [unfolded id_def])

lemma lease_of_heartbeat:
  "lease_of (heartbeat i t q) j =
     (if j = i then map_option (\<lambda>_. Some (t + lease_secs)) (lease_of q j) else lease_of q j)"
  unfolding heartbeat_def by (rule lease_of_update) simp_all

lemma lease_of_increment: "lease_of (increment_attempts i q) j = lease_of q j"
  unfolding increment_attempts_def
  by (subst lease_of_update [where g = id]) (simp_all add: option.map_id)

lemma lease_of_complete: "lease_of (complete i q) j = (if j = i then None else lease_of q j)"
proof -
  have "map_of (map (\<lambda>r. (row_id r, claimed_until r)) (filter (\<lambda>r. row_id r \<noteq> i) rs)) j =
      (if j = i then None else map_of (map (\<lambda>r. (row_id r, claimed_until r)) rs) j)"
    for rs :: "'a queue_row list" by (induction rs) auto
  then show ?thesis by (simp add: lease_of_def complete_def)
qed

lemma sweep_rows:
  "rows (snd (sweep m t q)) =
     map (\<lambda>r. if lease_expired t r then r\<lparr>claimed_until := None\<rparr> else r)
       (filter (\<lambda>r. \<not> (lease_expired t r \<and> attempts r \<ge> m)) (rows q))"
proof -
  have "filter (\<lambda>r. \<not> (lease_expired t r \<and> m \<le> attempts r))
      (map (\<lambda>r. if lease_expired t r \<and> attempts r < m then r\<lparr>claimed_until := None\<rparr> else r) rs) =
    map (\<lambda>r. if lease_expired t r then r\<lparr>claimed_until := None\<rparr> else r)
      (filter (\<lambda>r. \<not> (lease_expired t r \<and> attempts r \<ge> m)) rs)" for rs :: "'a queue_row list"
    by (induction rs) (auto simp: lease_expired_def)
  then show ?thesis by (simp add: sweep_defs Let_def)
qed

lemma sweep_count:
  "fst (sweep m t q) = length (filter (\<lambda>r. lease_expired t r \<and> attempts r \<ge> m) (rows q))"
proof -
  have "length (filter (\<lambda>r. lease_expired t r \<and> m \<le> attempts r)
      (map (\<lambda>r. if lease_expired t r \<and> attempts r < m then r\<lparr>claimed_until := None\<rparr> else r) rs)) =
    length (filter (\<lambda>r. lease_expired t r \<and> m \<le> attempts r) rs)" for rs :: "'a queue_row list"
    by (induction rs) (auto simp: lease_expired_def)
  then show ?thesis by (simp add: sweep_defs Let_def)
qed

section \<open>The claim interface\<close>

text \<open>
  What the three claim operations promise to the stages that call them: only free rows are
  handed out, exactly those get a lease of \<open>lease_secs\<close>, and the smallest ids go first.
\<close>

locale claimer =
  fixes claim :: "nat \<Rightarrow> int \<Rightarrow> int list \<Rightarrow> 'a queue \<Rightarrow> 'r list \<times> 'a queue"
    and id_of :: "'r \<Rightarrow> int"
  assumes claim_is_free:
      "x \<in> set (fst (claim b t l q)) \<Longrightarrow>
       \<exists>r\<in>set (rows q). row_id r = id_of x \<and> claimable t r \<and> row_id r \<notin> set l"
    and claim_leases:
      "lease_of (snd (claim b t l q)) i =
         (if i \<in> id_of ` set (fst (claim b t l q)) then Some (Some (t + lease_secs))
          else lease_of q i)"
    and claim_distinct: "distinct_ids q \<Longrightarrow> distinct_ids (snd (claim b t l q))"
    and claim_in_order:
      "distinct_ids q \<Longrightarrow> r \<in> set (rows q) \<Longrightarrow> claimable t r \<Longrightarrow> row_id r \<notin> set l \<Longrightarrow>
       row_id r \<notin> id_of ` set (fst (claim b t l q)) \<Longrightarrow>
       b \<le> length (fst (claim b t l q)) \<and> (\<forall>x\<in>set (fst (claim b t l q)). id_of x \<le> row_id r)"
begin

lemma claim_unleased:
  assumes "distinct_ids q" "x \<in> set (fst (claim b t l q))" "lease_of q (id_of x) = Some (Some u)"
  shows "u < t"
proof -
  obtain r where r: "r \<in> set (rows q)" "row_id r = id_of x" "claimable t r"
    using claim_is_free [OF assms(2)] by blast
  have "claimed_until r = Some u" using lease_of_row [OF assms(1) r(1)] r(2) assms(3) by simp
  then show ?thesis using r(3) by (simp add: claimable_def)
qed

lemma claims_disjoint:
  assumes "distinct_ids q" "t' \<le> t + lease_secs"
  shows "id_of ` set (fst (claim b t l q)) \<inter>
         id_of ` set (fst (claim b' t' l' (snd (claim b t l q)))) = {}"
proof (rule ccontr)
  assume "\<not> ?thesis"
  then obtain x y where x: "x \<in> set (fst (claim b t l q))" "id_of x = id_of y"
    and y: "y \<in> set (fst (claim b' t' l' (snd (claim b t l q))))" by blast
  have "lease_of (snd (claim b t l q)) (id_of y) = Some (Some (t + lease_secs))"
    using x claim_leases [of b t l q "id_of y"] by (auto simp: image_iff)
  then show False
    using claim_unleased [OF claim_distinct [OF assms(1)] y] assms(2) by fastforce
qed

lemma claim_progress:
  assumes "distinct_ids q" "r \<in> set (rows q)" "claimable t r" "row_id r \<notin> set l" "0 < b"
  shows "fst (claim b t l q) \<noteq> []"
  using claim_in_order [OF assms(1-4), of b] assms(5) by fastforce

lemma oldest_claimed:
  assumes "distinct_ids q" "r \<in> set (rows q)" "claimable t r" "row_id r \<notin> set l" "0 < b"
    and "\<And>s. s \<in> set (rows q) \<Longrightarrow> claimable t s \<Longrightarrow> row_id r \<le> row_id s"
  shows "row_id r \<in> id_of ` set (fst (claim b t l q))"
proof (rule ccontr)
  assume n: "row_id r \<notin> id_of ` set (fst (claim b t l q))"
  note o = claim_in_order [OF assms(1-4) n]
  obtain x where x: "x \<in> set (fst (claim b t l q))"
    using claim_progress [OF assms(1-5)] by fastforce
  obtain s where s: "s \<in> set (rows q)" "row_id s = id_of x" "claimable t s"
    using claim_is_free [OF x] by blast
  then show False using o x n assms(6) [of s] by force
qed

end

lemma claim_rows_free:
  "i \<in> set (claim_ids b t l q) \<Longrightarrow> \<exists>r\<in>set (rows q). row_id r = i \<and> claimable t r \<and> row_id r \<notin> set l"
  using claim_ids_set [of b t l q] by blast

lemma claim_rows_distinct: "distinct_ids q \<Longrightarrow> distinct_ids (snd (claim_rows b t l q))"
  by (simp add: claim_rows_def Let_def comp_def if_distrib cong: if_cong)

lemma claim_rows_length: "length (claim_ids b t l q) \<le> length (fst (claim_rows b t l q))"
  if "distinct_ids q"
proof -
  have "distinct (claim_ids b t l q)"
    using that by (simp add: claim_ids_def distinct_map_filter distinct_map)
      (auto simp: distinct_map inj_on_def)
  then have "length (claim_ids b t l q) = card (row_id ` set (fst (claim_rows b t l q)))"
    by (simp add: claim_rows_ids distinct_card)
  also have "\<dots> \<le> length (fst (claim_rows b t l q))"
    using card_image_le card_length order_trans by (metis List.finite_set)
  finally show ?thesis .
qed

text \<open>The three claims are the shared statement with a projection of the returned rows.\<close>

lemma claim_host_scans_eq:
  "claim_host_scans b t l q =
     (map (\<lambda>r. (row_id r, item r)) (fst (claim_rows b t l q)), snd (claim_rows b t l q))"
  by (simp add: claim_host_scans_def case_prod_beta)

lemma claim_service_probes_eq:
  "claim_service_probes b t l q =
     (map (\<lambda>r. (row_id r, sp_ip (item r), sp_port (item r), sp_transport (item r)))
        (fst (claim_rows b t l q)), snd (claim_rows b t l q))"
  by (simp add: claim_service_probes_def case_prod_beta)

lemma claim_enrichments_eq:
  "claim_enrichments b t l q =
     (map (\<lambda>r. (row_id r, en_service_id (item r), en_kind (item r)))
        (fst (claim_rows b t l q)), snd (claim_rows b t l q))"
  by (simp add: claim_enrichments_def case_prod_beta)

lemmas claim_eqs = claim_host_scans_eq claim_service_probes_eq claim_enrichments_eq

lemma claim_ids_order:
  assumes "distinct_ids q" "r \<in> set (rows q)" "claimable t r" "row_id r \<notin> set l"
    "row_id r \<notin> row_id ` set (fst (claim_rows b t l q))"
  shows "b \<le> length (fst (claim_rows b t l q)) \<and>
         (\<forall>s\<in>set (fst (claim_rows b t l q)). row_id s \<le> row_id r)"
proof -
  have n: "row_id r \<notin> set (claim_ids b t l q)" using assms(5) by (simp add: claim_rows_ids)
  note f = claim_first [OF assms(2-4) n]
  have "row_id s \<le> row_id r" if "s \<in> set (fst (claim_rows b t l q))" for s
    using that f claim_rows_ids [of b t l q] by blast
  then show ?thesis using f claim_rows_length [OF assms(1), of b t l] by simp
qed

lemma claim_fst_free:
  "r \<in> set (fst (claim_rows b t l q)) \<Longrightarrow>
   \<exists>s\<in>set (rows q). row_id s = row_id r \<and> claimable t s \<and> row_id s \<notin> set l"
  using claim_rows_free claim_rows_ids by blast

lemma claim_lease_image:
  "lease_of (snd (claim_rows b t l q)) i =
     (if i \<in> row_id ` set (fst (claim_rows b t l q)) then Some (Some (t + lease_secs))
      else lease_of q i)"
  by (simp add: lease_of_claim claim_rows_ids)

lemmas claim_laws = claim_fst_free claim_lease_image claim_rows_distinct claim_ids_order

interpretation hosts: claimer claim_host_scans fst
  by unfold_locales
    (auto simp: claim_eqs image_image dest: claim_fst_free claim_ids_order
      intro: claim_rows_distinct simp: claim_lease_image)

interpretation probes: claimer claim_service_probes fst
  by unfold_locales
    (auto simp: claim_eqs image_image dest: claim_fst_free claim_ids_order
      intro: claim_rows_distinct simp: claim_lease_image)

interpretation enrichments: claimer claim_enrichments fst
  by unfold_locales
    (auto simp: claim_eqs image_image dest: claim_fst_free claim_ids_order
      intro: claim_rows_distinct simp: claim_lease_image)

section \<open>Workers and their leases\<close>

text \<open>
  Any number of workers on one table.  \<open>leases\<close> records what each worker believes it holds: the
  row and the end of the lease it was given.  A worker reads the clock before it sends the
  statement, so the time \<open>t\<close> of an operation may lag behind.
\<close>

record 'a world =
  wq :: "'a queue"
  clock :: int
  leases :: "(nat \<times> int \<times> int) list"

inductive lease_step :: "('a \<Rightarrow> 'k) \<Rightarrow> 'a world \<Rightarrow> 'a world \<Rightarrow> bool" for key :: "'a \<Rightarrow> 'k" where
  step_tick: "0 \<le> d \<Longrightarrow> lease_step key w (w\<lparr>clock := clock w + d\<rparr>)"
| step_insert: "lease_step key w (w\<lparr>wq := insert_row key x (wq w)\<rparr>)"
| step_claim:
    "t \<le> clock w \<Longrightarrow>
     lease_step key w (w\<lparr>wq := snd (claim_rows b t l (wq w)),
       leases := map (\<lambda>r. (k, row_id r, t + lease_secs)) (fst (claim_rows b t l (wq w))) @ leases w\<rparr>)"
| step_heartbeat:
    "(k, i, u) \<in> set (leases w) \<Longrightarrow> clock w \<le> u \<Longrightarrow> t \<le> clock w \<Longrightarrow>
     lease_step key w (w\<lparr>wq := heartbeat i t (wq w),
       leases := (k, i, t + lease_secs) # filter (\<lambda>(k', i', u'). \<not> (k' = k \<and> i' = i)) (leases w)\<rparr>)"
| step_complete:
    "lease_step key w (w\<lparr>wq := complete i (wq w),
       leases := filter (\<lambda>(k', i', u'). \<not> (k' = k \<and> i' = i)) (leases w)\<rparr>)"
| step_increment: "lease_step key w (w\<lparr>wq := increment_attempts i (wq w)\<rparr>)"
| step_requeue: "t \<le> clock w \<Longrightarrow> lease_step key w (w\<lparr>wq := requeue m t (wq w)\<rparr>)"
| step_drop: "lease_step key w (w\<lparr>wq := snd (drop_dead m t (wq w))\<rparr>)"

inductive lease_reach :: "('a \<Rightarrow> 'k) \<Rightarrow> 'a world \<Rightarrow> bool" for key :: "'a \<Rightarrow> 'k" where
  reach_start: "lease_reach key \<lparr>wq = empty_queue, clock = t, leases = []\<rparr>"
| reach_step: "lease_reach key w \<Longrightarrow> lease_step key w w' \<Longrightarrow> lease_reach key w'"

inductive_cases lease_stepE: "lease_step key w w'"

definition current_lease :: "'a world \<Rightarrow> nat \<Rightarrow> int \<Rightarrow> bool" where
  "current_lease w k i = (\<exists>u. (k, i, u) \<in> set (leases w) \<and> clock w \<le> u)"

definition world_ok :: "('a \<Rightarrow> 'k) \<Rightarrow> 'a world \<Rightarrow> bool" where
  "world_ok key w =
     (queue_ok key (wq w) \<and>
      (\<forall>k i u. (k, i, u) \<in> set (leases w) \<longrightarrow> i < next_id (wq w)) \<and>
      (\<forall>k i u c. (k, i, u) \<in> set (leases w) \<longrightarrow> clock w \<le> u \<longrightarrow> lease_of (wq w) i = Some c \<longrightarrow>
         (\<exists>v. c = Some v \<and> u \<le> v)) \<and>
      (\<forall>k k' i u u'. (k, i, u) \<in> set (leases w) \<longrightarrow> (k', i, u') \<in> set (leases w) \<longrightarrow>
         clock w \<le> u \<longrightarrow> clock w \<le> u' \<longrightarrow> k = k'))"

lemma world_okI:
  assumes "queue_ok key (wq w)" "\<And>k i u. (k, i, u) \<in> set (leases w) \<Longrightarrow> i < next_id (wq w)"
    "\<And>k i u c. (k, i, u) \<in> set (leases w) \<Longrightarrow> clock w \<le> u \<Longrightarrow> lease_of (wq w) i = Some c \<Longrightarrow>
       \<exists>v. c = Some v \<and> u \<le> v"
    "\<And>k k' i u u'. (k, i, u) \<in> set (leases w) \<Longrightarrow> (k', i, u') \<in> set (leases w) \<Longrightarrow>
       clock w \<le> u \<Longrightarrow> clock w \<le> u' \<Longrightarrow> k = k'"
  shows "world_ok key w"
  unfolding world_ok_def using assms by blast

lemma world_okD:
  assumes "world_ok key w"
  shows "queue_ok key (wq w)" "(k, i, u) \<in> set (leases w) \<Longrightarrow> i < next_id (wq w)"
    "(k, i, u) \<in> set (leases w) \<Longrightarrow> clock w \<le> u \<Longrightarrow> lease_of (wq w) i = Some c \<Longrightarrow>
       \<exists>v. c = Some v \<and> u \<le> v"
    "(k, i, u) \<in> set (leases w) \<Longrightarrow> (k', i, u') \<in> set (leases w) \<Longrightarrow>
       clock w \<le> u \<Longrightarrow> clock w \<le> u' \<Longrightarrow> k = k'"
  using assms unfolding world_ok_def by blast+

lemma next_id_simps [simp]:
  "next_id (snd (claim_rows b t l q)) = next_id q" "next_id (heartbeat i t q) = next_id q"
  "next_id (complete i q) = next_id q" "next_id (increment_attempts i q) = next_id q"
  "next_id (requeue m t q) = next_id q" "next_id (snd (drop_dead m t q)) = next_id q"
  "next_id (insert_row key x q) = next_id q + 1"
  by (simp_all add: claim_rows_def Let_def heartbeat_def update_row_def complete_def
      increment_attempts_def requeue_def drop_dead_def insert_row_def)

lemma lease_of_insert:
  "queue_ok key q \<Longrightarrow> i < next_id q \<Longrightarrow> lease_of (insert_row key x q) i = lease_of q i"
  by (auto simp: lease_of_def insert_row_def map_add_def split: option.splits)

lemma lease_of_requeue:
  assumes "distinct_ids q" "lease_of (requeue m t q) i = Some c" "lease_of q i = Some (Some v)" "t \<le> v"
  shows "c = Some v"
proof -
  obtain r where r: "r \<in> set (rows (requeue m t q))" "row_id r = i" "claimed_until r = c"
    using lease_of_SomeD [OF assms(2)] by blast
  then obtain s where s: "s \<in> set (rows q)"
      "r = (if lease_expired t s \<and> attempts s < m then s\<lparr>claimed_until := None\<rparr> else s)"
    by (auto simp: requeue_def)
  then have "claimed_until s = Some v"
    using lease_of_row [OF assms(1) s(1)] r(2) assms(3) by (simp split: if_splits)
  then show ?thesis using s(2) r(3) assms(4) by (simp add: lease_expired_def)
qed

lemma lease_of_drop:
  assumes "distinct_ids q" "lease_of (snd (drop_dead m t q)) i = Some c"
  shows "lease_of q i = Some c"
proof -
  obtain r where "r \<in> set (rows (snd (drop_dead m t q)))" "row_id r = i" "claimed_until r = c"
    using lease_of_SomeD [OF assms(2)] by blast
  then show ?thesis using lease_of_row [OF assms(1), of r] by (auto simp: drop_dead_def Let_def)
qed

lemma queue_ok_ops:
  assumes "queue_ok key q"
  shows "queue_ok key (insert_row key x q)" "queue_ok key (snd (claim_rows b t l q))"
    "queue_ok key (heartbeat i t q)" "queue_ok key (complete i q)"
    "queue_ok key (increment_attempts i q)" "queue_ok key (requeue m t q)"
    "queue_ok key (snd (drop_dead m t q))"
  using assms by (simp_all add: queue_ok_insert queue_ok_claim queue_ok_complete queue_ok_requeue queue_ok_drop
      heartbeat_def increment_attempts_def queue_ok_update)

lemma world_ok_claim:
  assumes "world_ok key w" "t \<le> clock w"
  shows "world_ok key (w\<lparr>wq := snd (claim_rows b t l (wq w)),
     leases := map (\<lambda>r. (k, row_id r, t + lease_secs)) (fst (claim_rows b t l (wq w))) @ leases w\<rparr>)"
    (is "world_ok key ?w")
proof (rule world_okI)
  let ?I = "set (claim_ids b t l (wq w))"
  note ok = world_okD [OF assms(1)]
  have d: "distinct_ids (wq w)" using ok(1) by (rule queue_ok_ids)
  have new: "(k', i, u) \<in> set (leases ?w) \<longleftrightarrow>
      i \<in> ?I \<and> k' = k \<and> u = t + lease_secs \<or> (k', i, u) \<in> set (leases w)" for k' i u
    using claim_rows_ids [of b t l "wq w"] by (auto simp: image_iff)
  have free: "\<not> (i \<in> ?I \<and> (k', i, u) \<in> set (leases w) \<and> clock w \<le> u)" for k' i u
    using claim_free [OF d, of i b t l] ok(3) [of k' i u] assms(2) by fastforce
  show "queue_ok key (wq ?w)" using queue_ok_ops(2) [OF ok(1)] by simp
  show "i < next_id (wq ?w)" if "(k', i, u) \<in> set (leases ?w)" for k' i u
    using that ok(1,2) claim_ids_set [of b t l "wq w"] unfolding new by (auto simp: queue_ok_def)
  show "\<exists>v. c = Some v \<and> u \<le> v"
    if "(k', i, u) \<in> set (leases ?w)" "clock ?w \<le> u" "lease_of (wq ?w) i = Some c" for k' i u c
    using that ok(3) [of k' i u c] free [of i k' u] unfolding new
    by (auto simp: lease_of_claim split: if_splits)
  show "k1 = k2" if "(k1, i, u) \<in> set (leases ?w)" "(k2, i, u') \<in> set (leases ?w)"
      "clock ?w \<le> u" "clock ?w \<le> u'" for k1 k2 i u u'
    using that ok(4) [of k1 i u k2 u'] free [of i k1 u] free [of i k2 u'] unfolding new by auto
qed

lemma world_ok_drop:
  "world_ok key w \<Longrightarrow> world_ok key (w\<lparr>leases := filter P (leases w)\<rparr>)"
  unfolding world_ok_def by auto

lemma world_ok_heartbeat:
  assumes "world_ok key w" "(k, i, u) \<in> set (leases w)" "clock w \<le> u" "t \<le> clock w"
  shows "world_ok key (w\<lparr>wq := heartbeat i t (wq w),
     leases := (k, i, t + lease_secs) # filter (\<lambda>(k', i', u'). \<not> (k' = k \<and> i' = i)) (leases w)\<rparr>)"
    (is "world_ok key ?w")
proof (rule world_okI)
  note ok = world_okD [OF assms(1)]
  have other: "k' = k" if "(k', i, u') \<in> set (leases w)" "clock w \<le> u'" for k' u'
    using ok(4) [OF that(1) assms(2) that(2) assms(3)] .
  show "queue_ok key (wq ?w)" using queue_ok_ops(3) [OF ok(1)] by simp
  show "j < next_id (wq ?w)" if "(k', j, u') \<in> set (leases ?w)" for k' j u'
    using that ok(2) assms(2) by auto
  show "\<exists>v. c = Some v \<and> u' \<le> v"
    if "(k', j, u') \<in> set (leases ?w)" "clock ?w \<le> u'" "lease_of (wq ?w) j = Some c" for k' j u' c
    using that ok(3) [of k' j u' c] other [of k' u'] by (auto simp: lease_of_heartbeat split: if_splits)
  show "k1 = k2" if "(k1, j, u1) \<in> set (leases ?w)" "(k2, j, u2) \<in> set (leases ?w)"
      "clock ?w \<le> u1" "clock ?w \<le> u2" for k1 k2 j u1 u2
    using that ok(4) [of k1 j u1 k2 u2] other [of k1 u1] other [of k2 u2] by auto
qed

lemma world_ok_step:
  assumes "lease_step key w w'" "world_ok key w"
  shows "world_ok key w'"
  using assms(1)
proof (cases rule: lease_step.cases)
  case (step_tick d)
  show ?thesis unfolding step_tick(1) using assms(2) step_tick(2) by (fastforce simp: world_ok_def)
next
  case (step_insert x)
  note ok = world_okD [OF assms(2)]
  show ?thesis unfolding step_insert
  proof (rule world_okI)
    show "queue_ok key (wq (w\<lparr>wq := insert_row key x (wq w)\<rparr>))" using queue_ok_ops(1) [OF ok(1)] by simp
  qed (use ok in \<open>auto simp: lease_of_insert dest: ok(2) ok(3)\<close>)
next
  case (step_claim t b l k)
  show ?thesis unfolding step_claim(1) by (rule world_ok_claim [OF assms(2) step_claim(2)])
next
  case (step_heartbeat k i u t)
  show ?thesis unfolding step_heartbeat(1)
    by (rule world_ok_heartbeat [OF assms(2) step_heartbeat(2-4)])
next
  case (step_complete k i)
  have "world_ok key (w\<lparr>wq := complete i (wq w)\<rparr>)"
    using world_okD [OF assms(2)] queue_ok_ops(4)
    by (intro world_okI) (auto simp: lease_of_complete split: if_splits)
  from world_ok_drop [OF this] show ?thesis unfolding step_complete by simp
next
  case (step_increment i)
  show ?thesis unfolding step_increment
    using world_okD [OF assms(2)] queue_ok_ops(5) by (intro world_okI) (auto simp: lease_of_increment)
next
  case (step_requeue t m)
  note ok = world_okD [OF assms(2)]
  show ?thesis unfolding step_requeue(1)
  proof (rule world_okI)
    show "queue_ok key (wq (w\<lparr>wq := requeue m t (wq w)\<rparr>))" using queue_ok_ops(6) [OF ok(1)] by simp
    fix k i u c
    assume a: "(k, i, u) \<in> set (leases (w\<lparr>wq := requeue m t (wq w)\<rparr>))"
      "clock (w\<lparr>wq := requeue m t (wq w)\<rparr>) \<le> u"
      "lease_of (wq (w\<lparr>wq := requeue m t (wq w)\<rparr>)) i = Some c"
    obtain r where "r \<in> set (rows (wq w))" "row_id r = i"
      using lease_of_SomeD [OF a(3)] by (auto simp: requeue_def split: if_splits)
    then have l: "lease_of (wq w) i = Some (claimed_until r)"
      using lease_of_row [OF queue_ok_ids [OF ok(1)]] by blast
    then obtain v where "claimed_until r = Some v" "u \<le> v" using ok(3) [OF _ _ l] a(1,2) by auto
    then show "\<exists>v. c = Some v \<and> u \<le> v"
      using lease_of_requeue [OF queue_ok_ids [OF ok(1)], of m t i c v] l a(2,3) step_requeue(2) by simp
  qed (use ok in auto)
next
  case (step_drop m t)
  note ok = world_okD [OF assms(2)]
  show ?thesis unfolding step_drop
  proof (rule world_okI)
    show "queue_ok key (wq (w\<lparr>wq := snd (drop_dead m t (wq w))\<rparr>))" using queue_ok_ops(7) [OF ok(1)] by simp
  qed (use ok lease_of_drop [OF queue_ok_ids [OF ok(1)]] in auto)
qed

lemma world_ok_reach: "lease_reach key w \<Longrightarrow> world_ok key w"
proof (induction rule: lease_reach.induct)
  case (reach_start t)
  then show ?case by (auto simp: world_ok_def queue_ok_empty)
qed (rule world_ok_step)

section \<open>Properties\<close>

text \<open>
  C2. In every reachable state of any number of workers inserting, claiming, extending,
  completing and sweeping in any order, at most one worker holds an unexpired lease on a row.
\<close>

theorem lease_mutual_exclusion:
  assumes "lease_reach key w" "current_lease w k i" "current_lease w k' i"
  shows "k = k'"
  using world_ok_reach [OF assms(1)] assms(2,3) world_okD(4) unfolding current_lease_def by blast

definition demo_world :: "string world" where
  "demo_world =
     \<lparr>wq = \<lparr>rows = [\<lparr>row_id = 1, item = ''10.0.0.1/32'', attempts = 0, claimed_until = Some 1300\<rparr>],
            next_id = 2\<rparr>, clock = 1000, leases = [(7, 1, 1300)]\<rparr>"

theorem lease_mutual_exclusion_witness: "\<forall>k. current_lease demo_world k 1 = (k = 7)"
proof
  fix k
  let ?w0 = "\<lparr>wq = empty_queue, clock = 1000, leases = []\<rparr> :: string world"
  let ?w1 = "?w0\<lparr>wq := insert_row id ''10.0.0.1/32'' (wq ?w0)\<rparr>"
  let ?c = "claim_rows 1 1000 [] (wq ?w1)"
  let ?w2 = "?w1\<lparr>wq := snd ?c, leases := map (\<lambda>r. (7, row_id r, 1000 + lease_secs)) (fst ?c) @ leases ?w1\<rparr>"
  have "lease_step id ?w1 ?w2" by (rule step_claim) simp
  then have "lease_reach id ?w2"
    by (rule reach_step [OF reach_step [OF reach_start step_insert]])
  moreover have "?w2 = demo_world" by code_simp
  ultimately have r: "lease_reach id demo_world" by simp
  have c: "current_lease demo_world 7 1" by (simp add: current_lease_def demo_world_def)
  show "current_lease demo_world k 1 = (k = 7)"
    using lease_mutual_exclusion [OF r _ c] c by blast
qed

text \<open>
  No key is queued twice and no row id is used twice: in every reachable state the rows of the
  table have distinct ids and distinct keys.
\<close>

theorem queue_keys_unique:
  assumes "lease_reach key w"
  shows "distinct (map row_id (rows (wq w))) \<and> distinct (map (\<lambda>r. key (item r)) (rows (wq w)))"
  using world_ok_reach [OF assms] by (simp add: world_ok_def queue_ok_def)

theorem queue_keys_unique_witness:
  "let w = \<lparr>wq = insert_row id ''a'' (insert_row id ''a'' empty_queue), clock = 5, leases = []\<rparr>
   in distinct (map row_id (rows (wq w))) \<and> distinct (map (\<lambda>r. id (item r)) (rows (wq w))) \<and>
      length (rows (wq w)) = 1 \<and> next_id (wq w) = 3"
proof -
  let ?w0 = "\<lparr>wq = empty_queue, clock = 5, leases = []\<rparr> :: string world"
  let ?w1 = "?w0\<lparr>wq := insert_row id ''a'' (wq ?w0)\<rparr>"
  have "lease_reach id (?w1\<lparr>wq := insert_row id ''a'' (wq ?w1)\<rparr>)"
    by (rule reach_step [OF reach_step [OF reach_start step_insert] step_insert])
  from queue_keys_unique [OF this] show ?thesis
    by (simp add: Let_def insert_row_def empty_queue_def)
qed

text \<open>
  Two claims of service probes, the second no later than \<open>lease_secs\<close> after the first, return
  disjoint rows, whatever their batch sizes and whatever rows are locked.
\<close>

theorem probe_claims_disjoint:
  assumes "distinct (map row_id (rows q))" "t' \<le> t + lease_secs"
  shows "fst ` set (fst (claim_service_probes b t l q)) \<inter>
         fst ` set (fst (claim_service_probes b' t' l' (snd (claim_service_probes b t l q)))) = {}"
  by (rule probes.claims_disjoint [OF assms])

definition demo_probes :: probe_queue where
  "demo_probes =
     \<lparr>rows = map (\<lambda>i. \<lparr>row_id = i, item = \<lparr>sp_ip = ''10.0.0.1'', sp_port = 79 + i, sp_transport = ''tcp''\<rparr>,
        attempts = 0, claimed_until = None\<rparr>) [1, 2, 3], next_id = 4\<rparr>"

theorem probe_claims_disjoint_witness:
  "map fst (fst (claim_service_probes 2 1000 [] demo_probes)) = [1, 2] \<and>
   fst ` set (fst (claim_service_probes 2 1000 [] demo_probes)) \<inter>
   fst ` set (fst (claim_service_probes 2 1300 [] (snd (claim_service_probes 2 1000 [] demo_probes)))) = {}"
proof -
  have "distinct (map row_id (rows demo_probes))" and "1300 \<le> 1000 + lease_secs"
    and "map fst (fst (claim_service_probes 2 1000 [] demo_probes)) = [1, 2]" by code_simp+
  then show ?thesis using probe_claims_disjoint by blast
qed

text \<open>
  The claimable probe with the smallest id is handed out by every claim that does not find it
  locked, however many attempts were counted: a row whose lease has expired is retried for ever.
\<close>

theorem oldest_probe_claimed:
  assumes "distinct (map row_id (rows q))" "r \<in> set (rows q)" "claimable t r" "row_id r \<notin> set l"
    "0 < b" "\<And>s. s \<in> set (rows q) \<Longrightarrow> claimable t s \<Longrightarrow> row_id r \<le> row_id s"
  shows "row_id r \<in> fst ` set (fst (claim_service_probes b t l q))"
  by (rule probes.oldest_claimed [OF assms])

theorem oldest_probe_claimed_witness:
  "1 \<in> fst ` set (fst (claim_service_probes 1 1000 [2] demo_probes))"
proof -
  let ?r = "\<lparr>row_id = 1, item = \<lparr>sp_ip = ''10.0.0.1'', sp_port = 80, sp_transport = ''tcp''\<rparr>,
        attempts = 0, claimed_until = None\<rparr>"
  have "row_id ?r \<in> fst ` set (fst (claim_service_probes 1 1000 [2] demo_probes))"
    by (rule oldest_probe_claimed) (auto simp: demo_probes_def claimable_def)
  then show ?thesis by simp
qed

text \<open>
  A sweep drops exactly the rows whose lease has expired and whose attempts are used up, and
  returns their number; it frees the other expired rows and leaves all others as they are.
\<close>

theorem sweep_spec:
  "sweep m t q =
     (length (filter (\<lambda>r. lease_expired t r \<and> m \<le> attempts r) (rows q)),
      q\<lparr>rows := map (\<lambda>r. if lease_expired t r then r\<lparr>claimed_until := None\<rparr> else r)
         (filter (\<lambda>r. \<not> (lease_expired t r \<and> m \<le> attempts r)) (rows q))\<rparr>)"
proof -
  have "snd (sweep m t q) = q\<lparr>rows := rows (snd (sweep m t q))\<rparr>" by (simp add: sweep_defs Let_def)
  then show ?thesis using sweep_rows [of m t q] sweep_count [of m t q] by (metis prod.collapse)
qed

end
