(* ===== verification/Pipeline.thy ===== *)
theory Pipeline
  imports Dispatch Fingerprint Tech Normalize Queue
begin

text \<open>
  Probing and storing one service, \<open>src/probe/dispatch.rs\<close>, and the re-identification pass,
  \<open>src/reidentify.rs\<close>.  The database is a record of its tables; a statement fails only on a constraint
  or a type error.  The environment adds to that of the probes the signature corpus, the Unicode
  alphanumeric table, the cast to \<open>inet\<close>, the reverse lookup, the GeoIP lookups and the serde
  conversions.  \<open>clk\<close> gives the successive clock readings.  The lemmas: what is stored is in normal form
  and has one of the kinds of the dispatcher, the service key stays unique, no stored document contains
  a NUL, and a re-identification touches each HTTP row once.
\<close>

section \<open>Tables\<close>

record host_row =
  ho_id :: int
  ho_ip :: string
  ho_reverse_dns :: "string option"
  ho_country :: "string option"
  ho_asn :: "int option"
  ho_org :: "string option"
  ho_first_seen :: int
  ho_last_seen :: int
  ho_honeypot :: bool

record service_row =
  sv_id :: int
  sv_host_id :: int
  sv_port :: int
  sv_transport :: string
  sv_sni :: "string option"
  sv_data :: json
  sv_first_seen :: int
  sv_last_seen :: int

record db =
  db_hosts :: "host_row list"
  db_next_host :: int
  db_services :: "service_row list"
  db_next_service :: int
  db_host_queue :: host_queue
  db_probe_queue :: probe_queue
  db_enrich_queue :: enrich_queue

record pipeline =
  cx_env :: probe_env
  cx_signatures :: "compiled_signature list"
  cx_ualnum :: "string \<Rightarrow> bool"
  cx_inet :: "string \<Rightarrow> string option"
  cx_rdns :: "string \<Rightarrow> string option outcome"
  cx_city :: "string \<Rightarrow> string option option"
  cx_asn :: "string \<Rightarrow> (u32 option \<times> string option) option"
  cx_ser :: "service_data \<Rightarrow> json"
  cx_de :: "json \<Rightarrow> service_data option"

record probe_result =
  pr_host_id :: int
  pr_ip :: string
  pr_port :: u16
  pr_transport :: string
  pr_sni :: "string option"
  pr_data :: service_data

abbreviation cx_lc :: "pipeline \<Rightarrow> string \<Rightarrow> string" where
  "cx_lc cx \<equiv> e_lc (pe_http (cx_env cx))"

abbreviation cx_sha :: "pipeline \<Rightarrow> u8 list \<Rightarrow> u8 list" where
  "cx_sha cx \<equiv> e_sha (pe_http (cx_env cx))"

section \<open>Identification of a dispatched service\<close>

definition clean_ip :: "string \<Rightarrow> string" where
  "clean_ip ip = hd (split_on (CHR ''/'') ip)"

definition with_tech_tags :: "pipeline \<Rightarrow> service_data \<Rightarrow> service_data outcome" where
  "with_tech_tags cx d =
     (case sd_http d of
        None \<Rightarrow> Ok d
      | Some h \<Rightarrow>
          bind_outcome (detect (cx_lc cx) (cx_ualnum cx) (h_headers h)
                          (case h_body h of Some b \<Rightarrow> b | None \<Rightarrow> [])) (\<lambda>tech_tags.
            Ok (d\<lparr>sd_http := Some (h\<lparr>h_tags := foldl merge_tag (h_tags h) tech_tags\<rparr>)\<rparr>)))"

definition identified :: "pipeline \<Rightarrow> service_data \<Rightarrow> service_data outcome" where
  "identified cx d =
     bind_outcome (with_tech_tags cx d) (\<lambda>d.
       Ok (normalize_service (cx_lc cx) (identify (cx_lc cx) (cx_sha cx) (cx_signatures cx) d)))"

definition probe_standalone :: "pipeline \<Rightarrow> string \<Rightarrow> u16 \<Rightarrow> net \<Rightarrow> service_data outcome \<times> net" where
  "probe_standalone cx ip_str port n =
     and_then (dispatch (cx_env cx) (clean_ip ip_str) port n) (\<lambda>d n.
       (identified cx (d\<lparr>sd_port := Some port\<rparr>), n))"

section \<open>The host of a service\<close>

definition update_host :: "int \<Rightarrow> (host_row \<Rightarrow> host_row) \<Rightarrow> db \<Rightarrow> db" where
  "update_host i f s = s\<lparr>db_hosts := map (\<lambda>h. if ho_id h = i then f h else h) (db_hosts s)\<rparr>"

definition ensure_host :: "pipeline \<Rightarrow> int \<Rightarrow> string \<Rightarrow> db \<Rightarrow> int outcome \<times> db" where
  "ensure_host cx now ip s =
     (case cx_inet cx ip of
        None \<Rightarrow> (Bail ''invalid input syntax for type inet'', s)
      | Some a \<Rightarrow>
          (let s' = s\<lparr>db_next_host := db_next_host s + 1\<rparr>
           in case find (\<lambda>h. ho_ip h = a) (db_hosts s) of
                Some h \<Rightarrow> (Ok (ho_id h), update_host (ho_id h) (\<lambda>h. h\<lparr>ho_last_seen := now\<rparr>) s')
              | None \<Rightarrow>
                  (Ok (db_next_host s),
                   s'\<lparr>db_hosts := db_hosts s @
                     [\<lparr>ho_id = db_next_host s, ho_ip = a, ho_reverse_dns = None, ho_country = None,
                       ho_asn = None, ho_org = None, ho_first_seen = now, ho_last_seen = now,
                       ho_honeypot = False\<rparr>]\<rparr>)))"

text \<open>\<open>COALESCE($n, column)\<close>.\<close>

definition coalesce :: "'a option \<Rightarrow> 'a option \<Rightarrow> 'a option" where
  "coalesce new old = (case new of Some x \<Rightarrow> Some x | None \<Rightarrow> old)"

definition set_country :: "int \<Rightarrow> string option \<Rightarrow> host_row \<Rightarrow> host_row" where
  "set_country now c h = h\<lparr>ho_country := coalesce c (ho_country h), ho_last_seen := now\<rparr>"

definition set_asn :: "int \<Rightarrow> int option \<Rightarrow> string option \<Rightarrow> host_row \<Rightarrow> host_row" where
  "set_asn now n g h =
     h\<lparr>ho_asn := coalesce n (ho_asn h), ho_org := coalesce g (ho_org h), ho_last_seen := now\<rparr>"

text \<open>
  The updates of the host after a successful dispatch.  The column \<open>asn\<close> is a 32-bit \<open>INTEGER\<close>: a number
  from \<open>2 ^ 31\<close> on is an error of the statement.
\<close>

definition update_dns :: "pipeline \<Rightarrow> int \<Rightarrow> string \<Rightarrow> int \<Rightarrow> db \<Rightarrow> db" where
  "update_dns cx now ip i s =
     (case cx_rdns cx ip of
        Ok (Some hostname) \<Rightarrow>
          update_host i (\<lambda>h. h\<lparr>ho_reverse_dns := Some hostname, ho_last_seen := now\<rparr>) s
      | _ \<Rightarrow> s)"

definition update_country :: "pipeline \<Rightarrow> int \<Rightarrow> string \<Rightarrow> int \<Rightarrow> db \<Rightarrow> db" where
  "update_country cx now ip i s =
     (case cx_city cx ip of Some c \<Rightarrow> update_host i (set_country now c) s | None \<Rightarrow> s)"

definition update_asn :: "pipeline \<Rightarrow> int \<Rightarrow> string \<Rightarrow> int \<Rightarrow> db \<Rightarrow> unit outcome \<times> db" where
  "update_asn cx now ip i s =
     (case cx_asn cx ip of
        None \<Rightarrow> (Ok (), s)
      | Some (n, g) \<Rightarrow>
          if (case n of Some a \<Rightarrow> 2 ^ 31 \<le> unat a | None \<Rightarrow> False) \<and> (\<exists>h\<in>set (db_hosts s). ho_id h = i)
          then (Bail ''integer out of range'', s)
          else (Ok (), update_host i (set_asn now (map_option (\<lambda>a. int (unat a)) n) g) s))"

text \<open>\<open>probe\<close>: nothing is stored before the dispatch and the identification have succeeded.\<close>

definition probe ::
  "pipeline \<Rightarrow> (nat \<Rightarrow> int) \<Rightarrow> string \<Rightarrow> u16 \<Rightarrow> string \<Rightarrow> db \<Rightarrow> net \<Rightarrow> probe_result outcome \<times> db \<times> net"
where
  "probe cx clk ip_str port transport s n =
     (let ip = clean_ip ip_str
      in case dispatch (cx_env cx) ip port n of
           (Bail e, n) \<Rightarrow>
             (Bail (''probe dispatch failed for '' @ ip @ '':'' @ dec (unat port) @ '': '' @ e), s, n)
         | (Panic, n) \<Rightarrow> (Panic, s, n)
         | (Ok d, n) \<Rightarrow>
             (case identified cx (d\<lparr>sd_port := Some port\<rparr>) of
                Bail e \<Rightarrow> (Bail e, s, n)
              | Panic \<Rightarrow> (Panic, s, n)
              | Ok d \<Rightarrow>
                  (case ensure_host cx (clk 0) ip s of
                     (Bail e, s) \<Rightarrow> (Bail e, s, n)
                   | (Panic, s) \<Rightarrow> (Panic, s, n)
                   | (Ok i, s) \<Rightarrow>
                       (case update_asn cx (clk 3) ip i
                               (update_country cx (clk 2) ip i (update_dns cx (clk 1) ip i s)) of
                          (Bail e, s) \<Rightarrow> (Bail e, s, n)
                        | (Panic, s) \<Rightarrow> (Panic, s, n)
                        | (Ok _, s) \<Rightarrow>
                            (Ok \<lparr>pr_host_id = i, pr_ip = ip, pr_port = port, pr_transport = transport,
                                 pr_sni = None, pr_data = d\<rparr>, s, n)))))"

section \<open>Storing a service\<close>

fun sanitize_json_nulls :: "json \<Rightarrow> json" where
  "sanitize_json_nulls (JStr s) = JStr (filter (\<lambda>c. c \<noteq> CHR 0x00) s)"
| "sanitize_json_nulls (JArr vs) = JArr (map sanitize_json_nulls vs)"
| "sanitize_json_nulls (JObj kvs) = JObj (map (\<lambda>(k, v). (k, sanitize_json_nulls v)) kvs)"
| "sanitize_json_nulls v = v"

definition service_key :: "service_row \<Rightarrow> int \<times> int \<times> string \<times> string" where
  "service_key r =
     (sv_host_id r, sv_port r, sv_transport r, case sv_sni r of Some x \<Rightarrow> x | None \<Rightarrow> [])"

definition services_of :: "int \<Rightarrow> db \<Rightarrow> service_row list" where
  "services_of i s = filter (\<lambda>r. sv_host_id r = i) (db_services s)"

text \<open>The honeypot statement.\<close>

definition mark_honeypot :: "int \<Rightarrow> db \<Rightarrow> db" where
  "mark_honeypot i s =
     update_host i (\<lambda>h. if \<not> ho_honeypot h \<and> length (services_of i s) > 50
                        then h\<lparr>ho_honeypot := True\<rparr> else h) s"

definition insert_service :: "service_row \<Rightarrow> db \<Rightarrow> int \<times> db" where
  "insert_service r s =
     (let s' = s\<lparr>db_next_service := db_next_service s + 1\<rparr>
      in case find (\<lambda>q. service_key q = service_key r) (db_services s) of
           Some q \<Rightarrow>
             (sv_id q,
              s'\<lparr>db_services := map (\<lambda>x. if sv_id x = sv_id q
                   then x\<lparr>sv_data := sv_data r, sv_last_seen := sv_last_seen r\<rparr> else x) (db_services s)\<rparr>)
         | None \<Rightarrow>
             (db_next_service s,
              s'\<lparr>db_services := db_services s @ [r\<lparr>sv_id := db_next_service s\<rparr>]\<rparr>))"

text \<open>The insert statement with its constraints; an identity value is drawn in any case.\<close>

definition store_row :: "pipeline \<Rightarrow> int \<Rightarrow> probe_result \<Rightarrow> db \<Rightarrow> int outcome \<times> db" where
  "store_row cx t r s =
     (if pr_port r = 0 \<or> (\<forall>h\<in>set (db_hosts s). ho_id h \<noteq> pr_host_id r)
      then (Bail ''constraint violation'', s\<lparr>db_next_service := db_next_service s + 1\<rparr>)
      else (let (i, s) = insert_service
                  \<lparr>sv_id = 0, sv_host_id = pr_host_id r, sv_port = int (unat (pr_port r)),
                   sv_transport = pr_transport r, sv_sni = pr_sni r,
                   sv_data = sanitize_json_nulls (cx_ser cx (pr_data r)),
                   sv_first_seen = t, sv_last_seen = t\<rparr> s
            in (Ok i, s)))"

definition upsert_service :: "pipeline \<Rightarrow> int \<Rightarrow> probe_result \<Rightarrow> db \<Rightarrow> int outcome \<times> db" where
  "upsert_service cx t r s =
     (if sd_kind (pr_data r) = ''firewalled''
      then (Bail (''firewalled '' @ [CHR 0xE2, CHR 0x80, CHR 0x94] @ '' skipping storage''), s)
      else (case store_row cx t r s of
              (Ok i, s) \<Rightarrow> (Ok i, mark_honeypot (pr_host_id r) s)
            | (Bail e, s) \<Rightarrow> (Bail e, s)
            | (Panic, s) \<Rightarrow> (Panic, s)))"

definition enqueue :: "int \<Rightarrow> string \<Rightarrow> int \<Rightarrow> db \<Rightarrow> bool \<times> db" where
  "enqueue service_id kind now s =
     (let (ok, q) = insert_enrichment (map sv_id (db_services s)) service_id kind now (db_enrich_queue s)
      in (ok, s\<lparr>db_enrich_queue := q\<rparr>))"

definition wanted_enrichments :: "service_data \<Rightarrow> string list" where
  "wanted_enrichments d =
     (if sd_http d \<noteq> None then [''favicon''] else []) @
     (if sd_rtsp d \<noteq> None then [''rtsp_frame''] else []) @
     (if ''camera'' \<in> set (sd_tags d) then [''camera_frame''] else [])"

text \<open>\<open>maybe_enqueue_enrichments\<close> returns at the first error.\<close>

fun enqueue_all :: "(nat \<Rightarrow> int) \<Rightarrow> int \<Rightarrow> string list \<Rightarrow> db \<Rightarrow> db" where
  "enqueue_all clk service_id [] s = s"
| "enqueue_all clk service_id (k # ks) s =
     (let (ok, s) = enqueue service_id k (clk 0) s
      in if ok then enqueue_all (\<lambda>i. clk (Suc i)) service_id ks s else s)"

definition maybe_enqueue_enrichments :: "(nat \<Rightarrow> int) \<Rightarrow> int \<Rightarrow> service_data \<Rightarrow> db \<Rightarrow> db" where
  "maybe_enqueue_enrichments clk service_id d s = enqueue_all clk service_id (wanted_enrichments d) s"

section \<open>Re-identification\<close>

definition reset_identity :: "service_data \<Rightarrow> service_data" where
  "reset_identity d =
     d\<lparr>sd_product := None, sd_version := None, sd_confidence := None, sd_tags := []\<rparr>"

definition reidentified :: "pipeline \<Rightarrow> json \<Rightarrow> json option" where
  "reidentified cx v =
     (case cx_de cx v of
        None \<Rightarrow> None
      | Some d \<Rightarrow> (case identified cx (reset_identity d) of Ok d \<Rightarrow> Some (cx_ser cx d) | _ \<Rightarrow> None))"

definition reidentify_http :: "pipeline \<Rightarrow> service_table \<Rightarrow> pass_result" where
  "reidentify_http cx t =
     keyset_loop (\<lambda>v. json_get v ''http'' \<noteq> None) (reidentified cx) 1000 0 t 0"


section \<open>Normal form of what is stored\<close>

lemma identify_keeps [simp]:
  "sd_kind (identify lc sha sigs d) = sd_kind d" "sd_port (identify lc sha sigs d) = sd_port d"
  "sd_ssl (identify lc sha sigs d) = sd_ssl d" "sd_http (identify lc sha sigs d) = sd_http d"
  by (simp_all add: identify_def split: option.split)

lemma normalize_keeps [simp]:
  "sd_kind (normalize_service lc d) = canonical_kind (sd_kind d)"
  "sd_port (normalize_service lc d) = sd_port d" "sd_ssl (normalize_service lc d) = sd_ssl d"
  "sd_http (normalize_service lc d) = sd_http d"
  by (simp_all add: normalize_service_def normalize_tags_def)

lemma tech_tags_keep:
  "with_tech_tags cx d = Ok d' \<Longrightarrow>
   sd_kind d' = sd_kind d \<and> sd_port d' = sd_port d \<and> sd_ssl d' = sd_ssl d \<and>
   (sd_http d' = None \<longleftrightarrow> sd_http d = None)"
  by (auto simp: with_tech_tags_def split: option.splits)

lemma identified_normal:
  assumes "identified cx d = Ok d'"
  shows "normalize_service (cx_lc cx) d' = d' \<and> sd_kind d' = canonical_kind (sd_kind d) \<and>
         sd_port d' = sd_port d \<and> sd_ssl d' = sd_ssl d \<and> (sd_http d' = None \<longleftrightarrow> sd_http d = None)"
proof -
  from assms obtain x where x: "with_tech_tags cx d = Ok x"
    "d' = normalize_service (cx_lc cx) (identify (cx_lc cx) (cx_sha cx) (cx_signatures cx) x)"
    by (auto simp: identified_def)
  show ?thesis using tech_tags_keep [OF x(1)] unfolding x(2) by (simp add: service.idem)
qed

lemma canonical_found: "k \<in> set found_kinds \<Longrightarrow> canonical_kind k \<in> set found_kinds - {''https''}"
  by (auto simp: found_kinds_def canonical_kind_def)

text \<open>
  C9. Whatever a probe reports is in normal form, carries its port, has one of the dispatcher's kinds
  other than \<open>https\<close>, and has no certificate data.
\<close>

theorem probe_standalone_normal:
  assumes "fst (probe_standalone cx ip port n) = Ok d"
  shows "normalize_service (cx_lc cx) d = d \<and> sd_port d = Some port \<and>
         sd_kind d \<in> set found_kinds - {''https''} \<and> sd_ssl d = None"
proof -
  from assms obtain x where x: "fst (dispatch (cx_env cx) (clean_ip ip) port n) = Ok x"
    "identified cx (x\<lparr>sd_port := Some port\<rparr>) = Ok d"
    unfolding probe_standalone_def by (auto elim: and_then_OkE)
  show ?thesis
    using identified_normal [OF x(2)] dispatch_result [OF x(1)] canonical_found by simp
qed

definition demo_pipeline :: pipeline where
  "demo_pipeline =
     \<lparr>cx_env = demo_env, cx_signatures = [], cx_ualnum = \<lambda>c. False, cx_inet = Some,
      cx_rdns = \<lambda>ip. Ok None, cx_city = \<lambda>ip. None, cx_asn = \<lambda>ip. None,
      cx_ser = \<lambda>d. JObj [(''kind'', JStr (sd_kind d))], cx_de = \<lambda>v. None\<rparr>"

definition mikrotik_net :: net where
  "mikrotik_net = \<lparr>n_conns = [Inr [RData [1, 0, 0, 0]]], n_log = []\<rparr>"

definition mikrotik_service :: service_data where
  "mikrotik_service =
     default_service_data\<lparr>sd_kind := ''mikrotik'', sd_port := Some 2000, sd_product := Some ''mikrotik'',
       sd_tags := [''networking''], sd_banner := Some ''MikroTik bandwidth-test server'',
       sd_mikrotik := Some \<lparr>mikrotik_auth_mode = None\<rparr>\<rparr>"

lemma demo_standalone:
  "fst (probe_standalone demo_pipeline ''10.0.0.1/32'' 2000 mikrotik_net) = Ok mikrotik_service"
  by code_simp

theorem probe_standalone_normal_witness:
  "normalize_service id mikrotik_service = mikrotik_service \<and> sd_port mikrotik_service = Some 2000"
  using probe_standalone_normal [OF demo_standalone] by (simp add: demo_pipeline_def demo_env_def)

section \<open>Documents without NUL\<close>

fun no_nul :: "json \<Rightarrow> bool" where
  "no_nul (JStr s) = list_all (\<lambda>c. c \<noteq> CHR 0x00) s"
| "no_nul (JArr vs) = list_all no_nul vs"
| "no_nul (JObj kvs) = list_all (\<lambda>(k, v). no_nul v) kvs"
| "no_nul v = True"

lemma sanitize_no_nul: "no_nul (sanitize_json_nulls v)"
  by (induction v rule: sanitize_json_nulls.induct) (auto simp: list_all_iff)

lemma sanitize_fixed: "no_nul v \<Longrightarrow> sanitize_json_nulls v = v"
  by (induction v rule: sanitize_json_nulls.induct)
     (auto simp: list_all_iff intro!: map_idI filter_True)

interpretation sanitize: normalizer sanitize_json_nulls
  by unfold_locales (rule sanitize_fixed [OF sanitize_no_nul])

text \<open>
  Sanitizing removes every NUL from the string values of a document, changes nothing in a document
  without one, and doing it twice is doing it once.
\<close>

theorem sanitize_json_spec:
  "no_nul (sanitize_json_nulls v) \<and> (sanitize_json_nulls v = v \<longleftrightarrow> no_nul v) \<and>
   sanitize_json_nulls (sanitize_json_nulls v) = sanitize_json_nulls v"
  using sanitize_no_nul [of v] sanitize_fixed [of v] sanitize.idem [of v] by metis

section \<open>The database invariant\<close>

definition hosts_ok :: "db \<Rightarrow> bool" where
  "hosts_ok s =
     (distinct (map ho_id (db_hosts s)) \<and> distinct (map ho_ip (db_hosts s)) \<and>
      (\<forall>h\<in>set (db_hosts s). ho_id h < db_next_host s))"

definition services_ok :: "db \<Rightarrow> bool" where
  "services_ok s =
     (distinct (map sv_id (db_services s)) \<and> distinct (map service_key (db_services s)) \<and>
      (\<forall>r\<in>set (db_services s). sv_id r < db_next_service s \<and> sv_host_id r \<in> ho_id ` set (db_hosts s)))"

definition queues_ok :: "db \<Rightarrow> bool" where
  "queues_ok s =
     (queue_ok id (db_host_queue s) \<and> queue_ok probe_key (db_probe_queue s) \<and>
      queue_ok enrich_key (db_enrich_queue s))"

definition db_ok :: "db \<Rightarrow> bool" where
  "db_ok s = (hosts_ok s \<and> services_ok s \<and> queues_ok s)"

lemmas db_ok_defs = db_ok_def hosts_ok_def services_ok_def queues_ok_def

lemma db_ok_update_host:
  assumes "db_ok s" "\<And>h. ho_id (f h) = ho_id h" "\<And>h. ho_ip (f h) = ho_ip h"
  shows "db_ok (update_host i f s)"
proof -
  define g where "g = (\<lambda>h. if ho_id h = i then f h else h)"
  have g: "ho_id (g h) = ho_id h" "ho_ip (g h) = ho_ip h" for h
    using assms(2,3) by (simp_all add: g_def)
  have "update_host i f s = s\<lparr>db_hosts := map g (db_hosts s)\<rparr>" by (simp add: update_host_def g_def)
  moreover have "ho_id ` g ` H = ho_id ` H" for H by (simp add: image_image g)
  ultimately show ?thesis using assms(1) by (auto simp: db_ok_defs comp_def g)
qed

lemma db_ok_ensure_host: "db_ok s \<Longrightarrow> db_ok (snd (ensure_host cx now ip s))"
proof -
  assume s: "db_ok s"
  have next_ok: "db_ok (s\<lparr>db_next_host := db_next_host s + 1\<rparr>)" using s by (force simp: db_ok_defs)
  show ?thesis
  proof (cases "cx_inet cx ip")
    case None
    then show ?thesis using s by (simp add: ensure_host_def)
  next
    case (Some a)
    show ?thesis
    proof (cases "find (\<lambda>h. ho_ip h = a) (db_hosts s)")
      case None
      then have "a \<notin> ho_ip ` set (db_hosts s)" by (auto simp: find_None_iff)
      then show ?thesis using s Some None by (force simp: ensure_host_def db_ok_defs Let_def)
    next
      case found: (Some h)
      show ?thesis using Some found db_ok_update_host [OF next_ok] by (simp add: ensure_host_def Let_def)
    qed
  qed
qed

lemma db_ok_host_updates:
  "db_ok s \<Longrightarrow> db_ok (update_dns cx t ip i s)"
  "db_ok s \<Longrightarrow> db_ok (update_country cx t ip i s)"
  "db_ok s \<Longrightarrow> db_ok (snd (update_asn cx t ip i s))"
  by (auto simp: update_dns_def update_country_def update_asn_def set_country_def set_asn_def
      intro!: db_ok_update_host split: outcome.splits option.splits)

lemma db_ok_all_updates:
  "db_ok s \<Longrightarrow> db_ok (snd (update_asn cx t3 ip i (update_country cx t2 ip i (update_dns cx t1 ip i s))))"
  by (intro db_ok_host_updates)

lemma db_ok_probe: "db_ok s \<Longrightarrow> db_ok (fst (snd (probe cx clk ip port tr s n)))"
proof -
  assume s: "db_ok s"
  obtain o1 n1 where d: "dispatch (cx_env cx) (clean_ip ip) port n = (o1, n1)" by fastforce
  obtain o2 s2 where h: "ensure_host cx (clk 0) (clean_ip ip) s = (o2, s2)" by fastforce
  have s2: "db_ok s2" using db_ok_ensure_host [OF s, of cx "clk 0" "clean_ip ip"] h by simp
  have u: "db_ok (snd (update_asn cx (clk 3) (clean_ip ip) i
      (update_country cx (clk 2) (clean_ip ip) i (update_dns cx (clk 1) (clean_ip ip) i s2))))" for i
    using s2 by (rule db_ok_all_updates)
  show ?thesis
  proof (cases o1)
    case (Ok x)
    show ?thesis
    proof (cases "identified cx (x\<lparr>sd_port := Some port\<rparr>)")
      case id: (Ok y)
      show ?thesis
      proof (cases o2)
        case host: (Ok i)
        show ?thesis
          using u [of i] by (auto simp: probe_def Let_def d Ok id h host split: prod.split outcome.split)
      qed (simp_all add: probe_def Let_def d Ok id h s2)
    qed (simp_all add: probe_def Let_def d Ok s)
  qed (simp_all add: probe_def Let_def d s)
qed

lemma insert_service_ok:
  assumes "db_ok s" "sv_host_id r \<in> ho_id ` set (db_hosts s)" "insert_service r s = (i, s')"
  shows "db_ok s' \<and> db_hosts s' = db_hosts s \<and>
    (\<exists>x\<in>set (db_services s'). sv_id x = i \<and> service_key x = service_key r \<and> sv_data x = sv_data r \<and>
       sv_last_seen x = sv_last_seen r) \<and>
    (\<forall>q\<in>set (db_services s). sv_id q \<noteq> i \<longrightarrow> q \<in> set (db_services s'))"
proof (cases "find (\<lambda>q. service_key q = service_key r) (db_services s)")
  case None
  then have k: "service_key r \<notin> service_key ` set (db_services s)" by (auto simp: find_None_iff)
  have key: "service_key (r\<lparr>sv_id := j\<rparr>) = service_key r" for j by (simp add: service_key_def)
  have e: "i = db_next_service s"
    "s' = s\<lparr>db_next_service := db_next_service s + 1, db_services := db_services s @ [r\<lparr>sv_id := i\<rparr>]\<rparr>"
    using assms(3) None by (auto simp: insert_service_def)
  have "db_ok s'" using assms(1,2) k unfolding e by (force simp: db_ok_defs key)
  then show ?thesis by (simp add: e key)
next
  case (Some q)
  then have q: "q \<in> set (db_services s)" "service_key q = service_key r"
    by (auto simp: find_Some_iff)
  define g where "g = (\<lambda>x :: service_row. if sv_id x = sv_id q
    then x\<lparr>sv_data := sv_data r, sv_last_seen := sv_last_seen r\<rparr> else x)"
  have g: "sv_id (g x) = sv_id x" "service_key (g x) = service_key x" "sv_host_id (g x) = sv_host_id x" for x
    by (simp_all add: g_def service_key_def)
  have e: "i = sv_id q"
    "s' = s\<lparr>db_next_service := db_next_service s + 1, db_services := map g (db_services s)\<rparr>"
    using assms(3) Some by (auto simp: insert_service_def g_def)
  have "db_ok s'" using assms(1) unfolding e by (fastforce simp: db_ok_defs comp_def g)
  moreover have "g q \<in> set (map g (db_services s))" using q by simp
  moreover have "x \<in> set (map g (db_services s))" if "x \<in> set (db_services s)" "sv_id x \<noteq> sv_id q" for x
    using that by (auto simp: g_def intro!: image_eqI [of _ _ x])
  moreover have "sv_data (g q) = sv_data r" "sv_last_seen (g q) = sv_last_seen r"
    by (simp_all add: g_def)
  moreover have "db_services s' = map g (db_services s)" "db_hosts s' = db_hosts s" by (simp_all add: e)
  ultimately show ?thesis using q(2) by (auto simp: g e(1) simp del: set_map intro!: bexI [of _ "g q"])
qed

lemma db_ok_mark_honeypot: "db_ok s \<Longrightarrow> db_ok (mark_honeypot i s)"
  unfolding mark_honeypot_def by (rule db_ok_update_host) simp_all

lemma mark_honeypot_services [simp]: "db_services (mark_honeypot i s) = db_services s"
  by (simp add: mark_honeypot_def update_host_def)

definition result_row :: "pipeline \<Rightarrow> int \<Rightarrow> probe_result \<Rightarrow> service_row" where
  "result_row cx t r =
     \<lparr>sv_id = 0, sv_host_id = pr_host_id r, sv_port = int (unat (pr_port r)), sv_transport = pr_transport r,
      sv_sni = pr_sni r, sv_data = sanitize_json_nulls (cx_ser cx (pr_data r)), sv_first_seen = t,
      sv_last_seen = t\<rparr>"

lemma store_row_result:
  assumes "db_ok s" "store_row cx t r s = (res, s')"
  shows "db_ok s' \<and> res \<noteq> Panic \<and> (\<forall>i. res = Ok i \<longrightarrow>
    (\<exists>x\<in>set (db_services s'). sv_id x = i \<and> service_key x = service_key (result_row cx t r) \<and>
       sv_data x = sanitize_json_nulls (cx_ser cx (pr_data r)) \<and> sv_last_seen x = t) \<and>
    (\<forall>q\<in>set (db_services s). sv_id q \<noteq> i \<longrightarrow> q \<in> set (db_services s')))"
proof (cases "pr_port r = 0 \<or> (\<forall>h\<in>set (db_hosts s). ho_id h \<noteq> pr_host_id r)")
  case True
  have "db_ok (s\<lparr>db_next_service := db_next_service s + 1\<rparr>)"
    using assms(1) by (force simp: db_ok_defs)
  then show ?thesis using assms(2) True by (auto simp: store_row_def)
next
  case False
  obtain i s1 where ins: "insert_service (result_row cx t r) s = (i, s1)" by fastforce
  have "sv_host_id (result_row cx t r) \<in> ho_id ` set (db_hosts s)"
    using False by (auto simp: result_row_def intro: rev_image_eqI)
  note i = insert_service_ok [OF assms(1) this ins]
  have "res = Ok i" "s' = s1" using assms(2) False ins by (auto simp: store_row_def result_row_def)
  then show ?thesis using i by (auto simp: result_row_def)
qed

lemma upsert_result:
  assumes "db_ok s" "upsert_service cx t r s = (res, s')"
  shows "db_ok s' \<and> (\<forall>i. res = Ok i \<longrightarrow>
    (\<exists>x\<in>set (db_services s'). sv_id x = i \<and> service_key x = service_key (result_row cx t r) \<and>
       sv_data x = sanitize_json_nulls (cx_ser cx (pr_data r)) \<and> sv_last_seen x = t) \<and>
    (\<forall>q\<in>set (db_services s). sv_id q \<noteq> i \<longrightarrow> q \<in> set (db_services s')))"
proof (cases "sd_kind (pr_data r) = ''firewalled''")
  case True
  then show ?thesis using assms by (auto simp: upsert_service_def)
next
  case False
  obtain o1 s1 where st: "store_row cx t r s = (o1, s1)" by fastforce
  show ?thesis
    using assms(2) False store_row_result [OF assms(1) st]
    by (cases o1) (auto simp: upsert_service_def st db_ok_mark_honeypot)
qed

text \<open>
  C10. Storing a probe result: the services keep unique keys, the row with the key of the result holds the
  sanitized document and the time, it is the row whose id is returned, and every other row is unchanged.
\<close>

theorem upsert_service_spec:
  assumes "db_ok s" "upsert_service cx t r s = (Ok i, s')"
  shows "db_ok s' \<and>
    (\<exists>x\<in>set (db_services s'). sv_id x = i \<and> service_key x = service_key (result_row cx t r) \<and>
       sv_data x = sanitize_json_nulls (cx_ser cx (pr_data r)) \<and> sv_last_seen x = t) \<and>
    (\<forall>q\<in>set (db_services s). sv_id q \<noteq> i \<longrightarrow> q \<in> set (db_services s'))"
  using upsert_result [OF assms] by simp

definition demo_host :: host_row where
  "demo_host =
     \<lparr>ho_id = 1, ho_ip = ''10.0.0.1/32'', ho_reverse_dns = None, ho_country = None, ho_asn = None,
      ho_org = None, ho_first_seen = 5, ho_last_seen = 5, ho_honeypot = False\<rparr>"

definition demo_db :: db where
  "demo_db =
     \<lparr>db_hosts = [demo_host], db_next_host = 2, db_services = [], db_next_service = 1,
      db_host_queue = empty_queue, db_probe_queue = empty_queue, db_enrich_queue = empty_queue\<rparr>"

lemma demo_db_ok: "db_ok demo_db"
  by (simp add: demo_db_def db_ok_defs demo_host_def queue_ok_empty)

definition demo_result :: probe_result where
  "demo_result =
     \<lparr>pr_host_id = 1, pr_ip = ''10.0.0.1'', pr_port = 2000, pr_transport = ''tcp'', pr_sni = None,
      pr_data = mikrotik_service\<rparr>"

theorem upsert_service_spec_witness:
  "\<exists>s'. upsert_service demo_pipeline 9 demo_result demo_db = (Ok 1, s') \<and> db_ok s' \<and>
     (\<exists>x\<in>set (db_services s'). sv_id x = 1 \<and> sv_data x = JObj [(''kind'', JStr ''mikrotik'')])"
proof -
  have "fst (upsert_service demo_pipeline 9 demo_result demo_db) = Ok 1" by code_simp
  then obtain s' where u: "upsert_service demo_pipeline 9 demo_result demo_db = (Ok 1, s')"
    by (cases "upsert_service demo_pipeline 9 demo_result demo_db") auto
  have d: "sanitize_json_nulls (cx_ser demo_pipeline (pr_data demo_result)) = JObj [(''kind'', JStr ''mikrotik'')]"
    by code_simp
  show ?thesis using upsert_service_spec [OF demo_db_ok u] u unfolding d by blast
qed

lemma queue_ok_insert_enrichment:
  "queue_ok enrich_key q \<Longrightarrow> queue_ok enrich_key (snd (insert_enrichment ids i k t q))"
  by (auto simp: insert_enrichment_def Let_def queue_ok_insert queue_ok_next)

lemma db_ok_enqueue: "db_ok s \<Longrightarrow> db_ok (snd (enqueue i k t s))"
  using queue_ok_insert_enrichment [of "db_enrich_queue s" "map sv_id (db_services s)" i k t]
  by (auto simp: enqueue_def db_ok_defs case_prod_beta)

lemma db_ok_enqueue_all: "db_ok s \<Longrightarrow> db_ok (enqueue_all clk i ks s)"
proof (induction ks arbitrary: clk s)
  case (Cons k ks)
  obtain b s1 where e: "enqueue i k (clk 0) s = (b, s1)" by fastforce
  have "db_ok s1" using db_ok_enqueue [OF Cons.prems, of i k "clk 0"] e by simp
  then show ?case using Cons.IH by (simp add: e)
qed simp

lemma enqueue_all_queues [simp]:
  "db_probe_queue (enqueue_all clk i ks s) = db_probe_queue s"
  "db_host_queue (enqueue_all clk i ks s) = db_host_queue s"
  "db_services (enqueue_all clk i ks s) = db_services s"
  "db_hosts (enqueue_all clk i ks s) = db_hosts s"
  by (induction ks arbitrary: clk s) (simp_all add: enqueue_def Let_def case_prod_beta)

section \<open>Re-identification\<close>

text \<open>
  C20. A re-identification rewrites every row with an HTTP payload exactly once, to the re-identified
  document, leaves every other row alone, and counts the rows it changed.
\<close>

theorem reidentify_http_spec:
  assumes "sorted_ids t" "\<And>i v. (i, v) \<in> set t \<Longrightarrow> 0 < i"
    "\<And>i v. (i, v) \<in> set t \<Longrightarrow> json_get v ''http'' \<noteq> None \<Longrightarrow> reidentified cx v = Some (g v)"
  shows "reidentify_http cx t =
     \<lparr>pass_failed = False,
      pass_table = map (\<lambda>(i, v). (i, if json_get v ''http'' \<noteq> None then g v else v)) t,
      pass_updated = length (filter (\<lambda>(i, v). json_get v ''http'' \<noteq> None \<and> g v \<noteq> v) t)\<rparr>"
proof -
  have "reidentify_http cx t =
      \<lparr>pass_failed = False, pass_table = rewrite_from (\<lambda>v. json_get v ''http'' \<noteq> None) g 0 t,
       pass_updated = 0 + changed_from (\<lambda>v. json_get v ''http'' \<noteq> None) g 0 t\<rparr>"
    unfolding reidentify_http_def using assms by (intro keyset_loop_result) auto
  moreover have "rewrite_from (\<lambda>v. json_get v ''http'' \<noteq> None) g 0 t =
      map (\<lambda>(i, v). (i, if json_get v ''http'' \<noteq> None then g v else v)) t"
    using assms(2) by (auto simp: rewrite_from_def)
  moreover have "changed_from (\<lambda>v. json_get v ''http'' \<noteq> None) g 0 t =
      length (filter (\<lambda>(i, v). json_get v ''http'' \<noteq> None \<and> g v \<noteq> v) t)"
    using assms(2) unfolding changed_from_def
    by (intro arg_cong [of _ _ length] filter_cong) auto
  ultimately show ?thesis by simp
qed

definition stored_service :: service_data where
  "stored_service =
     default_service_data\<lparr>sd_kind := ''https'', sd_product := Some ''old'',
       sd_http := Some
         \<lparr>h_status = 200, h_title = None, h_body = None, h_headers = [], h_favicon_hash = None,
          h_server = None, h_host = None, h_rdns = None, h_html_hash = None, h_headers_hash = None,
          h_robots = None, h_securitytxt = None, h_tags = [], h_waf = None, h_redirects = []\<rparr>\<rparr>"

definition reading_pipeline :: pipeline where
  "reading_pipeline = demo_pipeline\<lparr>cx_de := \<lambda>v. Some stored_service\<rparr>"

definition demo_table :: service_table where
  "demo_table = [(1, JObj [(''kind'', JStr ''ssh'')]), (2, JObj [(''http'', JNull)])]"

theorem reidentify_http_spec_witness:
  "pass_table (reidentify_http reading_pipeline demo_table) =
     [(1, JObj [(''kind'', JStr ''ssh'')]), (2, JObj [(''kind'', JStr ''http'')])]"
proof -
  have "reidentified reading_pipeline v = Some (JObj [(''kind'', JStr ''http'')])" for v
  proof -
    have "reidentified reading_pipeline JNull = Some (JObj [(''kind'', JStr ''http'')])" by code_simp
    then show ?thesis by (simp add: reidentified_def reading_pipeline_def)
  qed
  moreover have "sorted_ids demo_table" "\<And>i v. (i, v) \<in> set demo_table \<Longrightarrow> 0 < i"
    by (auto simp: sorted_ids_def demo_table_def)
  ultimately show ?thesis
    using reidentify_http_spec [of demo_table reading_pipeline "\<lambda>v. JObj [(''kind'', JStr ''http'')]"]
    by (simp add: demo_table_def json_get_def)
qed

section \<open>Services with their hosts\<close>

text \<open>\<open>services s JOIN hosts h ON s.host_id = h.id\<close>.\<close>

definition joined :: "db \<Rightarrow> (service_row \<times> host_row) list" where
  "joined s =
     concat (map (\<lambda>r. map (\<lambda>h. (r, h)) (filter (\<lambda>h. ho_id h = sv_host_id r) (db_hosts s))) (db_services s))"

lemma joined_filter:
  "filter (\<lambda>(q, h). sv_id q = i) (joined s) =
     concat (map (\<lambda>r. map (\<lambda>h. (r, h)) (filter (\<lambda>h. ho_id h = sv_host_id r) (db_hosts s)))
       (filter (\<lambda>q. sv_id q = i) (db_services s)))"
proof -
  have "filter (\<lambda>(q, h). sv_id q = i) (concat (map (\<lambda>r. map (\<lambda>h. (r, h)) (g r)) rs)) =
      concat (map (\<lambda>r. map (\<lambda>h. (r, h)) (g r)) (filter (\<lambda>q. sv_id q = i) rs))"
    for g :: "service_row \<Rightarrow> host_row list" and rs by (induction rs) (auto simp: filter_map comp_def)
  then show ?thesis by (simp add: joined_def)
qed

lemma joined_services:
  assumes "db_ok s" "r \<in> set (db_services s)"
  shows "\<exists>h\<in>set (db_hosts s). ho_id h = sv_host_id r \<and>
           filter (\<lambda>k. ho_id k = sv_host_id r) (db_hosts s) = [h]"
proof -
  have "distinct (map ho_id (db_hosts s))" using assms(1) by (simp add: db_ok_def hosts_ok_def)
  moreover obtain h where "h \<in> set (db_hosts s)" "ho_id h = sv_host_id r"
    using assms by (auto simp: db_ok_def services_ok_def)
  ultimately show ?thesis using filter_key [of ho_id "db_hosts s" h] by auto
qed

section \<open>Closed ports\<close>

lemma ensure_host_found:
  assumes "cx_inet cx ip = Some a"
  shows "\<exists>i s'. ensure_host cx now ip s = (Ok i, s') \<and> (\<exists>h\<in>set (db_hosts s'). ho_ip h = a) \<and>
         db_services s' = db_services s"
proof (cases "find (\<lambda>h. ho_ip h = a) (db_hosts s)")
  case None
  then show ?thesis using assms by (simp add: ensure_host_def Let_def)
next
  case (Some h)
  then have "h \<in> set (db_hosts s)" "ho_ip h = a" by (auto simp: find_Some_iff)
  then have "\<exists>k\<in>set (map (\<lambda>k. if ho_id k = ho_id h then k\<lparr>ho_last_seen := now\<rparr> else k) (db_hosts s)). ho_ip k = a"
    by (intro bexI [of _ "h\<lparr>ho_last_seen := now\<rparr>"]) (auto intro!: image_eqI [of _ _ h])
  then show ?thesis using assms Some by (simp add: ensure_host_def Let_def update_host_def)
qed

lemma update_host_fields [simp]:
  "db_services (update_host i f s) = db_services s"
  "db_probe_queue (update_host i f s) = db_probe_queue s"
  "db_enrich_queue (update_host i f s) = db_enrich_queue s"
  "db_host_queue (update_host i f s) = db_host_queue s"
  by (simp_all add: update_host_def)

lemma update_host_ips:
  "(\<And>h. ho_ip (f h) = ho_ip h) \<Longrightarrow> ho_ip ` set (db_hosts (update_host i f s)) = ho_ip ` set (db_hosts s)"
proof -
  assume "\<And>h. ho_ip (f h) = ho_ip h"
  then have "map ho_ip (db_hosts (update_host i f s)) = map ho_ip (db_hosts s)"
    by (simp add: update_host_def)
  then show ?thesis by (metis set_map)
qed

lemma host_updates_keep:
  "ho_ip ` set (db_hosts (update_dns cx t ip i s)) = ho_ip ` set (db_hosts s)"
  "ho_ip ` set (db_hosts (update_country cx t ip i s)) = ho_ip ` set (db_hosts s)"
  "db_services (update_dns cx t ip i s) = db_services s"
  "db_services (update_country cx t ip i s) = db_services s"
  "db_probe_queue (update_dns cx t ip i s) = db_probe_queue s"
  "db_probe_queue (update_country cx t ip i s) = db_probe_queue s"
  by (auto simp: update_dns_def update_country_def set_country_def update_host_ips
      split: outcome.splits option.splits)

lemma update_asn_keep:
  "ho_ip ` set (db_hosts (snd (update_asn cx t ip i s))) = ho_ip ` set (db_hosts s)"
  "db_services (snd (update_asn cx t ip i s)) = db_services s"
  "db_probe_queue (snd (update_asn cx t ip i s)) = db_probe_queue s"
  by (auto simp: update_asn_def set_asn_def update_host_ips split: option.splits)

end
