(* ===== verification/Masscan.thy ===== *)
theory Masscan
  imports Models
begin

text \<open>
  The masscan stage, \<open>src/masscan.rs\<close>: the arguments and temporary files of a run, how its outcome is
  read, and the parser of the report.  Writing and reading files, running the process and parsing JSON
  text are parameters.  The lemmas: a report lists its open ports in order, ports modulo 65536, and the
  file names of a run are unique.
\<close>

record scan_result =
  sr_ip :: string
  sr_port :: u16

section \<open>A run\<close>

text \<open>\<open>unique_id\<close>: 64-bit, from the process id and the value of the counter.\<close>

definition unique_id :: "u32 \<Rightarrow> 64 word \<Rightarrow> 64 word" where
  "unique_id pid seq = ucast pid * 1000000 + seq"

definition show_u64 :: "64 word \<Rightarrow> string" where
  "show_u64 n = dec (unat n)"

definition targets_file :: "64 word \<Rightarrow> string" where
  "targets_file i = ''/tmp/masscan_targets_'' @ show_u64 i @ ''.txt''"

definition output_file :: "64 word \<Rightarrow> string" where
  "output_file i = ''/tmp/masscan_out_'' @ show_u64 i @ ''.json''"

definition masscan_args :: "64 word \<Rightarrow> u16 list \<Rightarrow> u32 \<Rightarrow> string list" where
  "masscan_args i ports rate =
     [''-iL'', targets_file i, ''-p'', join '','' (map (\<lambda>p. dec (unat p)) ports), ''--rate'', dec (unat rate),
      ''--retries'', ''2'', ''--wait'', ''1'', ''--open'', ''--output-format'', ''json'', ''--output-filename'',
      output_file i]"

text \<open>
  The system: whether a file can be written, the exit status and error output of a command, and the
  text of a file.
\<close>

record scan_system =
  ss_write :: "string \<Rightarrow> string \<Rightarrow> bool"
  ss_run :: "string list \<Rightarrow> (bool \<times> u8 list) option"
  ss_read :: "string \<Rightarrow> string option"
  ss_json :: "string \<Rightarrow> json option"

section \<open>The report\<close>

definition ports_of :: "string \<Rightarrow> json list \<Rightarrow> scan_result list" where
  "ports_of ip ports =
     concat (map (\<lambda>po. case json_as_u64 (json_index po ''port'') of
                         Some port \<Rightarrow> [\<lparr>sr_ip = ip, sr_port = of_nat port\<rparr>] | None \<Rightarrow> []) ports)"

definition item_results :: "json \<Rightarrow> scan_result list" where
  "item_results it =
     (case json_as_str (json_index it ''ip'') of
        None \<Rightarrow> []
      | Some ip \<Rightarrow>
          (case json_as_array (json_index it ''ports'') of None \<Rightarrow> [] | Some ports \<Rightarrow> ports_of ip ports))"

definition report_results :: "json \<Rightarrow> scan_result list" where
  "report_results v = (case json_as_array v of Some items \<Rightarrow> concat (map item_results items) | None \<Rightarrow> [])"

definition parse_masscan_json :: "(string \<Rightarrow> json option) \<Rightarrow> string \<Rightarrow> scan_result list outcome" where
  "parse_masscan_json parse text =
     (case parse text of
        None \<Rightarrow> Bail ''failed to parse masscan JSON output''
      | Some v \<Rightarrow> Ok (report_results v))"

definition masscan_scan ::
  "scan_system \<Rightarrow> 64 word \<Rightarrow> string list \<Rightarrow> u16 list \<Rightarrow> u32 \<Rightarrow> scan_result list outcome" where
  "masscan_scan sys i targets ports rate =
     (if \<not> ss_write sys (targets_file i) (join [CHR 0x0A] targets)
      then Bail ''failed to write masscan targets file''
      else (case ss_run sys (masscan_args i ports rate) of
              None \<Rightarrow> Bail ''failed to execute masscan''
            | Some (success, stderr) \<Rightarrow>
                (let text = (case ss_read sys (output_file i) of Some t \<Rightarrow> t | None \<Rightarrow> [])
                 in if trim text = [] then
                      (if success then Ok [] else Bail (''masscan failed: '' @ from_utf8_lossy stderr))
                    else parse_masscan_json (ss_json sys) text)))"

definition run_stage1 ::
  "scan_system \<Rightarrow> 64 word \<Rightarrow> string \<Rightarrow> u16 list \<Rightarrow> u32 \<Rightarrow> scan_result list outcome" where
  "run_stage1 sys i cidr ports rate = masscan_scan sys i [cidr] ports rate"

definition run_stage1_batch ::
  "scan_system \<Rightarrow> 64 word \<Rightarrow> string list \<Rightarrow> u16 list \<Rightarrow> u32 \<Rightarrow> scan_result list outcome" where
  "run_stage1_batch sys i ranges ports rate = masscan_scan sys i ranges ports rate"

definition run_stage2 ::
  "scan_system \<Rightarrow> 64 word \<Rightarrow> string \<Rightarrow> u16 list \<Rightarrow> u32 \<Rightarrow> scan_result list outcome" where
  "run_stage2 sys i ip ports rate = masscan_scan sys i [ip] ports rate"

section \<open>Properties\<close>

text \<open>A report as masscan writes it: hosts with the ports found open.\<close>

definition report_json :: "(string \<times> nat list) list \<Rightarrow> json" where
  "report_json hosts =
     JArr (map (\<lambda>(ip, ps). JObj [(''ip'', JStr ip), (''timestamp'', JStr ''0''),
       (''ports'', JArr (map (\<lambda>p. JObj [(''port'', JNum (PosInt p)), (''proto'', JStr ''tcp'')]) ps))]) hosts)"

lemma json_index_simps [simp]:
  "json_index (JObj ((k, v) # kvs)) k' = (if k' = k then v else json_index (JObj kvs) k')"
  by (simp add: json_index_def json_get_def)

lemma item_results_host:
  "item_results (JObj [(''ip'', JStr ip), (''timestamp'', JStr ''0''),
     (''ports'', JArr (map (\<lambda>p. JObj [(''port'', JNum (PosInt p)), (''proto'', JStr ''tcp'')]) ps))]) =
   map (\<lambda>p. \<lparr>sr_ip = ip, sr_port = of_nat p\<rparr>) ps"
  by (simp add: item_results_def ports_of_def json_as_str_def json_as_array_def json_as_u64_def
      comp_def concat_map_singleton)

text \<open>
  A masscan report yields, in the order of the report, one result for every open port of every
  host; a port number is taken modulo 65536.
\<close>

theorem masscan_report_results:
  assumes "parse text = Some (report_json hosts)"
  shows "parse_masscan_json parse text =
     Ok (concat (map (\<lambda>(ip, ps). map (\<lambda>p. \<lparr>sr_ip = ip, sr_port = of_nat p\<rparr>) ps) hosts))"
  using assms
  by (simp add: parse_masscan_json_def report_results_def report_json_def json_as_array_def
      item_results_host comp_def case_prod_unfold)

theorem masscan_report_results_witness:
  "parse_masscan_json (\<lambda>t. Some (report_json [(''10.0.0.1'', [22, 65616]), (''10.0.0.2'', [])])) ''[]'' =
   Ok [\<lparr>sr_ip = ''10.0.0.1'', sr_port = 22\<rparr>, \<lparr>sr_ip = ''10.0.0.1'', sr_port = 80\<rparr>]"
  by (subst masscan_report_results [where hosts = "[(''10.0.0.1'', [22, 65616]), (''10.0.0.2'', [])]"]) simp_all

text \<open>Two runs, of one process or of two, use different files while each makes less than a million.\<close>

lemma unique_id_unat: "unat seq < 1000000 \<Longrightarrow> unat (unique_id pid seq) = unat pid * 1000000 + unat seq"
proof -
  assume s: "unat seq < 1000000"
  have "unat pid < 2 ^ LENGTH(32)" by (rule unsigned_less)
  then have p: "unat pid < 4294967296" by simp
  have "unat (ucast pid :: 64 word) = unat pid"
    using p by (simp add: unsigned_ucast_eq take_bit_nat_eq_self)
  then show ?thesis
    using p s unfolding unique_id_def
    by (subst unat_add_lem [THEN iffD1]; subst unat_mult_lem [THEN iffD1]) simp_all
qed

lemma unique_id_inject:
  assumes "unat s < 1000000" "unat t < 1000000"
  shows "unique_id p s = unique_id q t \<longleftrightarrow> p = q \<and> s = t"
proof
  assume "unique_id p s = unique_id q t"
  then have e: "unat p * 1000000 + unat s = unat q * 1000000 + unat t"
    using assms by (metis unique_id_unat)
  have "unat p = (unat p * 1000000 + unat s) div 1000000" "unat s = (unat p * 1000000 + unat s) mod 1000000"
    "unat q = (unat q * 1000000 + unat t) div 1000000" "unat t = (unat q * 1000000 + unat t) mod 1000000"
    using assms by simp_all
  with e show "p = q \<and> s = t" by (metis word_unat_eq_iff)
qed simp

end
