(* ===== verification/Stages.thy ===== *)
theory Stages
  imports Pipeline Config Masscan
begin

text \<open>
  The stages of \<open>src/main.rs\<close> (\<open>run_sweep\<close>, \<open>run_deepscan\<close>, \<open>run_probe\<close>, \<open>run_enrich\<close>) and the enrichment
  kinds of \<open>src/enrich/mod.rs\<close>.  Each stage is a claim on its queue and a handler per claimed row; the
  handlers run concurrently, which the relation \<open>db_step\<close> captures by having one step per statement, so
  that its paths are all interleavings and all cancellations; the loops themselves are in \<open>Loops\<close>.  The lemmas: every handler is a path of
  \<open>db_step\<close>, the database invariant holds in every reachable state, and what each handler does to its
  row, also when it panics.
\<close>

section \<open>Enrichment kinds\<close>

datatype enricher_kind = Favicon | RtspFrame | CameraFrame

fun applies_to :: "enricher_kind \<Rightarrow> string list" where
  "applies_to Favicon = [''http'', ''https'']"
| "applies_to RtspFrame = [''rtsp'']"
| "applies_to CameraFrame = [''http'', ''https'']"

definition list_types :: "string list" where
  "list_types = [''favicon'', ''rtsp_frame'', ''camera_frame'']"

definition enricher_of :: "string \<Rightarrow> enricher_kind option" where
  "enricher_of kind =
     (if kind = ''favicon'' then Some Favicon
      else if kind = ''rtsp_frame'' then Some RtspFrame
      else if kind = ''camera_frame'' then Some CameraFrame
      else None)"

section \<open>The probe stage\<close>

text \<open>How the probe of a claimed row ends under the outer timeout.\<close>

datatype probe_end = PDone probe_result | PFailed string | PTimedOut | PPanicked

definition complete_probe :: "int \<Rightarrow> db \<Rightarrow> db" where
  "complete_probe i s = s\<lparr>db_probe_queue := complete i (db_probe_queue s)\<rparr>"

definition after_probe :: "pipeline \<Rightarrow> (nat \<Rightarrow> int) \<Rightarrow> int \<Rightarrow> probe_end \<Rightarrow> db \<Rightarrow> db" where
  "after_probe cx clk i e s =
     (case e of
        PDone r \<Rightarrow>
          (case upsert_service cx (clk 0) r s of
             (Ok service_id, s) \<Rightarrow>
               complete_probe i (maybe_enqueue_enrichments (\<lambda>k. clk (Suc k)) service_id (pr_data r) s)
           | (Bail _, s) \<Rightarrow> complete_probe i s
           | (Panic, s) \<Rightarrow> s)
      | PFailed _ \<Rightarrow> complete_probe i s
      | PTimedOut \<Rightarrow> complete_probe i s
      | PPanicked \<Rightarrow> s)"

text \<open>A job that is not cancelled.\<close>

definition probe_job ::
  "pipeline \<Rightarrow> (nat \<Rightarrow> int) \<Rightarrow> int \<times> string \<times> int \<times> string \<Rightarrow> db \<Rightarrow> net \<Rightarrow> db \<times> net" where
  "probe_job cx clk row s n =
     (case row of (i, ip, port, transport) \<Rightarrow>
        (case probe cx clk ip (of_int port) transport s n of
           (Ok r, s, n) \<Rightarrow> (after_probe cx (\<lambda>k. clk (k + 4)) i (PDone r) s, n)
         | (Bail e, s, n) \<Rightarrow> (after_probe cx (\<lambda>k. clk (k + 4)) i (PFailed e) s, n)
         | (Panic, s, n) \<Rightarrow> (after_probe cx (\<lambda>k. clk (k + 4)) i PPanicked s, n)))"

text \<open>\<open>config.probe.timeout_secs.max(20)\<close>, and one turn of the loop.\<close>

definition probe_timeout :: "probe_config \<Rightarrow> nat" where
  "probe_timeout c = max (pc_timeout_secs c) 20"

definition probe_round ::
  "pipeline \<Rightarrow> (nat \<Rightarrow> int) \<Rightarrow> int \<Rightarrow> int list \<Rightarrow> (int \<Rightarrow> probe_end) \<Rightarrow> db \<Rightarrow> db" where
  "probe_round cx clk t locked ends s =
     (let (items, q) = claim_service_probes 10 t locked (db_probe_queue s)
      in foldl (\<lambda>s row. after_probe cx clk (fst row) (ends (fst row)) s) (s\<lparr>db_probe_queue := q\<rparr>) items)"

section \<open>The deep scan stage\<close>

definition insert_results :: "pipeline \<Rightarrow> scan_result list \<Rightarrow> db \<Rightarrow> db" where
  "insert_results cx rs s =
     foldl (\<lambda>s r. s\<lparr>db_probe_queue := snd (insert_service_probe (cx_inet cx) (sr_ip r)
                       (int (unat (sr_port r))) ''tcp'' (db_probe_queue s))\<rparr>) s rs"

text \<open>
  \<open>UPDATE hosts SET is_honeypot = true WHERE ip = $1\<close> binds text against an \<open>inet\<close> column; \<open>accepts\<close> says
  whether the database takes the comparison.  An error is ignored.
\<close>

definition mark_ip :: "bool \<Rightarrow> string \<Rightarrow> db \<Rightarrow> db" where
  "mark_ip accepts ip s =
     (if accepts
      then s\<lparr>db_hosts := map (\<lambda>h. if ho_ip h = ip then h\<lparr>ho_honeypot := True\<rparr> else h) (db_hosts s)\<rparr>
      else s)"

definition complete_host :: "int \<Rightarrow> db \<Rightarrow> db" where
  "complete_host i s = s\<lparr>db_host_queue := complete i (db_host_queue s)\<rparr>"

definition deepscan_results :: "scan_result list outcome \<Rightarrow> scan_result list" where
  "deepscan_results r = (case r of Ok rs \<Rightarrow> rs | _ \<Rightarrow> [])"

definition deepscan_job ::
  "pipeline \<Rightarrow> bool \<Rightarrow> u32 \<Rightarrow> scan_result list outcome \<Rightarrow> int \<times> string \<Rightarrow> db \<Rightarrow> db" where
  "deepscan_job cx accepts threshold scan row s =
     (let (i, ip) = row;
          s = s\<lparr>db_host_queue := increment_attempts i (db_host_queue s)\<rparr>;
          results = deepscan_results scan
      in if (of_nat (length results) :: u32) > threshold then complete_host i (mark_ip accepts ip s)
         else complete_host i (insert_results cx results s))"

text \<open>
  One turn of the loop: nothing on an empty claim, otherwise the jobs, then the tick and every fiftieth
  time a sweep with at most three attempts.
\<close>

definition deepscan_round ::
  "pipeline \<Rightarrow> bool \<Rightarrow> config \<Rightarrow> (string \<Rightarrow> u16 list \<Rightarrow> u32 \<Rightarrow> scan_result list outcome) \<Rightarrow> int \<Rightarrow>
   int list \<Rightarrow> u32 \<times> db \<Rightarrow> u32 \<times> db"
where
  "deepscan_round cx accepts cfg scan t locked st =
     (let (tick, s) = st;
          (items, q) = claim_host_scans 1 t locked (db_host_queue s);
          s = s\<lparr>db_host_queue := q\<rparr>;
          sc = cfg_scanner cfg
      in if items = [] then (tick, s)
         else
           (let s = foldl (\<lambda>s row. deepscan_job cx accepts (sc_honeypot_port_threshold sc)
                                     (scan (snd row) (expanded_deep_ports sc) (sc_deep_scan_rate sc)) row s)
                      s items;
                tick = tick + 1
            in (tick, if tick mod 50 = 0
                      then s\<lparr>db_host_queue := snd (sweep 3 t (db_host_queue s))\<rparr> else s)))"

section \<open>The sweep stage\<close>

text \<open>One range of the sweep; \<open>None\<close> while the probe queue is too deep.\<close>

definition sweep_range :: "pipeline \<Rightarrow> config \<Rightarrow> scan_result list outcome \<Rightarrow> db \<Rightarrow> db option" where
  "sweep_range cx cfg scan s =
     (if backpressure_active (db_probe_queue s) (sc_max_probe_queue_depth (cfg_scanner cfg)) then None
      else Some (foldl (\<lambda>s r. s\<lparr>db_host_queue := snd (insert_host_scan (cx_inet cx) (sr_ip r) (db_host_queue s))\<rparr>)
             s (deepscan_results scan)))"

section \<open>Interleavings\<close>

inductive db_step :: "pipeline \<Rightarrow> db \<Rightarrow> db \<Rightarrow> bool" for cx :: pipeline where
  found_host: "db_step cx s (s\<lparr>db_host_queue := snd (insert_host_scan (cx_inet cx) ip (db_host_queue s))\<rparr>)"
| claim_hosts: "db_step cx s (s\<lparr>db_host_queue := snd (claim_host_scans b t l (db_host_queue s))\<rparr>)"
| attempt: "db_step cx s (s\<lparr>db_host_queue := increment_attempts i (db_host_queue s)\<rparr>)"
| found_port: "db_step cx s (s\<lparr>db_probe_queue :=
      snd (insert_service_probe (cx_inet cx) ip p tr (db_probe_queue s))\<rparr>)"
| honeypot: "db_step cx s (mark_ip accepts ip s)"
| host_done: "db_step cx s (complete_host i s)"
| host_requeue: "db_step cx s (s\<lparr>db_host_queue := requeue m t (db_host_queue s)\<rparr>)"
| host_drop: "db_step cx s (s\<lparr>db_host_queue := snd (drop_dead m t (db_host_queue s))\<rparr>)"
| claim_probes: "db_step cx s (s\<lparr>db_probe_queue := snd (claim_service_probes b t l (db_probe_queue s))\<rparr>)"
| host_row: "db_step cx s (snd (ensure_host cx t ip s))"
| host_dns: "db_step cx s (update_dns cx t ip i s)"
| host_country: "db_step cx s (update_country cx t ip i s)"
| host_asn: "db_step cx s (snd (update_asn cx t ip i s))"
| store: "db_step cx s (snd (store_row cx t r s))"
| trap: "db_step cx s (mark_honeypot i s)"
| enqueue_one: "db_step cx s (snd (enqueue i k t s))"
| probe_done: "db_step cx s (complete_probe i s)"
| claim_enrich: "db_step cx s (s\<lparr>db_enrich_queue := snd (claim_enrichments b t l (db_enrich_queue s))\<rparr>)"
| enrich_done: "db_step cx s (s\<lparr>db_enrich_queue := complete i (db_enrich_queue s)\<rparr>)"
| rewrite: "db_step cx s (s\<lparr>db_services :=
      map (\<lambda>r. if sv_id r = i then r\<lparr>sv_data := v\<rparr> else r) (db_services s)\<rparr>)"

definition empty_db :: db where
  "empty_db =
     \<lparr>db_hosts = [], db_next_host = 1, db_services = [], db_next_service = 1,
      db_host_queue = empty_queue, db_probe_queue = empty_queue, db_enrich_queue = empty_queue\<rparr>"

abbreviation db_path :: "pipeline \<Rightarrow> db \<Rightarrow> db \<Rightarrow> bool" where
  "db_path cx \<equiv> (db_step cx)\<^sup>*\<^sup>*"

section \<open>The invariant of every interleaving\<close>

lemma snd_claims [simp]:
  "snd (claim_host_scans b t l q) = snd (claim_rows b t l q)"
  "snd (claim_service_probes b t l p) = snd (claim_rows b t l p)"
  "snd (claim_enrichments b t l e) = snd (claim_rows b t l e)"
  by (simp_all add: claim_host_scans_def claim_service_probes_def claim_enrichments_def case_prod_beta)

lemma queue_ok_insert_host: "queue_ok id q \<Longrightarrow> queue_ok id (snd (insert_host_scan f ip q))"
  by (simp add: insert_host_scan_def queue_ok_insert split: option.split)

lemma queue_ok_insert_probe: "queue_ok probe_key q \<Longrightarrow> queue_ok probe_key (snd (insert_service_probe f ip p tr q))"
  by (simp add: insert_service_probe_def queue_ok_insert queue_ok_next split: option.split)

lemmas queue_oks = queue_ok_insert_host queue_ok_insert_probe queue_ok_claim queue_ok_complete
  queue_ok_requeue queue_ok_drop

lemma db_ok_queues:
  "db_ok s \<Longrightarrow> queue_ok id q \<Longrightarrow> db_ok (s\<lparr>db_host_queue := q\<rparr>)"
  "db_ok s \<Longrightarrow> queue_ok probe_key p \<Longrightarrow> db_ok (s\<lparr>db_probe_queue := p\<rparr>)"
  "db_ok s \<Longrightarrow> queue_ok enrich_key e \<Longrightarrow> db_ok (s\<lparr>db_enrich_queue := e\<rparr>)"
  by (simp_all add: db_ok_defs)

lemma db_okD:
  "db_ok s \<Longrightarrow> queue_ok id (db_host_queue s)" "db_ok s \<Longrightarrow> queue_ok probe_key (db_probe_queue s)"
  "db_ok s \<Longrightarrow> queue_ok enrich_key (db_enrich_queue s)"
  by (simp_all add: db_ok_defs)

lemma db_ok_mark_ip: "db_ok s \<Longrightarrow> db_ok (mark_ip accepts ip s)"
proof -
  assume s: "db_ok s"
  define g where "g = (\<lambda>h :: host_row. if ho_ip h = ip then h\<lparr>ho_honeypot := True\<rparr> else h)"
  have g: "ho_id (g h) = ho_id h" "ho_ip (g h) = ho_ip h" for h by (simp_all add: g_def)
  have "ho_id ` g ` H = ho_id ` H" for H by (simp add: image_image g)
  then have "db_ok (s\<lparr>db_hosts := map g (db_hosts s)\<rparr>)" using s by (auto simp: db_ok_defs comp_def g)
  then show ?thesis using s by (simp add: mark_ip_def g_def)
qed

lemma db_ok_rewrite:
  "db_ok s \<Longrightarrow> db_ok (s\<lparr>db_services := map (\<lambda>r. if sv_id r = i then r\<lparr>sv_data := v\<rparr> else r) (db_services s)\<rparr>)"
proof -
  assume s: "db_ok s"
  define g where "g = (\<lambda>r :: service_row. if sv_id r = i then r\<lparr>sv_data := v\<rparr> else r)"
  have "sv_id (g r) = sv_id r" "service_key (g r) = service_key r" "sv_host_id (g r) = sv_host_id r" for r
    by (simp_all add: g_def service_key_def)
  then have "db_ok (s\<lparr>db_services := map g (db_services s)\<rparr>)" using s by (auto simp: db_ok_defs comp_def)
  then show ?thesis by (simp add: g_def)
qed

lemma db_ok_step: "db_step cx s s' \<Longrightarrow> db_ok s \<Longrightarrow> db_ok s'"
proof (induction rule: db_step.induct)
  case (attempt s i)
  then show ?case
    unfolding increment_attempts_def by (intro db_ok_queues queue_ok_update db_okD) simp_all
next
  case (store s t r)
  then show ?case using store_row_result [of s cx t r] by (metis prod.collapse)
qed (simp_all add: db_ok_queues db_okD queue_oks db_ok_mark_ip complete_host_def complete_probe_def
    db_ok_ensure_host db_ok_host_updates db_ok_enqueue db_ok_rewrite db_ok_mark_honeypot)

lemma db_ok_path: "db_path cx s s' \<Longrightarrow> db_ok s \<Longrightarrow> db_ok s'"
  by (induction rule: rtranclp_induct) (auto intro: db_ok_step)

lemma db_ok_empty: "db_ok empty_db"
  by (simp add: empty_db_def db_ok_defs queue_ok_empty)

text \<open>
  In every state the stages can reach together, in any interleaving of their statements and with any
  of them cancelled, hosts have unique ids and addresses, services unique ids and keys and an existing
  host, and the rows of the three queues unique ids and keys.
\<close>

theorem database_invariant:
  assumes "db_path cx empty_db s"
  shows "db_ok s"
  using assms db_ok_empty by (rule db_ok_path)

theorem database_invariant_witness:
  "db_ok (empty_db\<lparr>db_host_queue := insert_row id ''10.0.0.1/32'' empty_queue\<rparr>)"
proof (rule database_invariant)
  have "db_step (demo_pipeline\<lparr>cx_inet := \<lambda>ip. Some (ip @ ''/32'')\<rparr>) empty_db
      (empty_db\<lparr>db_host_queue := snd (insert_host_scan (\<lambda>ip. Some (ip @ ''/32'')) ''10.0.0.1'' (db_host_queue empty_db))\<rparr>)"
    using found_host [of "demo_pipeline\<lparr>cx_inet := \<lambda>ip. Some (ip @ ''/32'')\<rparr>" empty_db "''10.0.0.1''"] by simp
  then show "db_path (demo_pipeline\<lparr>cx_inet := \<lambda>ip. Some (ip @ ''/32'')\<rparr>) empty_db
      (empty_db\<lparr>db_host_queue := insert_row id ''10.0.0.1/32'' empty_queue\<rparr>)"
    by (simp add: insert_host_scan_def empty_db_def r_into_rtranclp)
qed

section \<open>Handlers as paths\<close>

lemma path_step: "db_path cx s t \<Longrightarrow> db_step cx t u \<Longrightarrow> db_path cx s u"
  by (rule rtranclp.rtrancl_into_rtrancl)

lemma one_step: "db_step cx s t \<Longrightarrow> db_path cx s t"
  by (rule r_into_rtranclp)

lemma path_complete_probe: "db_path cx s t \<Longrightarrow> db_path cx s (complete_probe i t)"
  by (erule path_step) (rule probe_done)

lemma enqueue_all_path: "db_path cx s (enqueue_all clk i ks s)"
proof (induction ks arbitrary: clk s)
  case (Cons k ks)
  obtain b s1 where e: "enqueue i k (clk 0) s = (b, s1)" by fastforce
  have "db_step cx s s1" using enqueue_one [of cx s i k "clk 0"] e by simp
  then show ?case using Cons.IH by (auto simp: e intro: converse_rtranclp_into_rtranclp)
qed simp

lemma upsert_path: "db_path cx s (snd (upsert_service cx t r s))"
proof -
  obtain o1 s1 where st: "store_row cx t r s = (o1, s1)" by fastforce
  have s1: "db_path cx s s1" using one_step [OF store [of cx s t r]] st by simp
  have "db_path cx s (mark_honeypot i s1)" for i by (intro path_step [OF s1] trap)
  then show ?thesis using s1 by (cases o1) (simp_all add: upsert_service_def st)
qed

lemma after_probe_path: "db_path cx s (after_probe cx clk i e s)"
proof (cases e)
  case (PDone r)
  obtain o1 s1 where u: "upsert_service cx (clk 0) r s = (o1, s1)" by fastforce
  have s1: "db_path cx s s1" using upsert_path [of cx s "clk 0" r] u by simp
  show ?thesis
  proof (cases o1)
    case (Ok sid)
    have "db_path cx s (maybe_enqueue_enrichments (\<lambda>k. clk (Suc k)) sid (pr_data r) s1)"
      unfolding maybe_enqueue_enrichments_def using s1 enqueue_all_path by (rule rtranclp_trans)
    then show ?thesis by (simp add: after_probe_def PDone u Ok path_complete_probe)
  qed (simp_all add: after_probe_def PDone u s1 path_complete_probe)
qed (simp_all add: after_probe_def path_complete_probe)

lemma probe_path: "db_path cx s (fst (snd (probe cx clk ip port tr s n)))"
proof -
  obtain o1 n1 where d: "dispatch (cx_env cx) (clean_ip ip) port n = (o1, n1)" by fastforce
  obtain o2 s2 where h: "ensure_host cx (clk 0) (clean_ip ip) s = (o2, s2)" by fastforce
  have s2: "db_path cx s s2" using host_row [of cx s "clk 0" "clean_ip ip"] h by (simp add: r_into_rtranclp)
  have u: "db_path cx s (snd (update_asn cx t3 ip' i (update_country cx t2 ip' i (update_dns cx t1 ip' i s2))))"
    for t1 t2 t3 ip' i
    by (intro path_step [OF _ host_asn] path_step [OF _ host_country] path_step [OF _ host_dns] s2)
  show ?thesis
    using s2 u by (auto simp: probe_def Let_def d h split: outcome.split prod.split) (metis snd_conv)+
qed

text \<open>
  The handler of a claimed probe is a path of the statement relation: the probe's updates of the host,
  the storing of the service, its enrichments, and the completion.
\<close>

theorem probe_job_refines: "db_path cx s (fst (probe_job cx clk row s n))"
proof -
  obtain i ip p tr where row: "row = (i, ip, p, tr)" by (cases row)
  obtain o1 s1 n1 where pr: "probe cx clk ip (of_int p) tr s n = (o1, s1, n1)" by (metis prod_cases3)
  have s1: "db_path cx s s1" using probe_path [of cx s clk ip "of_int p" tr n] pr by simp
  show ?thesis
    using rtranclp_trans [OF s1 after_probe_path] by (cases o1) (simp_all add: probe_job_def row pr)
qed

lemma insert_results_path: "db_path cx s (insert_results cx rs s)"
proof (induction rs rule: rev_induct)
  case (snoc r rs)
  show ?case
    using path_step [OF snoc found_port [of cx "insert_results cx rs s" "sr_ip r" "int (unat (sr_port r))" "''tcp''"]]
    by (simp add: insert_results_def)
qed (simp add: insert_results_def)

lemma deepscan_job_path: "db_path cx s (deepscan_job cx accepts threshold scan row s)"
proof -
  obtain i ip where row: "row = (i, ip)" by (cases row)
  let ?s = "s\<lparr>db_host_queue := increment_attempts i (db_host_queue s)\<rparr>"
  have s: "db_path cx s ?s" by (intro one_step attempt)
  have "db_path cx s (complete_host i (mark_ip accepts ip ?s))"
    by (intro path_step [OF _ host_done] path_step [OF _ honeypot] s)
  moreover have "db_path cx s (complete_host i (insert_results cx rs ?s))" for rs
    by (intro path_step [OF _ host_done] rtranclp_trans [OF s insert_results_path])
  ultimately show ?thesis by (simp add: deepscan_job_def row Let_def)
qed


lemma jobs_path:
  "(\<And>x s. db_path cx s (job x s)) \<Longrightarrow> db_path cx s (foldl (\<lambda>s x. job x s) s xs)"
proof (induction xs arbitrary: s)
  case (Cons x xs)
  show ?case using rtranclp_trans [OF Cons.prems Cons.IH [OF Cons.prems]] by simp
qed simp

lemma claimed_host_path:
  "db_path cx s (s\<lparr>db_host_queue := snd (claim_host_scans b t l (db_host_queue s))\<rparr>)"
  by (intro one_step claim_hosts)

lemma claimed_probe_path:
  "db_path cx s (s\<lparr>db_probe_queue := snd (claim_service_probes b t l (db_probe_queue s))\<rparr>)"
  by (intro one_step claim_probes)

lemma sweep_path: "db_path cx s (s\<lparr>db_host_queue := snd (sweep m t (db_host_queue s))\<rparr>)"
proof -
  have "db_path cx s (s\<lparr>db_host_queue := requeue m t (db_host_queue s)\<rparr>)" by (intro one_step host_requeue)
  from path_step [OF this host_drop [where m = m and t = t]] show ?thesis by (simp add: sweep_def)
qed

text \<open>A turn of the probe loop and a turn of the deep scan loop are paths too.\<close>

lemma probe_round_path: "db_path cx s (probe_round cx clk t locked ends s)"
  unfolding probe_round_def Let_def case_prod_beta
  by (rule rtranclp_trans [OF claimed_probe_path jobs_path]) (rule after_probe_path)

lemma deepscan_round_path: "db_path cx s (snd (deepscan_round cx accepts cfg scan t locked (tick, s)))"
proof -
  let ?c = "claim_host_scans 1 t locked (db_host_queue s)" and ?sc = "cfg_scanner cfg"
  let ?s1 = "s\<lparr>db_host_queue := snd ?c\<rparr>"
  let ?s2 = "foldl (\<lambda>s row. deepscan_job cx accepts (sc_honeypot_port_threshold ?sc)
      (scan (snd row) (expanded_deep_ports ?sc) (sc_deep_scan_rate ?sc)) row s) ?s1 (fst ?c)"
  have s1: "db_path cx s ?s1" by (rule claimed_host_path)
  have s2: "db_path cx s ?s2" by (rule rtranclp_trans [OF s1 jobs_path]) (rule deepscan_job_path)
  have s3: "db_path cx s (?s2\<lparr>db_host_queue := snd (sweep 3 t (db_host_queue ?s2))\<rparr>)"
    using s2 sweep_path by (rule rtranclp_trans)
  show ?thesis unfolding deepscan_round_def Let_def case_prod_beta using s1 s2 s3 by (simp del: snd_claims)
qed

section \<open>The row of a job\<close>

lemma enqueue_enrichments_queues [simp]:
  "db_probe_queue (maybe_enqueue_enrichments clk i d s) = db_probe_queue s"
  "db_services (maybe_enqueue_enrichments clk i d s) = db_services s"
  "db_hosts (maybe_enqueue_enrichments clk i d s) = db_hosts s"
  by (simp_all add: maybe_enqueue_enrichments_def)

lemma complete_probe_simps [simp]:
  "db_probe_queue (complete_probe i s) = complete i (db_probe_queue s)"
  "db_services (complete_probe i s) = db_services s" "db_hosts (complete_probe i s) = db_hosts s"
  by (simp_all add: complete_probe_def)

lemma upsert_probe_queue [simp]: "db_probe_queue (snd (upsert_service cx t r s)) = db_probe_queue s"
  by (simp add: upsert_service_def store_row_def insert_service_def mark_honeypot_def Let_def split: option.split)

lemma upsert_no_panic: "fst (upsert_service cx t r s) \<noteq> Panic"
  by (simp add: upsert_service_def store_row_def Let_def case_prod_beta)

lemma after_probe_queue:
  "db_probe_queue (after_probe cx clk i e s) =
     (if e = PPanicked then db_probe_queue s else complete i (db_probe_queue s))"
proof (cases e)
  case (PDone r)
  obtain o1 s1 where u: "upsert_service cx (clk 0) r s = (o1, s1)" by fastforce
  have "db_probe_queue s1 = db_probe_queue s" "o1 \<noteq> Panic"
    using upsert_probe_queue [of cx "clk 0" r s] upsert_no_panic [of cx "clk 0" r s] u by simp_all
  then show ?thesis by (cases o1) (simp_all add: after_probe_def PDone u)
qed (simp_all add: after_probe_def)

lemma jobs_rows:
  "rows (db_probe_queue (foldl (\<lambda>s row. after_probe cx clk (fst row) (ends (fst row)) s) s items)) =
     filter (\<lambda>r. \<not> (row_id r \<in> fst ` set items \<and> ends (row_id r) \<noteq> PPanicked)) (rows (db_probe_queue s))"
proof (induction items arbitrary: s)
  case (Cons x items)
  show ?case unfolding foldl_Cons Cons.IH after_probe_queue
    by (auto simp: complete_def intro!: filter_cong)
qed simp

lemma leased_rows:
  "rows (snd (claim_rows b t l q)) =
     map (\<lambda>r. if row_id r \<in> set (claim_ids b t l q) then r\<lparr>claimed_until := Some (t + lease_secs)\<rparr> else r) (rows q)"
  by (simp add: claim_rows_def Let_def)

lemma claimed_probe_ids:
  "fst ` set (fst (claim_service_probes b t l q)) = set (claim_ids b t l q)"
  by (simp add: claim_service_probes_eq image_image claim_rows_ids)

text \<open>
  A turn of the probe loop takes exactly the rows it claimed out of the queue, however their probes
  ended, except those whose job panicked: these stay, with the lease of the claim and no attempt counted.
  Every other row is as it was.
\<close>

lemma round_rows:
  "rows (db_probe_queue (probe_round cx clk t locked ends s)) =
     map (\<lambda>r. if row_id r \<in> set (claim_ids 10 t locked (db_probe_queue s))
               then r\<lparr>claimed_until := Some (t + lease_secs)\<rparr> else r)
       (filter (\<lambda>r. row_id r \<in> set (claim_ids 10 t locked (db_probe_queue s)) \<longrightarrow> ends (row_id r) = PPanicked)
         (rows (db_probe_queue s)))"
proof -
  define ids where "ids = set (claim_ids 10 t locked (db_probe_queue s))"
  define lease where
    "lease = (\<lambda>r :: service_probe queue_row. if row_id r \<in> ids then r\<lparr>claimed_until := Some (t + lease_secs)\<rparr> else r)"
  obtain items q where c: "claim_service_probes 10 t locked (db_probe_queue s) = (items, q)" by fastforce
  have i: "fst ` set items = ids" using claimed_probe_ids [of 10 t locked "db_probe_queue s"] c by (simp add: ids_def)
  have q: "rows q = map lease (rows (db_probe_queue s))"
    using leased_rows [of 10 t locked "db_probe_queue s"] c
    by (simp add: claim_service_probes_eq ids_def lease_def)
  have "rows (db_probe_queue (probe_round cx clk t locked ends s)) =
      filter (\<lambda>r. \<not> (row_id r \<in> ids \<and> ends (row_id r) \<noteq> PPanicked)) (rows q)"
    unfolding probe_round_def by (simp add: c jobs_rows i)
  also have "\<dots> = map lease (filter (\<lambda>r. row_id r \<in> ids \<longrightarrow> ends (row_id r) = PPanicked) (rows (db_probe_queue s)))"
    by (auto simp: q filter_map comp_def lease_def intro!: arg_cong [of _ _ "map lease"] filter_cong)
  finally show ?thesis unfolding lease_def ids_def .
qed

text \<open>
  C11. A probe that panics is never given up: after the turn its row is still queued with the same number of
  attempts, and it is claimable again as soon as the lease is over.  The stage neither counts attempts nor
  sweeps its queue.
\<close>

theorem panicking_probe_requeued:
  assumes "r \<in> set (rows (db_probe_queue s))" "claimable t r" "ends (row_id r) = PPanicked" "t + lease_secs < t'"
  shows "\<exists>r'\<in>set (rows (db_probe_queue (probe_round cx clk t locked ends s))).
           row_id r' = row_id r \<and> item r' = item r \<and> attempts r' = attempts r \<and> claimable t' r'"
proof -
  have p: "rows (db_probe_queue (probe_round cx clk t locked ends s)) =
     map (\<lambda>r. if row_id r \<in> I then r\<lparr>claimed_until := Some (t + lease_secs)\<rparr> else r)
       (filter (\<lambda>r. row_id r \<in> I \<longrightarrow> ends (row_id r) = PPanicked) (rows (db_probe_queue s)))"
    if "I = set (claim_ids 10 t locked (db_probe_queue s))" for I
    using round_rows [of cx clk t locked ends s] unfolding that .
  let ?I = "set (claim_ids 10 t locked (db_probe_queue s))"
  show ?thesis
    using assms unfolding p [OF refl]
    by (intro bexI [of _ "if row_id r \<in> ?I then r\<lparr>claimed_until := Some (t + lease_secs)\<rparr> else r"])
      (auto simp: claimable_def lease_secs_def)
qed

definition poison_db :: db where
  "poison_db = demo_db\<lparr>db_probe_queue := demo_probes\<rparr>"

theorem panicking_probe_requeued_witness:
  "\<exists>r'\<in>set (rows (db_probe_queue (probe_round demo_pipeline (\<lambda>k. 0) 1000 [] (\<lambda>i. PPanicked) poison_db))).
     row_id r' = 2 \<and> attempts r' = 0 \<and> claimable 1301 r'"
proof -
  let ?r = "\<lparr>row_id = 2, item = \<lparr>sp_ip = ''10.0.0.1'', sp_port = 81, sp_transport = ''tcp''\<rparr>,
        attempts = 0, claimed_until = None\<rparr>"
  have "?r \<in> set (rows (db_probe_queue poison_db))" "claimable 1000 ?r"
    by (simp_all add: poison_db_def demo_probes_def claimable_def)
  from panicking_probe_requeued [OF this, of "\<lambda>i. PPanicked" 1301 demo_pipeline "\<lambda>k. 0" "[]"]
  show ?thesis by (auto simp: lease_secs_def)
qed

section \<open>The outcome of a deep scan\<close>

definition queued :: "probe_queue \<Rightarrow> (string \<times> int \<times> string) set" where
  "queued q = (\<lambda>r. probe_key (item r)) ` set (rows q)"

lemma queued_insert_row: "queued (insert_row probe_key x q) = insert (probe_key x) (queued q)"
proof (cases "\<exists>r\<in>set (rows q). probe_key (item r) = probe_key x")
  case True
  then have "probe_key x \<in> queued q" unfolding queued_def by force
  then show ?thesis using True by (auto simp: insert_row_def queued_def)
qed (simp add: insert_row_def queued_def)

lemma queued_next_id: "queued (q\<lparr>next_id := n\<rparr>) = queued q"
  by (simp add: queued_def)

lemma queued_insert_probe:
  "queued (snd (insert_service_probe f ip p tr q)) =
     queued q \<union> (case f ip of Some a \<Rightarrow> if 1 \<le> p \<and> p \<le> 65535 then {(a, p, tr)} else {} | None \<Rightarrow> {})"
  by (auto simp: insert_service_probe_def queued_insert_row queued_next_id probe_key_def split: option.split)

lemma u16_port_range: "(1 \<le> uint p \<and> uint p \<le> 65535) = (p \<noteq> 0)" for p :: u16
proof -
  have "0 \<le> uint p" "uint p < 65536" "uint p = 0 \<longleftrightarrow> p = 0"
    using uint_bounded [of p] by (simp_all add: uint_0_iff)
  then show ?thesis by linarith
qed

definition probed_keys :: "pipeline \<Rightarrow> scan_result list \<Rightarrow> (string \<times> int \<times> string) set" where
  "probed_keys cx rs =
     {(a, uint (sr_port r), ''tcp'') | a r. r \<in> set rs \<and> cx_inet cx (sr_ip r) = Some a \<and> sr_port r \<noteq> 0}"

lemma insert_results_simps [simp]:
  "db_host_queue (insert_results cx rs s) = db_host_queue s"
  "db_hosts (insert_results cx rs s) = db_hosts s"
  by (induction rs arbitrary: s) (simp_all add: insert_results_def)

lemma probed_keys_Cons:
  "probed_keys cx (r # rs) =
     (case cx_inet cx (sr_ip r) of
        Some a \<Rightarrow> if sr_port r \<noteq> 0 then {(a, uint (sr_port r), ''tcp'')} else {}
      | None \<Rightarrow> {}) \<union> probed_keys cx rs"
  by (auto simp: probed_keys_def split: option.split)

lemma insert_results_keys:
  "queued (db_probe_queue (insert_results cx rs s)) = queued (db_probe_queue s) \<union> probed_keys cx rs"
proof (induction rs arbitrary: s)
  case (Cons r rs)
  let ?s = "s\<lparr>db_probe_queue := snd (insert_service_probe (cx_inet cx) (sr_ip r)
                       (int (unat (sr_port r))) ''tcp'' (db_probe_queue s))\<rparr>"
  have "insert_results cx (r # rs) s = insert_results cx rs ?s" by (simp add: insert_results_def)
  then have "queued (db_probe_queue (insert_results cx (r # rs) s)) =
      queued (snd (insert_service_probe (cx_inet cx) (sr_ip r) (uint (sr_port r)) ''tcp'' (db_probe_queue s))) \<union>
      probed_keys cx rs"
    using Cons.IH [of ?s] by simp
  then show ?case unfolding queued_insert_probe u16_port_range probed_keys_Cons Un_assoc .
qed (simp add: insert_results_def probed_keys_def)

lemma mark_ip_queues [simp]:
  "db_host_queue (mark_ip b ip s) = db_host_queue s" "db_probe_queue (mark_ip b ip s) = db_probe_queue s"
  by (simp_all add: mark_ip_def)

lemma complete_host_simps [simp]:
  "db_host_queue (complete_host i s) = complete i (db_host_queue s)"
  "db_probe_queue (complete_host i s) = db_probe_queue s"
  by (simp_all add: complete_host_def)

lemma complete_after_increment: "rows (complete i (increment_attempts i q)) = rows (complete i q)"
proof -
  have "filter (\<lambda>r. row_id r \<noteq> i) (map (\<lambda>r. if row_id r = i then r\<lparr>attempts := attempts r + 1\<rparr> else r) rs) =
      filter (\<lambda>r. row_id r \<noteq> i) rs" for rs :: "'a queue_row list" by (induction rs) auto
  then show ?thesis by (simp add: complete_def increment_attempts_def update_row_def)
qed

text \<open>
  C12. The job of a claimed host takes the host out of its queue and queues exactly the open ports of the
  scan that the database accepts, once per address and port; a failed scan counts as no open port, and
  above the honeypot threshold nothing is queued.
\<close>

theorem deepscan_job_spec:
  "rows (db_host_queue (deepscan_job cx accepts threshold scan (i, ip) s)) =
     filter (\<lambda>r. row_id r \<noteq> i) (rows (db_host_queue s)) \<and>
   queued (db_probe_queue (deepscan_job cx accepts threshold scan (i, ip) s)) =
     queued (db_probe_queue s) \<union>
     (if threshold < of_nat (length (deepscan_results scan)) then {} else probed_keys cx (deepscan_results scan))"
  using complete_after_increment [of i "db_host_queue s"]
  by (simp add: deepscan_job_def Let_def insert_results_keys) (simp add: complete_def)

section \<open>Closed ports\<close>









section \<open>Enrichment\<close>

text \<open>
  Whatever the probe stage queues, the enrichment stage has an enricher for.
\<close>

lemma wanted_kinds_known: "k \<in> set (wanted_enrichments d) \<Longrightarrow> k \<in> set list_types \<and> enricher_of k \<noteq> None"
  by (auto simp: wanted_enrichments_def list_types_def enricher_of_def split: if_splits)

end
