(* ===== verification/Enrich.thy ===== *)
theory Enrich
  imports Stages "HOL-Library.Monad_Syntax"
begin

text \<open>
  The three enrichers, \<open>src/enrich/favicon.rs\<close>, \<open>rtsp_frame.rs\<close> and \<open>camera_frame.rs\<close>.  The state is the
  database, the table \<open>service_assets\<close> and the files.  The web client, \<open>ffmpeg\<close>, SHA-256 and base64 are
  parameters; whether a file can be written is one too.  The lemmas: which file, asset and document an
  enricher leaves behind, that assets keep unique keys and the database its invariant, in which order
  the candidate addresses are tried, and what the two shared shortcuts (the placeholder hash, the fixed
  temporary file) lead to.
\<close>

section \<open>State and environment\<close>

record asset =
  as_service_id :: int
  as_kind :: string
  as_sha256 :: string
  as_taken_at :: int

record enrich_state =
  es_db :: db
  es_assets :: "asset list"
  es_files :: "string \<rightharpoonup> u8 list"

record fetched =
  ft_status :: u16
  ft_content_type :: "string option"
  ft_body :: "u8 list option"

text \<open>
  How a run of \<open>ffmpeg\<close> ends: it cannot be started, or it exits, successfully or not, having written the
  output file or not.
\<close>

datatype ffmpeg_end = NotStarted | Exited bool "u8 list option"

record enrich_env =
  ev_get :: "string \<Rightarrow> fetched option"
  ev_ffmpeg :: "string \<Rightarrow> ffmpeg_end"
  ev_writable :: "string \<Rightarrow> bool"
  ev_sha :: "u8 list \<Rightarrow> u8 list"
  ev_b64 :: "u8 list \<Rightarrow> string"

definition sha_hex :: "enrich_env \<Rightarrow> u8 list \<Rightarrow> string" where
  "sha_hex e bs = concat (map hex02 (ev_sha e bs))"

text \<open>\<open>Path::new(dir).join(name)\<close> for a relative name.\<close>

definition join_path :: "string \<Rightarrow> string \<Rightarrow> string" where
  "join_path dir name =
     (if dir = [] \<or> last dir = CHR ''/'' then dir @ name else dir @ ''/'' @ name)"

definition write_file :: "enrich_env \<Rightarrow> string \<Rightarrow> u8 list \<Rightarrow> enrich_state \<Rightarrow> enrich_state option" where
  "write_file e path bs s = (if ev_writable e path then Some (s\<lparr>es_files := (es_files s)(path \<mapsto> bs)\<rparr>) else None)"

definition remove_file :: "string \<Rightarrow> enrich_state \<Rightarrow> enrich_state" where
  "remove_file path s = s\<lparr>es_files := (es_files s)(path := None)\<rparr>"

section \<open>Statements\<close>

text \<open>\<open>SELECT h.ip::text, s.port ... WHERE s.id = $1\<close> with \<open>fetch_one\<close>, and the split at the slash.\<close>

definition service_address :: "int \<Rightarrow> db \<Rightarrow> (string \<times> int) option" where
  "service_address i s =
     (case filter (\<lambda>(r, h). sv_id r = i) (joined s) of
        [] \<Rightarrow> None | (r, h) # _ \<Rightarrow> Some (clean_ip (ho_ip h), sv_port r))"

text \<open>The upsert into \<open>service_assets\<close>; a service that is gone violates the foreign key.\<close>

definition put_asset :: "int \<Rightarrow> string \<Rightarrow> string \<Rightarrow> int \<Rightarrow> enrich_state \<Rightarrow> enrich_state option" where
  "put_asset i kind sha t s =
     (if i \<notin> sv_id ` set (db_services (es_db s)) then None
      else if \<exists>a\<in>set (es_assets s). as_service_id a = i \<and> as_kind a = kind
      then Some (s\<lparr>es_assets := map (\<lambda>a. if as_service_id a = i \<and> as_kind a = kind
                                        then a\<lparr>as_sha256 := sha, as_taken_at := t\<rparr> else a) (es_assets s)\<rparr>)
      else Some (s\<lparr>es_assets := es_assets s @
             [\<lparr>as_service_id = i, as_kind = kind, as_sha256 = sha, as_taken_at = t\<rparr>]\<rparr>))"

text \<open>
  \<open>jsonb_set(data, '{outer,inner}', v)\<close>: an object in the way is updated or extended, a missing or scalar
  one leaves the document as it is, an array there or no object at the top is an error.
\<close>

fun set_key :: "string \<Rightarrow> json \<Rightarrow> (string \<times> json) list \<Rightarrow> (string \<times> json) list" where
  "set_key k v [] = [(k, v)]"
| "set_key k v ((k', v') # kvs) = (if k' = k then (k, v) # kvs else (k', v') # set_key k v kvs)"

definition jsonb_set :: "string \<Rightarrow> string \<Rightarrow> json \<Rightarrow> json \<Rightarrow> json option" where
  "jsonb_set outer inner v data =
     (case data of
        JObj kvs \<Rightarrow>
          (case map_of kvs outer of
             Some (JObj ivs) \<Rightarrow> Some (JObj (set_key outer (JObj (set_key inner v ivs)) kvs))
           | Some (JArr _) \<Rightarrow> None
           | _ \<Rightarrow> Some data)
      | _ \<Rightarrow> None)"

text \<open>\<open>UPDATE services SET data = jsonb_set(...) WHERE id = $2\<close>.\<close>

definition patch_service :: "string \<Rightarrow> string \<Rightarrow> json \<Rightarrow> int \<Rightarrow> enrich_state \<Rightarrow> enrich_state option" where
  "patch_service outer inner v i s =
     (case find (\<lambda>r. sv_id r = i) (db_services (es_db s)) of
        None \<Rightarrow> Some s
      | Some r \<Rightarrow>
          map_option (\<lambda>d. s\<lparr>es_db := (es_db s)\<lparr>db_services :=
              map (\<lambda>r. if sv_id r = i then r\<lparr>sv_data := d\<rparr> else r) (db_services (es_db s))\<rparr>\<rparr>)
            (jsonb_set outer inner v (sv_data r)))"

section \<open>Favicons\<close>

text \<open>\<open>mmh3_hash\<close>, the placeholder of the code, on \<open>i32\<close>.\<close>

definition mmh3_hash :: "string \<Rightarrow> 32 word" where
  "mmh3_hash data = foldl (\<lambda>hash byte. hash * 31 + of_char byte) 0 data"

definition favicon_url :: "string \<Rightarrow> int \<Rightarrow> string" where
  "favicon_url ip port = ''http://'' @ ip @ '':'' @ dec (nat port) @ ''/favicon.ico''"

text \<open>
  The \<open>?\<close> operator: an early failure keeps what was done before it; messages of library errors are
  empty.
\<close>

definition attempt_step ::
  "enrich_state option \<Rightarrow> enrich_state \<Rightarrow> (enrich_state \<Rightarrow> unit outcome \<times> enrich_state) \<Rightarrow>
   unit outcome \<times> enrich_state" where
  "attempt_step r s k = (case r of None \<Rightarrow> (Bail [], s) | Some s' \<Rightarrow> k s')"

definition fetch_and_store :: "enrich_env \<Rightarrow> string \<Rightarrow> int \<Rightarrow> int \<Rightarrow> enrich_state \<Rightarrow> unit outcome \<times> enrich_state"
where
  "fetch_and_store e assets_dir now i s =
     (case service_address i (es_db s) of
        None \<Rightarrow> (Bail [], s)
      | Some (ip, port) \<Rightarrow>
          (case ev_get e (favicon_url ip port) of
             None \<Rightarrow> (Ok (), s)
           | Some resp \<Rightarrow>
               if \<not> is_success (ft_status resp) then (Ok (), s)
               else (case ft_body resp of
                       None \<Rightarrow> (Bail [], s)
                     | Some bytes \<Rightarrow>
                         (let sha256 = sha_hex e bytes;
                              path = join_path assets_dir (sha256 @ ''.ico'');
                              favicon_hash = sint (mmh3_hash (ev_b64 e bytes))
                          in attempt_step (write_file e path bytes s) s (\<lambda>s.
                             attempt_step (put_asset i ''favicon'' sha256 now s) s (\<lambda>s.
                             attempt_step (patch_service ''http'' ''favicon_hash''
                               (json_int favicon_hash) i s) s (\<lambda>s. (Ok (), s))))))))"

record favicon_result =
  fr_status :: u16
  fr_sha256 :: string
  fr_favicon_hash :: int
  fr_size :: nat

definition fetch_standalone :: "enrich_env \<Rightarrow> string \<Rightarrow> favicon_result option" where
  "fetch_standalone e url =
     do { response \<leftarrow> ev_get e url;
          bytes \<leftarrow> ft_body response;
          Some \<lparr>fr_status = ft_status response, fr_sha256 = sha_hex e bytes,
                fr_favicon_hash = sint (mmh3_hash (ev_b64 e bytes)), fr_size = length bytes\<rparr> }"

section \<open>RTSP frames\<close>

definition RTSP_PATHS :: "string list" where
  "RTSP_PATHS = [''/1'', ''/live'', ''/stream1'', ''/ch1'', ''/ch0_0.h264'']"

text \<open>One run of \<open>ffmpeg\<close> on \<open>url\<close> with the output file \<open>out\<close>.\<close>

definition run_ffmpeg :: "enrich_env \<Rightarrow> string \<Rightarrow> string \<Rightarrow> enrich_state \<Rightarrow> ffmpeg_end \<times> enrich_state" where
  "run_ffmpeg e url out s =
     (case ev_ffmpeg e url of
        Exited ok (Some bs) \<Rightarrow> (Exited ok (Some bs), s\<lparr>es_files := (es_files s)(out \<mapsto> bs)\<rparr>)
      | r \<Rightarrow> (r, s))"

definition store_rtsp_frame ::
  "enrich_env \<Rightarrow> string \<Rightarrow> string \<Rightarrow> u8 list \<Rightarrow> int \<Rightarrow> int \<Rightarrow> enrich_state \<Rightarrow> unit outcome \<times> enrich_state"
where
  "store_rtsp_frame e assets_dir tmp_path bytes now i s =
     (let sha256 = sha_hex e bytes;
          dest = join_path assets_dir (sha256 @ ''.jpg'')
      in attempt_step (map_option (remove_file tmp_path) (write_file e dest bytes s)) s (\<lambda>s.
         attempt_step (put_asset i ''rtsp_frame'' sha256 now s) s (\<lambda>s.
         attempt_step (patch_service ''rtsp'' ''frame_sha256'' (JStr sha256) i s) s (\<lambda>s. (Ok (), s)))))"

definition frame_url :: "string \<Rightarrow> int \<Rightarrow> string \<Rightarrow> string" where
  "frame_url ip port path = ''rtsp://'' @ ip @ '':'' @ dec (nat port) @ path"

definition frame_tmp :: "string \<Rightarrow> int \<Rightarrow> string" where
  "frame_tmp assets_dir i = assets_dir @ ''/rtsp_frame_'' @ dec (nat i) @ ''.jpg''"

fun capture_paths ::
  "enrich_env \<Rightarrow> string \<Rightarrow> string \<Rightarrow> int \<Rightarrow> int \<Rightarrow> int \<Rightarrow> string list \<Rightarrow> enrich_state \<Rightarrow> unit outcome \<times> enrich_state"
where
  "capture_paths e assets_dir ip port now i [] s = (Ok (), s)"
| "capture_paths e assets_dir ip port now i (path # paths) s =
     (let tmp_path = frame_tmp assets_dir i
      in case run_ffmpeg e (frame_url ip port path) tmp_path s of
           (Exited True _, s) \<Rightarrow>
             (case es_files s tmp_path of
                None \<Rightarrow> (Bail [], s)
              | Some bytes \<Rightarrow>
                  if length bytes < 100
                  then capture_paths e assets_dir ip port now i paths (remove_file tmp_path s)
                  else store_rtsp_frame e assets_dir tmp_path bytes now i s)
         | (_, s) \<Rightarrow> capture_paths e assets_dir ip port now i paths (remove_file tmp_path s))"

definition capture_rtsp_frame ::
  "enrich_env \<Rightarrow> string \<Rightarrow> int \<Rightarrow> int \<Rightarrow> enrich_state \<Rightarrow> unit outcome \<times> enrich_state" where
  "capture_rtsp_frame e assets_dir now i s =
     (case service_address i (es_db s) of
        None \<Rightarrow> (Bail [], s)
      | Some (ip, port) \<Rightarrow> capture_paths e assets_dir ip port now i RTSP_PATHS s)"

record frame_result =
  fm_sha256 :: string
  fm_path :: string
  fm_size :: nat

definition standalone_tmp :: string where
  "standalone_tmp = ''/tmp/rtsp_standalone_frame.jpg''"

text \<open>
  The error output goes to \<open>Stdio::null()\<close>, so \<open>output.stderr\<close> is empty and its last line is always the
  default.
\<close>

fun standalone_paths ::
  "enrich_env \<Rightarrow> string \<Rightarrow> string list \<Rightarrow> string \<Rightarrow> enrich_state \<Rightarrow> frame_result outcome \<times> enrich_state"
where
  "standalone_paths e target [] last_err s =
     (Bail (''no frame captured from '' @ target @ '': '' @ last_err), s)"
| "standalone_paths e target (path # paths) last_err s =
     (case run_ffmpeg e (''rtsp://'' @ target @ path) standalone_tmp s of
        (NotStarted, s) \<Rightarrow> (Bail [], s)
      | (Exited ok _, s) \<Rightarrow>
          if ok then
            (case es_files s standalone_tmp of
               None \<Rightarrow> (Bail [], s)
             | Some bytes \<Rightarrow>
                 if length bytes < 100
                 then standalone_paths e target paths
                        (''frame too small ('' @ dec (length bytes) @ '' bytes)'') (remove_file standalone_tmp s)
                 else (Ok \<lparr>fm_sha256 = sha_hex e bytes, fm_path = path, fm_size = length bytes\<rparr>,
                       remove_file standalone_tmp s))
          else standalone_paths e target paths ''unknown error'' (remove_file standalone_tmp s))"

definition rtsp_standalone ::
  "enrich_env \<Rightarrow> string \<Rightarrow> enrich_state \<Rightarrow> frame_result outcome \<times> enrich_state" where
  "rtsp_standalone e target s = standalone_paths e target RTSP_PATHS [] s"

section \<open>Camera frames\<close>

definition HTTP_SNAPSHOT_PATHS :: "string list" where
  "HTTP_SNAPSHOT_PATHS =
     [''/axis-cgi/jpg/image.cgi'', ''/record/current.jpg'', ''/cgi-bin/viewer/video.jpg'',
      ''/ISAPI/Streaming/channels/101/picture'', ''/cgi-bin/snapshot.cgi?channel=1'', ''/snap.jpg'',
      ''/snapshot.jpg'', ''/image.jpg'', ''/video.jpg'', ''/current.jpg'', ''/live.jpg'', ''/ch1.jpg'',
      ''/0.jpg'', ''/1.jpg'']"

definition CAMERA_RTSP_PATHS :: "string list" where
  "CAMERA_RTSP_PATHS =
     [''/'', ''/1'', ''/live'', ''/stream1'', ''/ch1'', ''/ch0_0.h264'', ''/Streaming/Channels/101'',
      ''/cam/realmonitor?channel=1&subtype=0'', ''/h264/ch1/main/av_stream'']"

definition RTSP_CREDS :: "string list" where
  "RTSP_CREDS = [[], ''admin:'', ''admin:admin'', ''admin:12345'', ''admin:123456'']"

definition image_type :: "string \<Rightarrow> bool" where
  "image_type ct = (contains_sub ct ''image/jpeg'' \<or> contains_sub ct ''image/jpg'' \<or> contains_sub ct ''image/png'')"

definition content_type_of :: "fetched \<Rightarrow> string" where
  "content_type_of resp = (case ft_content_type resp of Some c \<Rightarrow> c | None \<Rightarrow> [])"

text \<open>A snapshot is its bytes with the path it came from.\<close>

fun http_snapshots :: "enrich_env \<Rightarrow> string \<Rightarrow> string list \<Rightarrow> (u8 list \<times> string) outcome" where
  "http_snapshots e base_url [] = Bail (''no HTTP snapshot captured from '' @ base_url)"
| "http_snapshots e base_url (path # paths) =
     (case ev_get e (base_url @ path) of
        None \<Rightarrow> http_snapshots e base_url paths
      | Some resp \<Rightarrow>
          if is_success (ft_status resp) \<and> image_type (content_type_of resp)
          then (case ft_body resp of
                  None \<Rightarrow> Bail []
                | Some bytes \<Rightarrow>
                    if length bytes > 500 then Ok (bytes, path) else http_snapshots e base_url paths)
          else http_snapshots e base_url paths)"

definition capture_from_http :: "enrich_env \<Rightarrow> string \<Rightarrow> (u8 list \<times> string) outcome" where
  "capture_from_http e base_url = http_snapshots e base_url HTTP_SNAPSHOT_PATHS"

definition camera_tmp :: string where
  "camera_tmp = ''/tmp/rtsp_camera_frame.jpg''"

definition rtsp_url :: "string \<Rightarrow> nat \<Rightarrow> string \<Rightarrow> string \<Rightarrow> string" where
  "rtsp_url ip port cred path =
     (if cred = [] then ''rtsp://'' @ ip @ '':'' @ dec port @ path
      else ''rtsp://'' @ cred @ ''@'' @ ip @ '':'' @ dec port @ path)"

text \<open>The nested loops over credentials and paths, as one list of candidates.\<close>

definition rtsp_candidates :: "(string \<times> string) list" where
  "rtsp_candidates = concat (map (\<lambda>cred. map (\<lambda>path. (cred, path)) CAMERA_RTSP_PATHS) RTSP_CREDS)"

fun rtsp_frames ::
  "enrich_env \<Rightarrow> string \<Rightarrow> nat \<Rightarrow> (string \<times> string) list \<Rightarrow> enrich_state \<Rightarrow>
   (u8 list \<times> string) outcome \<times> enrich_state"
where
  "rtsp_frames e ip port [] s = (Bail (''no RTSP frame captured from '' @ ip @ '':'' @ dec port), s)"
| "rtsp_frames e ip port ((cred, path) # cs) s =
     (case run_ffmpeg e (rtsp_url ip port cred path) camera_tmp s of
        (Exited True _, s) \<Rightarrow>
          (case es_files s camera_tmp of
             None \<Rightarrow> (Bail [], s)
           | Some bytes \<Rightarrow>
               if length bytes > 500 then (Ok (bytes, path), remove_file camera_tmp s)
               else rtsp_frames e ip port cs s)
      | (_, s) \<Rightarrow> rtsp_frames e ip port cs (remove_file camera_tmp s))"

definition capture_from_rtsp ::
  "enrich_env \<Rightarrow> string \<Rightarrow> nat \<Rightarrow> enrich_state \<Rightarrow> (u8 list \<times> string) outcome \<times> enrich_state" where
  "capture_from_rtsp e ip port s = rtsp_frames e ip port rtsp_candidates s"

definition store_camera_frame ::
  "enrich_env \<Rightarrow> string \<Rightarrow> u8 list \<Rightarrow> int \<Rightarrow> int \<Rightarrow> enrich_state \<Rightarrow> unit outcome \<times> enrich_state" where
  "store_camera_frame e assets_dir bytes now i s =
     (let sha256 = sha_hex e bytes
      in attempt_step (write_file e (join_path assets_dir (sha256 @ ''.jpg'')) bytes s) s (\<lambda>s.
         attempt_step (put_asset i ''camera_frame'' sha256 now s) s (\<lambda>s. (Ok (), s))))"

definition capture_camera_frame ::
  "enrich_env \<Rightarrow> string \<Rightarrow> int \<Rightarrow> int \<Rightarrow> enrich_state \<Rightarrow> unit outcome \<times> enrich_state" where
  "capture_camera_frame e assets_dir now i s =
     (case service_address i (es_db s) of
        None \<Rightarrow> (Bail [], s)
      | Some (ip, port) \<Rightarrow>
          (case capture_from_http e (''http://'' @ ip @ '':'' @ dec (nat port)) of
             Ok (bytes, _) \<Rightarrow> store_camera_frame e assets_dir bytes now i s
           | _ \<Rightarrow>
               (case capture_from_rtsp e ip 554 s of
                  (Ok (bytes, _), s) \<Rightarrow> store_camera_frame e assets_dir bytes now i s
                | (_, s) \<Rightarrow> (Bail (''no frame captured from '' @ ip @ '':'' @ dec (nat port)), s))))"

text \<open>\<open>trim_start_matches\<close> removes the prefix as often as it is there; the first parts before \<open>:\<close> and \<open>/\<close>.\<close>

function trim_start_matches :: "string \<Rightarrow> string \<Rightarrow> string" where
  "trim_start_matches s p =
     (if p \<noteq> [] \<and> prefix p s then trim_start_matches (drop (length p) s) p else s)"
  by pat_completeness auto
termination
  by (relation "measure (\<lambda>(s, p). length s)") (auto simp: prefix_def)

definition host_part :: "string \<Rightarrow> string" where
  "host_part u = hd (split_on (CHR ''/'') (hd (split_on (CHR '':'') u)))"

definition frame_of :: "enrich_env \<Rightarrow> u8 list \<times> string \<Rightarrow> frame_result" where
  "frame_of e r = \<lparr>fm_sha256 = sha_hex e (fst r), fm_path = snd r, fm_size = length (fst r)\<rparr>"

definition camera_standalone ::
  "enrich_env \<Rightarrow> string \<Rightarrow> enrich_state \<Rightarrow> frame_result outcome \<times> enrich_state" where
  "camera_standalone e target s =
     (let base_url = (if prefix ''http'' target \<or> prefix ''rtsp'' target then target else ''http://'' @ target)
      in if prefix ''rtsp'' base_url then
           (case capture_from_rtsp e (host_part (trim_start_matches base_url ''rtsp://'')) 554 s of
              (Ok r, s) \<Rightarrow> (Ok (frame_of e r), s)
            | (Bail m, s) \<Rightarrow> (Bail m, s)
            | (Panic, s) \<Rightarrow> (Panic, s))
         else (case capture_from_http e base_url of
                 Ok r \<Rightarrow> (Ok (frame_of e r), s)
               | _ \<Rightarrow>
                   (case capture_from_rtsp e
                           (host_part (trim_start_matches (trim_start_matches base_url ''http://'') ''https://''))
                           554 s of
                      (Ok r, s) \<Rightarrow> (Ok (frame_of e r), s)
                    | (_, s) \<Rightarrow> (Bail (''no frame captured from '' @ target), s))))"

section \<open>The enricher of a kind\<close>

definition enrich_run ::
  "enrich_env \<Rightarrow> string \<Rightarrow> int \<Rightarrow> enricher_kind \<Rightarrow> int \<Rightarrow> enrich_state \<Rightarrow> unit outcome \<times> enrich_state" where
  "enrich_run e assets_dir now k i s =
     (case k of
        Favicon \<Rightarrow> fetch_and_store e assets_dir now i s
      | RtspFrame \<Rightarrow> capture_rtsp_frame e assets_dir now i s
      | CameraFrame \<Rightarrow> capture_camera_frame e assets_dir now i s)"

text \<open>
  The handler of a claimed enrichment in \<open>run_enrich\<close>: an error is only logged, an unknown kind does
  nothing, and the row is completed in any case.
\<close>

definition enrich_job :: "enrich_env \<Rightarrow> string \<Rightarrow> int \<Rightarrow> int \<times> int \<times> string \<Rightarrow> enrich_state \<Rightarrow> enrich_state" where
  "enrich_job e assets_dir now row s =
     (case row of (i, service_id, kind) \<Rightarrow>
        (let s = (case enricher_of kind of
                    Some k \<Rightarrow> snd (enrich_run e assets_dir now k service_id s) | None \<Rightarrow> s)
         in s\<lparr>es_db := (es_db s)\<lparr>db_enrich_queue := complete i (db_enrich_queue (es_db s))\<rparr>\<rparr>))"

section \<open>What an enricher may change\<close>

definition asset_key :: "asset \<Rightarrow> int \<times> string" where
  "asset_key a = (as_service_id a, as_kind a)"

definition assets_ok :: "enrich_state \<Rightarrow> bool" where
  "assets_ok s =
     (distinct (map asset_key (es_assets s)) \<and>
      (\<forall>a\<in>set (es_assets s). as_service_id a \<in> sv_id ` set (db_services (es_db s))))"

text \<open>
  A step of an enricher: a path of the database statements that keeps the assets consistent and the queues
  as they are.
\<close>

definition enriches :: "pipeline \<Rightarrow> enrich_state \<Rightarrow> enrich_state \<Rightarrow> bool" where
  "enriches cx s s' =
     (db_path cx (es_db s) (es_db s') \<and> (assets_ok s \<longrightarrow> assets_ok s') \<and>
      db_enrich_queue (es_db s') = db_enrich_queue (es_db s) \<and>
      db_probe_queue (es_db s') = db_probe_queue (es_db s) \<and>
      db_host_queue (es_db s') = db_host_queue (es_db s))"

named_theorems enriches_intros \<open>operations that are steps of an enricher\<close>

lemma enriches_refl [enriches_intros]: "enriches cx s s"
  by (simp add: enriches_def)

lemma enriches_trans: "enriches cx s t \<Longrightarrow> enriches cx t u \<Longrightarrow> enriches cx s u"
  unfolding enriches_def using rtranclp_trans [of "db_step cx"] by metis

lemma enriches_files: "enriches cx s (s\<lparr>es_files := f\<rparr>)"
  by (simp add: enriches_def assets_ok_def)

lemma enriches_write: "write_file e path bs s = Some s' \<Longrightarrow> enriches cx s s'"
  using enriches_files by (auto simp: write_file_def split: if_splits)

lemma enriches_remove [enriches_intros]: "enriches cx s (remove_file path s)"
  unfolding remove_file_def by (rule enriches_files)

lemma enriches_asset: "put_asset i kind sha t s = Some s' \<Longrightarrow> enriches cx s s'"
proof -
  define g where "g = (\<lambda>a :: asset. if as_service_id a = i \<and> as_kind a = kind
    then a\<lparr>as_sha256 := sha, as_taken_at := t\<rparr> else a)"
  have g: "asset_key (g a) = asset_key a" "as_service_id (g a) = as_service_id a" for a
    by (simp_all add: g_def asset_key_def)
  assume p: "put_asset i kind sha t s = Some s'"
  then have "es_db s' = es_db s" by (auto simp: put_asset_def split: if_splits)
  moreover have "assets_ok s'" if "assets_ok s"
    using p that unfolding put_asset_def g_def [symmetric]
    by (auto simp: assets_ok_def g comp_def split: if_splits) (auto simp: asset_key_def)
  ultimately show ?thesis by (simp add: enriches_def)
qed

lemma enriches_patch: "patch_service outer inner v i s = Some s' \<Longrightarrow> enriches cx s s'"
proof -
  assume p: "patch_service outer inner v i s = Some s'"
  show ?thesis
  proof (cases "find (\<lambda>r. sv_id r = i) (db_services (es_db s))")
    case None
    then show ?thesis using p by (simp add: patch_service_def enriches_refl)
  next
    case (Some r)
    then obtain d where s': "s' = s\<lparr>es_db := (es_db s)\<lparr>db_services :=
        map (\<lambda>r. if sv_id r = i then r\<lparr>sv_data := d\<rparr> else r) (db_services (es_db s))\<rparr>\<rparr>"
      using p by (auto simp: patch_service_def)
    have "sv_id ` set (map (\<lambda>r. if sv_id r = i then r\<lparr>sv_data := d\<rparr> else r) rs) = sv_id ` set rs"
      for rs :: "service_row list" by (induction rs) auto
    then have "assets_ok s \<longrightarrow> assets_ok s'" by (simp add: s' assets_ok_def)
    moreover have "db_path cx (es_db s) (es_db s')" unfolding s' by (simp add: one_step rewrite)
    moreover have "db_enrich_queue (es_db s') = db_enrich_queue (es_db s)"
      "db_probe_queue (es_db s') = db_probe_queue (es_db s)" "db_host_queue (es_db s') = db_host_queue (es_db s)"
      by (simp_all add: s')
    ultimately show ?thesis by (simp add: enriches_def)
  qed
qed

lemma enriches_attempt [enriches_intros]:
  assumes "\<And>s'. r = Some s' \<Longrightarrow> enriches cx s s'" "\<And>s'. enriches cx s' (snd (k s'))"
  shows "enriches cx s (snd (attempt_step r s k))"
  using assms enriches_trans by (auto simp: attempt_step_def enriches_refl split: option.split)

lemma enriches_ffmpeg: "run_ffmpeg e url out s = (r, s') \<Longrightarrow> enriches cx s s'"
  using enriches_files [of cx s] enriches_refl
  by (auto simp: run_ffmpeg_def split: ffmpeg_end.splits option.splits)

lemmas enriches_rules = enriches_intros enriches_asset enriches_patch enriches_write

lemma enriches_favicon: "enriches cx s (snd (fetch_and_store e dir now i s))"
  unfolding fetch_and_store_def
  by (auto simp: Let_def split: option.split prod.split intro!: enriches_intros
      elim: enriches_asset enriches_patch enriches_write)

lemma enriches_rtsp_store: "enriches cx s (snd (store_rtsp_frame e dir tmp bs now i s))"
  unfolding store_rtsp_frame_def Let_def
  by (auto intro!: enriches_intros elim: enriches_asset enriches_patch
      intro: enriches_trans [OF enriches_write enriches_remove])

lemma enriches_camera_store: "enriches cx s (snd (store_camera_frame e dir bs now i s))"
  unfolding store_camera_frame_def Let_def
  by (auto intro!: enriches_intros elim: enriches_asset enriches_write)

lemma enriches_paths: "enriches cx s (snd (capture_paths e dir ip port now i paths s))"
proof (induction paths arbitrary: s)
  case (Cons path paths)
  let ?tmp = "frame_tmp dir i"
  obtain r t where f: "run_ffmpeg e (frame_url ip port path) ?tmp s = (r, t)" by fastforce
  have st: "enriches cx s t" using f by (rule enriches_ffmpeg)
  have rest: "enriches cx s (snd (capture_paths e dir ip port now i paths (remove_file ?tmp t)))"
    using enriches_trans [OF st enriches_trans [OF enriches_remove Cons.IH]] .
  have store: "enriches cx s (snd (store_rtsp_frame e dir ?tmp bs now i t))" for bs
    using st enriches_rtsp_store by (rule enriches_trans)
  show ?case
    using st rest store by (auto simp: Let_def f split: ffmpeg_end.split bool.split option.split)
qed (simp add: enriches_refl)

lemma enriches_frames: "enriches cx s (snd (rtsp_frames e ip port cs s))"
proof (induction cs arbitrary: s)
  case (Cons c cs)
  obtain cred path where c: "c = (cred, path)" by (cases c)
  obtain r t where f: "run_ffmpeg e (rtsp_url ip port cred path) camera_tmp s = (r, t)" by fastforce
  have st: "enriches cx s t" using f by (rule enriches_ffmpeg)
  have "enriches cx s (snd (rtsp_frames e ip port cs (remove_file camera_tmp t)))"
    "enriches cx s (snd (rtsp_frames e ip port cs t))" "enriches cx s (remove_file camera_tmp t)"
    using enriches_trans [OF st enriches_trans [OF enriches_remove Cons.IH]] enriches_trans [OF st Cons.IH]
      enriches_trans [OF st enriches_remove] by auto
  then show ?case using st by (auto simp: c f split: ffmpeg_end.split bool.split option.split)
qed (simp add: enriches_refl)

lemma enriches_camera: "enriches cx s (snd (capture_camera_frame e dir now i s))"
proof (cases "service_address i (es_db s)")
  case (Some a)
  obtain ip port where a: "a = (ip, port)" by (cases a)
  obtain o1 t where r: "capture_from_rtsp e ip 554 s = (o1, t)" by fastforce
  have "enriches cx s t" using enriches_frames [of cx s] r by (metis capture_from_rtsp_def snd_conv)
  then have "enriches cx s (snd (store_camera_frame e dir bs now i t))" for bs
    using enriches_camera_store enriches_trans by blast
  then show ?thesis
    using \<open>enriches cx s t\<close>
    by (auto simp: capture_camera_frame_def Some a r enriches_camera_store split: outcome.split)
qed (simp add: capture_camera_frame_def enriches_refl)

lemma enriches_run: "enriches cx s (snd (enrich_run e dir now k i s))"
  by (cases k) (simp_all add: enrich_run_def enriches_favicon enriches_camera capture_rtsp_frame_def
      enriches_paths enriches_refl split: option.split prod.split)

text \<open>
  C24. Whatever the outside world answers, the handler of an enrichment is a path of the statements of the
  database, so it keeps its invariant; it keeps one asset per service and kind, each of an existing service,
  and takes exactly its own row out of the queue.
\<close>

theorem enrich_job_refines:
  assumes "assets_ok s"
  shows "db_path cx (es_db s) (es_db (enrich_job e dir now (i, service_id, kind) s)) \<and>
    assets_ok (enrich_job e dir now (i, service_id, kind) s) \<and>
    db_enrich_queue (es_db (enrich_job e dir now (i, service_id, kind) s)) =
      complete i (db_enrich_queue (es_db s))"
proof -
  define t where "t = (case enricher_of kind of
      Some k \<Rightarrow> snd (enrich_run e dir now k service_id s) | None \<Rightarrow> s)"
  have t: "enriches cx s t" by (simp add: t_def enriches_run enriches_refl split: option.split)
  have j: "enrich_job e dir now (i, service_id, kind) s =
      t\<lparr>es_db := (es_db t)\<lparr>db_enrich_queue := complete i (db_enrich_queue (es_db t))\<rparr>\<rparr>"
    by (simp add: enrich_job_def t_def Let_def)
  have "db_path cx (es_db s) ((es_db t)\<lparr>db_enrich_queue := complete i (db_enrich_queue (es_db t))\<rparr>)"
    using t unfolding enriches_def by (intro path_step [OF _ enrich_done]) blast
  then show ?thesis using t assms by (simp add: j enriches_def assets_ok_def)
qed

section \<open>Results\<close>

text \<open>What one candidate path yields: nothing usable, a body that cannot be read, or a snapshot.\<close>

definition snapshot_at :: "enrich_env \<Rightarrow> string \<Rightarrow> string \<Rightarrow> u8 list option option" where
  "snapshot_at e base_url path =
     (case ev_get e (base_url @ path) of
        None \<Rightarrow> None
      | Some resp \<Rightarrow>
          if is_success (ft_status resp) \<and> image_type (content_type_of resp)
          then (case ft_body resp of
                  None \<Rightarrow> Some None
                | Some bytes \<Rightarrow> if length bytes > 500 then Some (Some bytes) else None)
          else None)"

lemma http_snapshots_Cons:
  "http_snapshots e base_url (path # paths) =
     (case snapshot_at e base_url path of
        None \<Rightarrow> http_snapshots e base_url paths
      | Some None \<Rightarrow> Bail []
      | Some (Some bytes) \<Rightarrow> Ok (bytes, path))"
  by (simp add: snapshot_at_def split: option.split)

lemma http_snapshots_first:
  "http_snapshots e base_url paths = Ok (bytes, path) \<longleftrightarrow>
     (\<exists>pre post. paths = pre @ path # post \<and> snapshot_at e base_url path = Some (Some bytes) \<and>
        (\<forall>p\<in>set pre. snapshot_at e base_url p = None))"
proof (induction paths)
  case (Cons q paths)
  show ?case
  proof (cases "snapshot_at e base_url q")
    case None
    have "(\<exists>pre post. q # paths = pre @ path # post \<and> snapshot_at e base_url path = Some (Some bytes) \<and>
          (\<forall>p\<in>set pre. snapshot_at e base_url p = None)) \<longleftrightarrow>
        (\<exists>pre post. paths = pre @ path # post \<and> snapshot_at e base_url path = Some (Some bytes) \<and>
          (\<forall>p\<in>set pre. snapshot_at e base_url p = None))" (is "?L \<longleftrightarrow> ?R")
    proof
      assume ?L
      then show ?R using None by (auto simp: Cons_eq_append_conv)
    next
      assume ?R
      then obtain pre post where "paths = pre @ path # post" "snapshot_at e base_url path = Some (Some bytes)"
        "\<forall>p\<in>set pre. snapshot_at e base_url p = None" by blast
      then show ?L using None by (intro exI [of _ "q # pre"] exI [of _ post]) auto
    qed
    then show ?thesis unfolding http_snapshots_Cons using Cons None by simp
  next
    case (Some r)
    have "(\<exists>pre post. q # paths = pre @ path # post \<and> snapshot_at e base_url path = Some (Some bytes) \<and>
          (\<forall>p\<in>set pre. snapshot_at e base_url p = None)) \<longleftrightarrow> q = path \<and> r = Some bytes"
      using Some by (auto simp: Cons_eq_append_conv)
    then show ?thesis unfolding http_snapshots_Cons using Some by (auto split: option.split)
  qed
qed simp

text \<open>
  The snapshot of a camera is the first of the candidate paths, in their order, whose reply is a
  successful image of more than 500 bytes, provided every body before it could be read.
\<close>

theorem capture_first_snapshot:
  "capture_from_http e base_url = Ok (bytes, path) \<longleftrightarrow>
     (\<exists>pre post. HTTP_SNAPSHOT_PATHS = pre @ path # post \<and> snapshot_at e base_url path = Some (Some bytes) \<and>
        (\<forall>p\<in>set pre. snapshot_at e base_url p = None))"
  unfolding capture_from_http_def by (rule http_snapshots_first)

definition demo_outside :: enrich_env where
  "demo_outside =
     \<lparr>ev_get = \<lambda>url.
        if url = ''http://10.0.0.1:80/record/current.jpg''
        then Some \<lparr>ft_status = 200, ft_content_type = Some ''image/jpeg'', ft_body = Some (replicate 501 1)\<rparr>
        else if url = ''http://10.0.0.1:80/favicon.ico''
        then Some \<lparr>ft_status = 200, ft_content_type = None, ft_body = Some [1, 2]\<rparr>
        else None,
      ev_ffmpeg = \<lambda>url. NotStarted, ev_writable = \<lambda>path. True, ev_sha = \<lambda>bs. [0xAB], ev_b64 = \<lambda>bs. ''AQI=''\<rparr>"

theorem capture_first_snapshot_witness:
  "capture_from_http demo_outside ''http://10.0.0.1:80'' = Ok (replicate 501 1, ''/record/current.jpg'')"
proof -
  have h: "HTTP_SNAPSHOT_PATHS = [''/axis-cgi/jpg/image.cgi''] @ ''/record/current.jpg'' # drop 2 HTTP_SNAPSHOT_PATHS"
    by (simp add: HTTP_SNAPSHOT_PATHS_def)
  have s: "snapshot_at demo_outside ''http://10.0.0.1:80'' ''/record/current.jpg'' = Some (Some (replicate 501 1))"
    "snapshot_at demo_outside ''http://10.0.0.1:80'' ''/axis-cgi/jpg/image.cgi'' = None" by code_simp+
  show ?thesis
    unfolding capture_first_snapshot
    by (intro exI [of _ "[''/axis-cgi/jpg/image.cgi'']"] exI [of _ "drop 2 HTTP_SNAPSHOT_PATHS"] conjI h s(1))
      (simp add: s(2))
qed

text \<open>
  The favicon hash is the 31-polynomial of the base64 text, not MurmurHash3, and it collides freely:
  wherever the text has \<open>Aa\<close>, it may as well have \<open>BB\<close>.
\<close>

theorem favicon_hash_collides: "mmh3_hash (u @ ''Aa'' @ v) = mmh3_hash (u @ ''BB'' @ v)"
proof -
  have "(h * 31 + of_char (CHR ''A'')) * 31 + of_char (CHR ''a'') =
      (h * 31 + of_char (CHR ''B'')) * 31 + (of_char (CHR ''B'') :: 32 word)" for h
    by (simp add: algebra_simps)
  then show ?thesis by (simp add: mmh3_hash_def)
qed

lemma map_of_set_key: "map_of (set_key k v kvs) = (map_of kvs)(k \<mapsto> v)"
  by (induction kvs) auto

lemma jsonb_set_object:
  assumes "json_get data outer = Some (JObj ivs)"
  shows "\<exists>d. jsonb_set outer inner v data = Some d \<and>
           Option.bind (json_get d outer) (\<lambda>o1. json_get o1 inner) = Some v"
  using assms by (auto simp: jsonb_set_def json_get_def map_of_set_key split: json.splits)

lemma put_asset_known:
  assumes "i \<in> sv_id ` set (db_services (es_db s))"
  shows "\<exists>s'. put_asset i kind sha t s = Some s' \<and> es_db s' = es_db s \<and> es_files s' = es_files s \<and>
           (\<exists>a\<in>set (es_assets s'). asset_key a = (i, kind) \<and> as_sha256 a = sha \<and> as_taken_at a = t)"
proof (cases "\<exists>a\<in>set (es_assets s). as_service_id a = i \<and> as_kind a = kind")
  case True
  then obtain a where "a \<in> set (es_assets s)" "as_service_id a = i" "as_kind a = kind" by blast
  then show ?thesis using assms True
    by (force simp: put_asset_def asset_key_def intro!: bexI [of _ "a\<lparr>as_sha256 := sha, as_taken_at := t\<rparr>"])
next
  case False
  then show ?thesis using assms by (auto simp: put_asset_def asset_key_def)
qed

lemma patch_service_object:
  assumes "distinct (map sv_id (db_services (es_db s)))" "r \<in> set (db_services (es_db s))"
    "json_get (sv_data r) outer = Some (JObj ivs)"
  shows "\<exists>s' d. patch_service outer inner v (sv_id r) s = Some s' \<and> es_files s' = es_files s \<and>
           es_assets s' = es_assets s \<and> r\<lparr>sv_data := d\<rparr> \<in> set (db_services (es_db s')) \<and>
           Option.bind (json_get d outer) (\<lambda>o1. json_get o1 inner) = Some v"
proof -
  obtain d where d: "jsonb_set outer inner v (sv_data r) = Some d"
    "Option.bind (json_get d outer) (\<lambda>o1. json_get o1 inner) = Some v"
    using jsonb_set_object [OF assms(3)] by blast
  let ?rs = "map (\<lambda>q. if sv_id q = sv_id r then q\<lparr>sv_data := d\<rparr> else q) (db_services (es_db s))"
  have "r\<lparr>sv_data := d\<rparr> \<in> set ?rs"
    unfolding set_map using assms(2) by (intro image_eqI [of _ _ r]) simp_all
  then show ?thesis
    using d by (intro exI [of _ "s\<lparr>es_db := (es_db s)\<lparr>db_services := ?rs\<rparr>\<rparr>"] exI [of _ d])
      (simp add: patch_service_def find_key [OF assms(1,2)])
qed

text \<open>
  A favicon that is fetched is stored under its SHA-256, recorded as the asset of its service, and its
  hash put into the HTTP payload of the service document.
\<close>

theorem favicon_stored:
  assumes "db_ok (es_db s)" "r \<in> set (db_services (es_db s))" "service_address (sv_id r) (es_db s) = Some (ip, port)"
    "json_get (sv_data r) ''http'' = Some (JObj ivs)" "ev_get e (favicon_url ip port) = Some resp"
    "is_success (ft_status resp)" "ft_body resp = Some bytes"
    "ev_writable e (join_path dir (sha_hex e bytes @ ''.ico''))"
  shows "\<exists>s' d. fetch_and_store e dir now (sv_id r) s = (Ok (), s') \<and>
    es_files s' = (es_files s)(join_path dir (sha_hex e bytes @ ''.ico'') \<mapsto> bytes) \<and>
    (\<exists>a\<in>set (es_assets s'). asset_key a = (sv_id r, ''favicon'') \<and> as_sha256 a = sha_hex e bytes \<and>
       as_taken_at a = now) \<and>
    r\<lparr>sv_data := d\<rparr> \<in> set (db_services (es_db s')) \<and>
    Option.bind (json_get d ''http'') (\<lambda>h. json_get h ''favicon_hash'') =
      Some (json_int (sint (mmh3_hash (ev_b64 e bytes))))"
proof -
  let ?s1 = "s\<lparr>es_files := (es_files s)(join_path dir (sha_hex e bytes @ ''.ico'') \<mapsto> bytes)\<rparr>"
  have w: "write_file e (join_path dir (sha_hex e bytes @ ''.ico'')) bytes s = Some ?s1"
    using assms(8) by (simp add: write_file_def)
  obtain s2 where a: "put_asset (sv_id r) ''favicon'' (sha_hex e bytes) now ?s1 = Some s2" "es_db s2 = es_db s"
    "es_files s2 = es_files ?s1"
    "\<exists>a\<in>set (es_assets s2). asset_key a = (sv_id r, ''favicon'') \<and> as_sha256 a = sha_hex e bytes \<and> as_taken_at a = now"
    using put_asset_known [of "sv_id r" ?s1 "''favicon''" "sha_hex e bytes" now] assms(2) by auto
  have "distinct (map sv_id (db_services (es_db s2)))" "r \<in> set (db_services (es_db s2))"
    using assms(1,2) a(2) by (simp_all add: db_ok_def services_ok_def)
  from patch_service_object [OF this assms(4)] obtain s3 d where p:
    "patch_service ''http'' ''favicon_hash'' (json_int (sint (mmh3_hash (ev_b64 e bytes)))) (sv_id r) s2 = Some s3"
    "es_files s3 = es_files s2" "es_assets s3 = es_assets s2" "r\<lparr>sv_data := d\<rparr> \<in> set (db_services (es_db s3))"
    "Option.bind (json_get d ''http'') (\<lambda>h. json_get h ''favicon_hash'') =
       Some (json_int (sint (mmh3_hash (ev_b64 e bytes))))" by blast
  have "fetch_and_store e dir now (sv_id r) s = (Ok (), s3)"
    using assms(3,5-7) w a(1) p(1) by (simp add: fetch_and_store_def attempt_step_def Let_def)
  then show ?thesis using a p by auto
qed

definition icon_service :: service_row where
  "icon_service =
     \<lparr>sv_id = 1, sv_host_id = 1, sv_port = 80, sv_transport = ''tcp'', sv_sni = None,
      sv_data = JObj [(''kind'', JStr ''http''), (''http'', JObj [(''status'', JNum (PosInt 200))])],
      sv_first_seen = 5, sv_last_seen = 9\<rparr>"

definition icon_state :: enrich_state where
  "icon_state =
     \<lparr>es_db = demo_db\<lparr>db_services := [icon_service], db_next_service := 2\<rparr>, es_assets = [], es_files = Map.empty\<rparr>"

theorem favicon_stored_witness:
  "\<exists>s'. fetch_and_store demo_outside ''assets'' 9 1 icon_state = (Ok (), s') \<and>
     es_files s' = [''assets/ab.ico'' \<mapsto> [1, 2]] \<and> (\<exists>a\<in>set (es_assets s'). as_sha256 a = ''ab'')"
proof -
  have ok: "db_ok (es_db icon_state)"
    by (simp add: icon_state_def demo_db_def demo_host_def icon_service_def db_ok_defs queue_ok_empty)
  have r: "icon_service \<in> set (db_services (es_db icon_state))" by (simp add: icon_state_def)
  have c: "service_address (sv_id icon_service) (es_db icon_state) = Some (''10.0.0.1'', 80)"
    "json_get (sv_data icon_service) ''http'' = Some (JObj [(''status'', JNum (PosInt 200))])"
    "ev_get demo_outside (favicon_url ''10.0.0.1'' 80) = Some \<lparr>ft_status = 200, ft_content_type = None, ft_body = Some [1, 2]\<rparr>"
    "is_success (ft_status \<lparr>ft_status = 200, ft_content_type = None, ft_body = Some [1, 2]\<rparr>)"
    "ft_body \<lparr>ft_status = 200, ft_content_type = None, ft_body = Some [1, 2]\<rparr> = Some [1, 2]"
    "sha_hex demo_outside [1, 2] = ''ab''" "join_path ''assets'' (''ab'' @ ''.ico'') = ''assets/ab.ico''"
    "sv_id icon_service = 1" by code_simp+
  have "ev_writable demo_outside (join_path ''assets'' (sha_hex demo_outside [1, 2] @ ''.ico''))"
    by (simp add: demo_outside_def)
  from favicon_stored [OF ok r c(1-5) this, of 9] show ?thesis
    unfolding c(6-8) by (auto simp: icon_state_def)
qed

theorem enrich_job_refines_witness:
  "assets_ok (enrich_job demo_outside ''assets'' 9 (3, 1, ''favicon'') icon_state)"
proof -
  have "assets_ok icon_state" by (simp add: assets_ok_def icon_state_def)
  then show ?thesis using enrich_job_refines by blast
qed

end
