(* ===== verification/Loops.thy ===== *)
theory Loops
  imports Enrich
begin

text \<open>
  The endless loops of \<open>src/main.rs\<close> (\<open>run_sweep\<close>, \<open>run_deepscan\<close>, \<open>run_probe\<close>, \<open>run_enrich\<close>), statement by
  statement.  A loop is a control state, its spawned tasks are a list, and each step of a loop or task sends
  at most one statement to the database, so that a path of steps is one interleaving of everything the
  Tokio runtime may do.  The semaphore of the deep scan is its number of free permits; a task may die at any
  point, the database may be out of reach for any statement (\<open>up\<close> false), and the future under the outer
  timeout of a probe may be dropped at any point.  The lemmas: the
  steps of every loop and task are statements of \<open>db_step\<close>, the functional handlers of \<open>Stages\<close> are runs of the
  tasks, and every task ends after a bounded number of steps.
\<close>

section \<open>The sweep\<close>

text \<open>
  \<open>SNext\<close> holds the ranges still to do in this pass, \<open>SInsert\<close> the hosts found in a range that are still to be
  queued.  The list of strings is the history of the ranges handed to masscan.  When the depth of the queue
  cannot be read (\<open>up\<close> false), the sweep goes on.
\<close>

datatype sweep_pc = SNext "string list" | SInsert "scan_result list" "string list"

type_synonym sweep_state = "sweep_pc \<times> string list"

definition backpressure_answer :: "bool \<Rightarrow> config \<Rightarrow> db \<Rightarrow> bool outcome" where
  "backpressure_answer up cfg s =
     (if up then Ok (backpressure_active (db_probe_queue s) (sc_max_probe_queue_depth (cfg_scanner cfg)))
      else Bail [])"

definition sweep_results :: "scan_system \<Rightarrow> 64 word \<Rightarrow> config \<Rightarrow> string \<Rightarrow> scan_result list" where
  "sweep_results sys n cfg r =
     deepscan_results (run_stage1_batch sys n [r] (sc_discovery_ports (cfg_scanner cfg))
       (sc_discovery_rate (cfg_scanner cfg)))"

inductive sweep_step :: "pipeline \<Rightarrow> config \<Rightarrow> sweep_state \<times> db \<Rightarrow> sweep_state \<times> db \<Rightarrow> bool"
  for cx :: pipeline and cfg :: config where
  sweep_again: "sweep_step cx cfg ((SNext [], h), s) ((SNext (sc_ranges (cfg_scanner cfg)), h), s)"
| sweep_wait: "backpressure_answer up cfg s = Ok True \<Longrightarrow>
    sweep_step cx cfg ((SNext (r # rs), h), s) ((SNext (r # rs), h), s)"
| sweep_scan: "backpressure_answer up cfg s \<noteq> Ok True \<Longrightarrow>
    sweep_step cx cfg ((SNext (r # rs), h), s) ((SInsert (sweep_results sys n cfg r) rs, h @ [r]), s)"
| sweep_insert: "sweep_step cx cfg ((SInsert (x # xs) rs, h), s)
    ((SInsert xs rs, h),
     if up then s\<lparr>db_host_queue := snd (insert_host_scan (cx_inet cx) (sr_ip x) (db_host_queue s))\<rparr> else s)"
| sweep_inserted: "sweep_step cx cfg ((SInsert [] rs, h), s) ((SNext rs, h), s)"

section \<open>The deep scan\<close>

text \<open>
  \<open>DItems\<close> is the loop over the claimed rows, with the time of the claim, \<open>DWait\<close> the wait for a permit after
  the attempt has been counted, and \<open>DRequeue\<close> and \<open>DDrop\<close> are the two statements of the sweep of the queue.
\<close>

datatype deep_pc =
    DClaim
  | DItems "(int \<times> string) list" int
  | DWait int string "(int \<times> string) list" int
  | DRequeue int
  | DDrop int

datatype scan_task =
    Scanning int string
  | Marking int string
  | Inserting int "scan_result list"
  | Closing int

record deep_state =
  dp_pc :: deep_pc
  dp_tick :: u32
  dp_permits :: nat
  dp_scans :: "scan_task list"

definition max_concurrent :: nat where
  "max_concurrent = 2"

definition max_attempts :: int where
  "max_attempts = 3"

definition scan_results :: "scan_system \<Rightarrow> 64 word \<Rightarrow> config \<Rightarrow> string \<Rightarrow> scan_result list" where
  "scan_results sys n cfg ip =
     deepscan_results (run_stage2 sys n ip (expanded_deep_ports (cfg_scanner cfg))
       (sc_deep_scan_rate (cfg_scanner cfg)))"

text \<open>What a finished scan goes on with.\<close>

definition after_scan :: "config \<Rightarrow> int \<Rightarrow> string \<Rightarrow> scan_result list \<Rightarrow> scan_task" where
  "after_scan cfg i ip rs =
     (if (of_nat (length rs) :: u32) > sc_honeypot_port_threshold (cfg_scanner cfg) then Marking i ip
      else Inserting i rs)"

text \<open>A step of a spawned task; \<open>None\<close> when it is over, by its last statement or by a panic.\<close>

inductive scan_step :: "pipeline \<Rightarrow> config \<Rightarrow> scan_task \<times> db \<Rightarrow> scan_task option \<times> db \<Rightarrow> bool"
  for cx :: pipeline and cfg :: config where
  scan_died: "scan_step cx cfg (x, s) (None, s)"
| scan_done: "scan_step cx cfg (Scanning i ip, s) (Some (after_scan cfg i ip (scan_results sys n cfg ip)), s)"
| scan_mark: "scan_step cx cfg (Marking i ip, s) (Some (Closing i), mark_ip accepts ip s)"
| scan_insert: "scan_step cx cfg (Inserting i (r # rs), s)
    (Some (Inserting i rs),
     if up then s\<lparr>db_probe_queue := snd (insert_service_probe (cx_inet cx) (sr_ip r)
       (int (unat (sr_port r))) ''tcp'' (db_probe_queue s))\<rparr> else s)"
| scan_inserted: "scan_step cx cfg (Inserting i [], s) (Some (Closing i), s)"
| scan_close: "scan_step cx cfg (Closing i, s) (None, complete_host i s)"

text \<open>A task list with the task at \<open>k\<close> replaced, or removed when it is over.\<close>

definition put_task :: "nat \<Rightarrow> 'a option \<Rightarrow> 'a list \<Rightarrow> 'a list" where
  "put_task k x xs = (case x of Some y \<Rightarrow> xs[k := y] | None \<Rightarrow> take k xs @ drop (Suc k) xs)"

text \<open>The permit is dropped with the task.\<close>

definition freed :: "'a option \<Rightarrow> nat" where
  "freed x = (case x of Some _ \<Rightarrow> 0 | None \<Rightarrow> 1)"

inductive deep_step ::
  "pipeline \<Rightarrow> config \<Rightarrow> int \<Rightarrow> deep_state \<times> db \<Rightarrow> deep_state \<times> db \<Rightarrow> bool"
  for cx :: pipeline and cfg :: config and now :: int where
  deep_claim: "dp_pc d = DClaim \<Longrightarrow> claim_host_scans 1 now l (db_host_queue s) = (items, q) \<Longrightarrow>
    deep_step cx cfg now (d, s)
      (d\<lparr>dp_pc := if items = [] then DClaim else DItems items now\<rparr>, s\<lparr>db_host_queue := q\<rparr>)"
| deep_attempt: "dp_pc d = DItems ((i, ip) # items) t \<Longrightarrow>
    deep_step cx cfg now (d, s)
      (d\<lparr>dp_pc := DWait i ip items t\<rparr>,
       if up then s\<lparr>db_host_queue := increment_attempts i (db_host_queue s)\<rparr> else s)"
| deep_spawn: "dp_pc d = DWait i ip items t \<Longrightarrow> 0 < dp_permits d \<Longrightarrow>
    deep_step cx cfg now (d, s)
      (d\<lparr>dp_pc := DItems items t, dp_permits := dp_permits d - 1,
         dp_scans := dp_scans d @ [Scanning i ip]\<rparr>, s)"
| deep_tick: "dp_pc d = DItems [] t \<Longrightarrow>
    deep_step cx cfg now (d, s)
      (d\<lparr>dp_tick := dp_tick d + 1,
         dp_pc := if (dp_tick d + 1) mod 50 = 0 then DRequeue t else DClaim\<rparr>, s)"
| deep_requeue: "dp_pc d = DRequeue t \<Longrightarrow>
    deep_step cx cfg now (d, s)
      (d\<lparr>dp_pc := DDrop t\<rparr>, s\<lparr>db_host_queue := requeue max_attempts t (db_host_queue s)\<rparr>)"
| deep_drop: "dp_pc d = DDrop t \<Longrightarrow>
    deep_step cx cfg now (d, s)
      (d\<lparr>dp_pc := DClaim\<rparr>, s\<lparr>db_host_queue := snd (drop_dead max_attempts t (db_host_queue s))\<rparr>)"
| deep_unswept: "dp_pc d = DRequeue t \<or> dp_pc d = DDrop t \<Longrightarrow>
    deep_step cx cfg now (d, s) (d\<lparr>dp_pc := DClaim\<rparr>, s)"
| deep_task: "k < length (dp_scans d) \<Longrightarrow> scan_step cx cfg (dp_scans d ! k, s) (x, s') \<Longrightarrow>
    deep_step cx cfg now (d, s)
      (d\<lparr>dp_scans := put_task k x (dp_scans d), dp_permits := dp_permits d + freed x\<rparr>, s')"

section \<open>The probes\<close>

text \<open>
  A task goes through the statements of \<open>probe\<close> (\<open>Dispatching\<close> to \<open>Numbering\<close>, under the timeout), of
  \<open>upsert_service\<close> and \<open>maybe_enqueue_enrichments\<close>, and completes its row.
\<close>

datatype probe_task =
    Dispatching int string int string
  | Hosting int string u16 string service_data
  | Resolving int int string u16 string service_data
  | Locating int int string u16 string service_data
  | Numbering int int string u16 string service_data
  | Storing int probe_result
  | Trapping int int probe_result
  | Enqueueing int int "string list"
  | Completing int

fun row_of :: "probe_task \<Rightarrow> int" where
  "row_of (Dispatching i ip p tr) = i"
| "row_of (Hosting i ip p tr d) = i"
| "row_of (Resolving i h ip p tr d) = i"
| "row_of (Locating i h ip p tr d) = i"
| "row_of (Numbering i h ip p tr d) = i"
| "row_of (Storing i r) = i"
| "row_of (Trapping i sid r) = i"
| "row_of (Enqueueing i sid ks) = i"
| "row_of (Completing i) = i"

fun in_probe :: "probe_task \<Rightarrow> bool" where
  "in_probe (Dispatching i ip p tr) = True"
| "in_probe (Hosting i ip p tr d) = True"
| "in_probe (Resolving i h ip p tr d) = True"
| "in_probe (Locating i h ip p tr d) = True"
| "in_probe (Numbering i h ip p tr d) = True"
| "in_probe _ = False"

text \<open>A task after \<open>probe\<close> that has more to do than to complete its row.\<close>

fun after_result :: "probe_task \<Rightarrow> bool" where
  "after_result (Storing i r) = True"
| "after_result (Trapping i sid r) = True"
| "after_result (Enqueueing i sid ks) = True"
| "after_result _ = False"

definition reported :: "int \<Rightarrow> string \<Rightarrow> u16 \<Rightarrow> string \<Rightarrow> service_data \<Rightarrow> probe_result" where
  "reported h ip p tr d =
     \<lparr>pr_host_id = h, pr_ip = ip, pr_port = p, pr_transport = tr, pr_sni = None, pr_data = d\<rparr>"

text \<open>Dispatch, tech detection, fingerprinting and normalization: what \<open>probe\<close> does before the database.\<close>

definition examined :: "pipeline \<Rightarrow> string \<Rightarrow> u16 \<Rightarrow> net \<Rightarrow> service_data outcome" where
  "examined cx ip p n =
     bind_outcome (fst (dispatch (cx_env cx) ip p n)) (\<lambda>d. identified cx (d\<lparr>sd_port := Some p\<rparr>))"

inductive probe_step :: "pipeline \<Rightarrow> int \<Rightarrow> probe_task \<times> db \<Rightarrow> probe_task option \<times> db \<Rightarrow> bool"
  for cx :: pipeline and now :: int where
  probe_died: "probe_step cx now (x, s) (None, s)"
| probe_timed_out: "in_probe x \<Longrightarrow> probe_step cx now (x, s) (Some (Completing (row_of x)), s)"
| probe_refused: "after_result x \<Longrightarrow> probe_step cx now (x, s) (Some (Completing (row_of x)), s)"
| probe_examined: "examined cx (clean_ip ip) (of_int p) n = Ok d \<Longrightarrow>
    probe_step cx now (Dispatching i ip p tr, s) (Some (Hosting i (clean_ip ip) (of_int p) tr d), s)"
| probe_failed: "examined cx (clean_ip ip) (of_int p) n = Bail e \<Longrightarrow>
    probe_step cx now (Dispatching i ip p tr, s) (Some (Completing i), s)"
| probe_host: "ensure_host cx now ip s = (r, s') \<Longrightarrow>
    probe_step cx now (Hosting i ip p tr d, s)
      (Some (case r of Ok h \<Rightarrow> Resolving i h ip p tr d | _ \<Rightarrow> Completing i), s')"
| probe_resolve: "probe_step cx now (Resolving i h ip p tr d, s)
    (Some (Locating i h ip p tr d), update_dns cx now ip h s)"
| probe_locate: "probe_step cx now (Locating i h ip p tr d, s)
    (Some (Numbering i h ip p tr d), update_country cx now ip h s)"
| probe_number: "update_asn cx now ip h s = (r, s') \<Longrightarrow>
    probe_step cx now (Numbering i h ip p tr d, s)
      (Some (case r of Ok _ \<Rightarrow> Storing i (reported h ip p tr d) | _ \<Rightarrow> Completing i), s')"
| probe_skip: "sd_kind (pr_data r) = ''firewalled'' \<Longrightarrow>
    probe_step cx now (Storing i r, s) (Some (Completing i), s)"
| probe_store: "sd_kind (pr_data r) \<noteq> ''firewalled'' \<Longrightarrow> store_row cx now r s = (y, s') \<Longrightarrow>
    probe_step cx now (Storing i r, s)
      (Some (case y of Ok sid \<Rightarrow> Trapping i sid r | _ \<Rightarrow> Completing i), s')"
| probe_trap: "probe_step cx now (Trapping i sid r, s)
    (Some (Enqueueing i sid (wanted_enrichments (pr_data r))), mark_honeypot (pr_host_id r) s)"
| probe_enqueue: "enqueue sid k now s = (ok, s') \<Longrightarrow>
    probe_step cx now (Enqueueing i sid (k # ks), s)
      (Some (if ok then Enqueueing i sid ks else Completing i), s')"
| probe_enqueued: "probe_step cx now (Enqueueing i sid [], s) (Some (Completing i), s)"
| probe_complete: "probe_step cx now (Completing i, s) (None, complete_probe i s)"

section \<open>The enrichments\<close>

text \<open>The row that an enricher patches is its own service's; a run is one step, its errors are logged.\<close>

datatype enrich_task = Enriching int int string | Enriched int

inductive enrich_step ::
  "enrich_env \<Rightarrow> config \<Rightarrow> int \<Rightarrow> enrich_task \<times> enrich_state \<Rightarrow> enrich_task option \<times> enrich_state \<Rightarrow> bool"
  for e :: enrich_env and cfg :: config and now :: int where
  enrich_died: "enrich_step e cfg now (x, s) (None, s)"
| enrich_ran: "enrich_step e cfg now (Enriching i sid kind, s)
    (Some (Enriched i),
     case enricher_of kind of
       Some k \<Rightarrow> snd (enrich_run e (cfg_assets_dir cfg) now k sid s) | None \<Rightarrow> s)"
| enrich_refused: "enrich_step e cfg now (Enriching i sid kind, s) (Some (Enriched i), s)"
| enrich_complete: "enrich_step e cfg now (Enriched i, s)
    (None, s\<lparr>es_db := (es_db s)\<lparr>db_enrich_queue := complete i (db_enrich_queue (es_db s))\<rparr>\<rparr>)"

section \<open>Every step is a statement\<close>

named_theorems statements \<open>steps of the loops as paths of the database\<close>

lemmas sweep_step_induct = sweep_step.induct [split_format (complete), consumes 1]
lemmas scan_step_induct = scan_step.induct [split_format (complete), consumes 1]
lemmas deep_step_induct = deep_step.induct [split_format (complete), consumes 1]
lemmas probe_step_induct = probe_step.induct [split_format (complete), consumes 1]
lemmas enrich_step_induct = enrich_step.induct [split_format (complete), consumes 1]

lemma sweep_statement [statements]: "sweep_step cx cfg ((w, h), s) ((w', h'), s') \<Longrightarrow> db_path cx s s'"
  by (induction rule: sweep_step_induct) (auto intro: one_step [OF found_host])

lemma scan_statement [statements]: "scan_step cx cfg (x, s) (y, s') \<Longrightarrow> db_path cx s s'"
  by (induction rule: scan_step_induct)
    (auto intro: one_step [OF honeypot] one_step [OF found_port] one_step [OF host_done])

lemma deep_statement [statements]: "deep_step cx cfg now (d, s) (d', s') \<Longrightarrow> db_path cx s s'"
proof (induction rule: deep_step_induct)
  case (deep_claim d l s items q)
  then show ?case using claimed_host_path [of cx s 1 now l] by simp
qed (auto intro: scan_statement one_step [OF attempt] one_step [OF host_requeue] one_step [OF host_drop])

lemma probe_statement [statements]: "probe_step cx now (x, s) (y, s') \<Longrightarrow> db_path cx s s'"
proof (induction rule: probe_step_induct)
  case (probe_host ip s r s' i p tr d)
  then show ?case using one_step [OF host_row [of cx s now ip]] by simp
next
  case (probe_number ip h s r s' i p tr d)
  then show ?case using one_step [OF host_asn [of cx s now ip h]] by simp
next
  case (probe_store r s y s' i)
  then show ?case using one_step [OF store [of cx s now r]] by simp
next
  case (probe_enqueue sid k s ok s' i ks)
  then show ?case using one_step [OF enqueue_one [of cx s sid k now]] by simp
qed (auto intro: one_step [OF host_dns] one_step [OF host_country] one_step [OF trap] one_step [OF probe_done])

lemma enrich_statement:
  "enrich_step e cfg now (x, s) (y, s') \<Longrightarrow>
   db_path cx (es_db s) (es_db s') \<and> (assets_ok s \<longrightarrow> assets_ok s')"
proof (induction rule: enrich_step_induct)
  case (enrich_ran i sid kind s)
  then show ?case using enriches_run [of cx s e "cfg_assets_dir cfg" now _ sid]
    by (auto simp: enriches_def split: option.split)
qed (auto simp: assets_ok_def intro: one_step [OF enrich_done])

section \<open>A task alone\<close>

text \<open>The steps of one probe task, at any times.\<close>

definition probe_move :: "pipeline \<Rightarrow> probe_task option \<times> db \<Rightarrow> probe_task option \<times> db \<Rightarrow> bool" where
  "probe_move cx a b \<longleftrightarrow> (\<exists>x now. fst a = Some x \<and> probe_step cx now (x, snd a) b)"

abbreviation probe_moves :: "pipeline \<Rightarrow> probe_task option \<times> db \<Rightarrow> probe_task option \<times> db \<Rightarrow> bool" where
  "probe_moves cx \<equiv> (probe_move cx)\<^sup>*\<^sup>*"

lemma probe_move_simps [simp]:
  "probe_move cx (Some x, s) b \<longleftrightarrow> (\<exists>now. probe_step cx now (x, s) b)" "\<not> probe_move cx (None, s) b"
  by (simp_all add: probe_move_def)

lemma probe_moveI: "probe_step cx now (x, s) b \<Longrightarrow> probe_moves cx b c \<Longrightarrow> probe_moves cx (Some x, s) c"
  by (rule converse_rtranclp_into_rtranclp) (auto simp: probe_move_def)

lemma probe_completes: "probe_moves cx (Some (Completing i), s) (None, complete_probe i s)"
  by (rule probe_moveI [OF probe_complete rtranclp.rtrancl_refl])

lemma probe_dies: "probe_moves cx (Some x, s) (None, s)"
  by (rule probe_moveI [OF probe_died rtranclp.rtrancl_refl])

lemma enqueueing_moves:
  "probe_moves cx (Some (Enqueueing i sid ks), s) (None, complete_probe i (enqueue_all clk sid ks s))"
proof (induction ks arbitrary: clk s)
  case Nil
  show ?case by (rule probe_moveI [OF probe_enqueued]) (simp add: probe_completes)
next
  case (Cons k ks)
  obtain ok s1 where e: "enqueue sid k (clk 0) s = (ok, s1)" by fastforce
  show ?case
    by (rule probe_moveI [OF probe_enqueue [OF e]]) (simp add: e Cons.IH probe_completes)
qed

lemma storing_moves:
  "probe_moves cx (Some (Storing i r), s) (None, after_probe cx clk i (PDone r) s)"
proof (cases "sd_kind (pr_data r) = ''firewalled''")
  case True
  show ?thesis
    by (rule probe_moveI [OF probe_skip [OF True]])
      (simp add: after_probe_def upsert_service_def True probe_completes)
next
  case False
  obtain y s1 where st: "store_row cx (clk 0) r s = (y, s1)" by fastforce
  have np: "y \<noteq> Panic" using st by (auto simp: store_row_def Let_def case_prod_beta split: if_splits)
  show ?thesis
  proof (cases y)
    case (Ok sid)
    have "probe_moves cx (Some (Trapping i sid r), s1)
        (None, complete_probe i (maybe_enqueue_enrichments (\<lambda>k. clk (Suc k)) sid (pr_data r)
           (mark_honeypot (pr_host_id r) s1)))"
      unfolding maybe_enqueue_enrichments_def by (rule probe_moveI [OF probe_trap enqueueing_moves])
    then show ?thesis
      by (intro probe_moveI [OF probe_store [OF False st]])
        (simp add: Ok after_probe_def upsert_service_def False st)
  next
    case (Bail e)
    then show ?thesis
      by (intro probe_moveI [OF probe_store [OF False st]])
        (simp add: after_probe_def upsert_service_def False st probe_completes)
  qed (use np in simp)
qed

text \<open>
  C4. The handler of a claimed probe, run from the dispatch to the completion with nothing in between, is one
  run of the task of its row: the two models of the probe stage agree.
\<close>

theorem probe_job_run:
  "probe_moves cx (Some (Dispatching i ip p tr), s) (None, fst (probe_job cx clk (i, ip, p, tr) s n))"
proof -
  let ?ip = "clean_ip ip" and ?p = "of_int p :: u16"
  obtain o1 n1 where d: "dispatch (cx_env cx) ?ip ?p n = (o1, n1)" by fastforce
  have ex: "examined cx ?ip ?p n = bind_outcome o1 (\<lambda>d. identified cx (d\<lparr>sd_port := Some ?p\<rparr>))"
    by (simp add: examined_def d)
  show ?thesis
  proof (cases "examined cx ?ip ?p n")
    case (Ok d1)
    then obtain d0 where o1: "o1 = Ok d0" "identified cx (d0\<lparr>sd_port := Some ?p\<rparr>) = Ok d1"
      unfolding ex by (cases o1) auto
    obtain r2 s2 where h: "ensure_host cx (clk 0) ?ip s = (r2, s2)" by fastforce
    show ?thesis
    proof (cases r2)
      case (Ok hid)
      let ?s3 = "update_country cx (clk 2) ?ip hid (update_dns cx (clk 1) ?ip hid s2)"
      obtain r4 s4 where a: "update_asn cx (clk 3) ?ip hid ?s3 = (r4, s4)" by fastforce
      have "probe_moves cx (Some (Numbering i hid ?ip ?p tr d1), ?s3)
          (None, case r4 of Ok _ \<Rightarrow> after_probe cx (\<lambda>k. clk (k + 4)) i (PDone (reported hid ?ip ?p tr d1)) s4
             | _ \<Rightarrow> complete_probe i s4)"
        by (rule probe_moveI [OF probe_number [OF a]])
          (cases r4; simp add: storing_moves probe_completes)
      moreover have "r4 \<noteq> Panic" using a by (auto simp: update_asn_def split: option.splits if_splits)
      ultimately have "probe_moves cx (Some (Resolving i hid ?ip ?p tr d1), s2)
          (None, fst (probe_job cx clk (i, ip, p, tr) s n))"
        using a by (intro probe_moveI [OF probe_resolve] probe_moveI [OF probe_locate])
          (cases r4; simp add: probe_job_def probe_def Let_def d o1 h Ok reported_def after_probe_def)
      then show ?thesis
        by (intro probe_moveI [OF probe_examined [OF \<open>examined cx ?ip ?p n = Ok d1\<close>]]
            probe_moveI [OF probe_host [OF h]]) (simp add: Ok)
    next
      case (Bail e)
      then show ?thesis
        using h by (intro probe_moveI [OF probe_examined [OF \<open>examined cx ?ip ?p n = Ok d1\<close>]]
            probe_moveI [OF probe_host [OF h]])
          (simp_all add: probe_job_def probe_def Let_def d o1 after_probe_def probe_completes)
    next
      case Panic
      then show ?thesis using h by (simp add: ensure_host_def Let_def split: option.splits)
    qed
  next
    case (Bail e)
    have "fst (probe_job cx clk (i, ip, p, tr) s n) = complete_probe i s"
      using Bail unfolding ex
      by (cases o1) (simp_all add: probe_job_def probe_def Let_def d after_probe_def)
    then show ?thesis by (intro probe_moveI [OF probe_failed [OF Bail]]) (simp add: probe_completes)
  next
    case Panic
    have "fst (probe_job cx clk (i, ip, p, tr) s n) = s"
      using Panic unfolding ex
      by (cases o1) (simp_all add: probe_job_def probe_def Let_def d after_probe_def)
    then show ?thesis by (simp add: probe_dies)
  qed
qed

theorem probe_job_run_witness:
  "probe_moves demo_pipeline (Some (Dispatching 2 ''10.0.0.9'' 81 ''tcp''), poison_db)
     (None, fst (probe_job demo_pipeline (\<lambda>k. 9) (2, ''10.0.0.9'', 81, ''tcp'') poison_db closed_net))"
  by (rule probe_job_run)

text \<open>The deep scan of a claimed host in the same way, after its attempt has been counted.\<close>

definition scan_move ::
  "pipeline \<Rightarrow> config \<Rightarrow> scan_task option \<times> db \<Rightarrow> scan_task option \<times> db \<Rightarrow> bool" where
  "scan_move cx cfg a b \<longleftrightarrow> (\<exists>x. fst a = Some x \<and> scan_step cx cfg (x, snd a) b)"

abbreviation scan_moves ::
  "pipeline \<Rightarrow> config \<Rightarrow> scan_task option \<times> db \<Rightarrow> scan_task option \<times> db \<Rightarrow> bool" where
  "scan_moves cx cfg \<equiv> (scan_move cx cfg)\<^sup>*\<^sup>*"

lemma scan_moveI:
  "scan_step cx cfg (x, s) b \<Longrightarrow> scan_moves cx cfg b c \<Longrightarrow> scan_moves cx cfg (Some x, s) c"
  by (rule converse_rtranclp_into_rtranclp) (auto simp: scan_move_def)

lemma scan_closes: "scan_moves cx cfg (Some (Closing i), s) (None, complete_host i s)"
  by (rule scan_moveI [OF scan_close rtranclp.rtrancl_refl])

lemma inserting_moves:
  "scan_moves cx cfg (Some (Inserting i rs), s) (None, complete_host i (insert_results cx rs s))"
proof (induction rs arbitrary: s)
  case Nil
  show ?case by (rule scan_moveI [OF scan_inserted]) (simp add: insert_results_def scan_closes)
next
  case (Cons r rs)
  show ?case
    by (rule scan_moveI [OF scan_insert [where up = True]]) (use Cons.IH in \<open>simp add: insert_results_def\<close>)
qed

lemma deepscan_job_run:
  "scan_moves cx cfg (Some (Scanning i ip), s\<lparr>db_host_queue := increment_attempts i (db_host_queue s)\<rparr>)
     (None, deepscan_job cx accepts (sc_honeypot_port_threshold (cfg_scanner cfg))
        (run_stage2 sys n ip (expanded_deep_ports (cfg_scanner cfg)) (sc_deep_scan_rate (cfg_scanner cfg)))
        (i, ip) s)"
proof -
  let ?s = "s\<lparr>db_host_queue := increment_attempts i (db_host_queue s)\<rparr>"
  have "scan_moves cx cfg (Some (Marking i ip), ?s) (None, complete_host i (mark_ip accepts ip ?s))"
    by (rule scan_moveI [OF scan_mark scan_closes])
  then show ?thesis
    by (intro scan_moveI [OF scan_done [of cx cfg i ip _ sys n]])
      (simp add: after_scan_def scan_results_def deepscan_job_def Let_def inserting_moves)
qed

section \<open>Every task ends\<close>

fun steps_left :: "probe_task \<Rightarrow> nat" where
  "steps_left (Dispatching i ip p tr) = 12"
| "steps_left (Hosting i ip p tr d) = 11"
| "steps_left (Resolving i h ip p tr d) = 10"
| "steps_left (Locating i h ip p tr d) = 9"
| "steps_left (Numbering i h ip p tr d) = 8"
| "steps_left (Storing i r) = 7"
| "steps_left (Trapping i sid r) = 6"
| "steps_left (Enqueueing i sid ks) = length ks + 2"
| "steps_left (Completing i) = 1"

lemma steps_left_pos: "0 < steps_left x"
  by (cases x) simp_all

lemma steps_left_less: "probe_step cx now (x, s) (y, s') \<Longrightarrow> y = Some z \<Longrightarrow> steps_left z < steps_left x"
proof (induction rule: probe_step_induct)
  case (probe_timed_out x s)
  then show ?case by (cases x) auto
next
  case (probe_refused x s)
  then show ?case by (cases x) auto
qed (auto simp: wanted_enrichments_def split: outcome.splits if_splits)

text \<open>
  C16. A probe task is over after at most twelve statements, whatever the peer, the database and the clock do
  and wherever it is cut off: the longest run stores the service and queues three enrichments.
\<close>

theorem probe_task_bounded:
  assumes "(probe_move cx ^^ k) (Some (Dispatching i ip p tr), s) b"
  shows "k \<le> 12"
proof -
  have "(probe_move cx ^^ k) (Some x, s) b \<Longrightarrow> k \<le> steps_left x" for x s
  proof (induction k arbitrary: x s)
    case (Suc k)
    obtain c where c: "probe_move cx (Some x, s) c" "(probe_move cx ^^ k) c b"
      using Suc.prems by (rule relpowp_Suc_E2)
    then obtain now y s' where st: "probe_step cx now (x, s) (y, s')" "(probe_move cx ^^ k) (y, s') b"
      by (cases c) auto
    show ?case
    proof (cases y)
      case None
      have "k = 0"
      proof (rule ccontr)
        assume "k \<noteq> 0"
        then obtain m where "(probe_move cx ^^ Suc m) (None, s') b" using st(2) None by (cases k) auto
        then show False by (rule relpowp_Suc_E2) simp
      qed
      then show ?thesis using steps_left_pos [of x] by simp
    next
      case (Some z)
      then show ?thesis using Suc.IH [of z s'] st(2) steps_left_less [OF st(1) Some] by simp
    qed
  qed simp
  from this [OF assms] show ?thesis by simp
qed

theorem probe_task_bounded_witness:
  "(probe_move demo_pipeline ^^ 2) (Some (Dispatching 2 ''10.0.0.9'' 81 ''tcp''), poison_db)
     (None, complete_probe 2 poison_db) \<and> (2 :: nat) \<le> 12"
proof -
  let ?x = "Dispatching 2 ''10.0.0.9'' 81 ''tcp''"
  have "probe_move demo_pipeline (Some ?x, poison_db) (Some (Completing 2), poison_db)"
    using probe_timed_out [of ?x demo_pipeline 9 poison_db] by auto
  moreover have "probe_move demo_pipeline (Some (Completing 2), poison_db) (None, complete_probe 2 poison_db)"
    using probe_complete by auto
  ultimately have "(probe_move demo_pipeline ^^ 2) (Some ?x, poison_db) (None, complete_probe 2 poison_db)"
    by (simp add: numeral_2_eq_2 relcompp_apply del: probe_move_simps) blast
  then show ?thesis using probe_task_bounded by blast
qed

end
