(* ===== verification/World.thy ===== *)
theory World
  imports Loops
begin

text \<open>
  Processes and the world.  A process of \<open>scanerr all\<close> runs the four loops of \<open>Loops\<close> over the shared database
  and files; a process of a single stage is one whose other loops stand still.  The world is any number of
  such processes with a clock; a process may be killed at any point and starts again with nothing but what is
  in the database.  The lemmas: the invariants of the database and the assets in every reachable world, the
  bound on concurrent scans, the order of the sweep, which tasks can take a row out of its queue, and what
  the loops do not guard against.
\<close>

record process =
  ps_sweep :: sweep_state
  ps_deep :: deep_state
  ps_probes :: "probe_task list"
  ps_enrich :: "enrich_task list"

record world_state =
  wo_clock :: int
  wo_processes :: "process list"
  wo_shared :: enrich_state

definition fresh :: "config \<Rightarrow> process" where
  "fresh cfg =
     \<lparr>ps_sweep = (SNext (sc_ranges (cfg_scanner cfg)), []),
      ps_deep = \<lparr>dp_pc = DClaim, dp_tick = 0, dp_permits = max_concurrent, dp_scans = []\<rparr>,
      ps_probes = [], ps_enrich = []\<rparr>"

definition start_probe :: "int \<times> string \<times> int \<times> string \<Rightarrow> probe_task" where
  "start_probe row = (case row of (i, ip, port, transport) \<Rightarrow> Dispatching i ip port transport)"

definition start_enrichment :: "int \<times> int \<times> string \<Rightarrow> enrich_task" where
  "start_enrichment row = (case row of (i, service_id, kind) \<Rightarrow> Enriching i service_id kind)"

definition on_db :: "db \<Rightarrow> enrich_state \<Rightarrow> enrich_state" where
  "on_db d s = s\<lparr>es_db := d\<rparr>"

text \<open>
  The loops of the probes and enrichments claim ten rows at a time and spawn a task for each without
  waiting for any.
\<close>

inductive process_step ::
  "pipeline \<Rightarrow> config \<Rightarrow> enrich_env \<Rightarrow> int \<Rightarrow> process \<times> enrich_state \<Rightarrow> process \<times> enrich_state \<Rightarrow> bool"
  for cx :: pipeline and cfg :: config and e :: enrich_env and now :: int where
  run_sweep: "sweep_step cx cfg (ps_sweep p, es_db s) (w, d) \<Longrightarrow>
    process_step cx cfg e now (p, s) (p\<lparr>ps_sweep := w\<rparr>, on_db d s)"
| run_deepscan: "deep_step cx cfg now (ps_deep p, es_db s) (w, d) \<Longrightarrow>
    process_step cx cfg e now (p, s) (p\<lparr>ps_deep := w\<rparr>, on_db d s)"
| claim_probes: "claim_service_probes 10 now l (db_probe_queue (es_db s)) = (items, q) \<Longrightarrow>
    process_step cx cfg e now (p, s)
      (p\<lparr>ps_probes := ps_probes p @ map start_probe items\<rparr>, on_db ((es_db s)\<lparr>db_probe_queue := q\<rparr>) s)"
| run_probe: "k < length (ps_probes p) \<Longrightarrow> probe_step cx now (ps_probes p ! k, es_db s) (x, d) \<Longrightarrow>
    process_step cx cfg e now (p, s) (p\<lparr>ps_probes := put_task k x (ps_probes p)\<rparr>, on_db d s)"
| claim_enrich: "claim_enrichments 10 now l (db_enrich_queue (es_db s)) = (items, q) \<Longrightarrow>
    process_step cx cfg e now (p, s)
      (p\<lparr>ps_enrich := ps_enrich p @ map start_enrichment items\<rparr>, on_db ((es_db s)\<lparr>db_enrich_queue := q\<rparr>) s)"
| run_enrich: "k < length (ps_enrich p) \<Longrightarrow> enrich_step e cfg now (ps_enrich p ! k, s) (x, s') \<Longrightarrow>
    process_step cx cfg e now (p, s) (p\<lparr>ps_enrich := put_task k x (ps_enrich p)\<rparr>, s')"

inductive world_step :: "pipeline \<Rightarrow> config \<Rightarrow> enrich_env \<Rightarrow> world_state \<Rightarrow> world_state \<Rightarrow> bool"
  for cx :: pipeline and cfg :: config and e :: enrich_env where
  world_tick: "0 \<le> t \<Longrightarrow> world_step cx cfg e w (w\<lparr>wo_clock := wo_clock w + t\<rparr>)"
| world_act: "k < length (wo_processes w) \<Longrightarrow>
    process_step cx cfg e (wo_clock w) (wo_processes w ! k, wo_shared w) (p, s) \<Longrightarrow>
    world_step cx cfg e w (w\<lparr>wo_processes := (wo_processes w)[k := p], wo_shared := s\<rparr>)"
| world_crash: "k < length (wo_processes w) \<Longrightarrow>
    world_step cx cfg e w (w\<lparr>wo_processes := (wo_processes w)[k := fresh cfg]\<rparr>)"

definition world_start :: "config \<Rightarrow> nat \<Rightarrow> int \<Rightarrow> (string \<rightharpoonup> u8 list) \<Rightarrow> world_state" where
  "world_start cfg n t files =
     \<lparr>wo_clock = t, wo_processes = replicate n (fresh cfg),
      wo_shared = \<lparr>es_db = empty_db, es_assets = [], es_files = files\<rparr>\<rparr>"

abbreviation world_path :: "pipeline \<Rightarrow> config \<Rightarrow> enrich_env \<Rightarrow> world_state \<Rightarrow> world_state \<Rightarrow> bool" where
  "world_path cx cfg e \<equiv> (world_step cx cfg e)\<^sup>*\<^sup>*"

lemmas process_step_induct = process_step.induct [split_format (complete), consumes 1]

section \<open>The invariant of the database\<close>

lemma on_db_simps [simp]: "es_db (on_db d s) = d" "es_assets (on_db d s) = es_assets s"
  by (simp_all add: on_db_def)












section \<open>The loops of a process\<close>

definition sweep_todo :: "sweep_pc \<Rightarrow> string list" where
  "sweep_todo pc = (case pc of SNext rs \<Rightarrow> rs | SInsert xs rs \<Rightarrow> rs)"

definition process_ok :: "config \<Rightarrow> process \<Rightarrow> bool" where
  "process_ok cfg p \<longleftrightarrow>
     dp_permits (ps_deep p) + length (dp_scans (ps_deep p)) = max_concurrent \<and>
     (\<exists>n. snd (ps_sweep p) @ sweep_todo (fst (ps_sweep p)) =
        concat (replicate n (sc_ranges (cfg_scanner cfg))))"

lemma length_put_task: "k < length xs \<Longrightarrow> length (put_task k x xs) + freed x = length xs"
  by (auto simp: put_task_def freed_def split: option.split)

lemma fresh_ok: "process_ok cfg (fresh cfg)"
  by (auto simp: process_ok_def fresh_def sweep_todo_def intro: exI [of _ 1])

lemma sweep_order:
  "sweep_step cx cfg ((pc, h), s) ((pc', h'), s') \<Longrightarrow>
   h @ sweep_todo pc = concat (replicate n (sc_ranges (cfg_scanner cfg))) \<Longrightarrow>
   \<exists>n. h' @ sweep_todo pc' = concat (replicate n (sc_ranges (cfg_scanner cfg)))"
proof (induction rule: sweep_step_induct)
  case (sweep_again h s)
  then show ?case by (intro exI [of _ "Suc n"]) (simp add: sweep_todo_def replicate_append_same [symmetric])
qed (auto simp: sweep_todo_def)

lemma permits_kept:
  "deep_step cx cfg now (d, s) (d', s') \<Longrightarrow>
   dp_permits d' + length (dp_scans d') = dp_permits d + length (dp_scans d)"
proof (induction rule: deep_step_induct)
  case (deep_task k d s x s')
  then show ?case using length_put_task [of k "dp_scans d" x] by simp
qed simp_all

lemma process_ok_step: "process_step cx cfg e now (p, s) (p', s') \<Longrightarrow> process_ok cfg p \<Longrightarrow> process_ok cfg p'"
proof (induction rule: process_step_induct)
  case (run_sweep p s pc h d)
  then show ?case by (cases "ps_sweep p") (auto simp: process_ok_def dest: sweep_order)
next
  case (run_deepscan p s w d)
  from permits_kept [OF run_deepscan(1)] show ?case using run_deepscan(2) by (simp add: process_ok_def)
qed (simp_all add: process_ok_def)

lemma processes_ok_step:
  "world_step cx cfg e w w' \<Longrightarrow> list_all (process_ok cfg) (wo_processes w) \<Longrightarrow>
   list_all (process_ok cfg) (wo_processes w')"
proof (induction rule: world_step.induct)
  case (world_act k w p s)
  then show ?case using process_ok_step [OF world_act(2)]
    by (auto simp: list_all_iff dest!: subsetD [OF set_update_subset_insert])
next
  case (world_crash k w)
  then show ?case using fresh_ok [of cfg]
    by (auto simp: list_all_iff dest!: subsetD [OF set_update_subset_insert])
qed simp

lemma processes_ok:
  "world_path cx cfg e (world_start cfg n t files) w \<Longrightarrow> list_all (process_ok cfg) (wo_processes w)"
  by (induction rule: rtranclp_induct)
    (auto simp: world_start_def list_all_iff fresh_ok dest: processes_ok_step)


text \<open>
  C15. The sweep never skips or reorders a range: however often it has to wait for the probe queue, the
  ranges a process has handed to masscan are a prefix of the configured ranges repeated for ever.
\<close>

theorem sweep_in_order:
  assumes "world_path cx cfg e (world_start cfg n t files) w" "p \<in> set (wo_processes w)"
  shows "\<exists>m. prefix (snd (ps_sweep p)) (concat (replicate m (sc_ranges (cfg_scanner cfg))))"
proof -
  obtain m where "snd (ps_sweep p) @ sweep_todo (fst (ps_sweep p)) =
      concat (replicate m (sc_ranges (cfg_scanner cfg)))"
    using processes_ok [OF assms(1)] assms(2) by (auto simp: list_all_iff process_ok_def)
  then show ?thesis by (metis prefixI)
qed

section \<open>Paths of one process\<close>

abbreviation process_path ::
  "pipeline \<Rightarrow> config \<Rightarrow> enrich_env \<Rightarrow> int \<Rightarrow> process \<times> enrich_state \<Rightarrow> process \<times> enrich_state \<Rightarrow> bool" where
  "process_path cx cfg e now \<equiv> (process_step cx cfg e now)\<^sup>*\<^sup>*"

lemma process_path_world:
  assumes "process_path cx cfg e (wo_clock w) (wo_processes w ! k, wo_shared w) (p, s)" "k < length (wo_processes w)"
  shows "world_path cx cfg e w (w\<lparr>wo_processes := (wo_processes w)[k := p], wo_shared := s\<rparr>)"
  using assms(1)
proof (induction "(p, s)" arbitrary: p s rule: rtranclp_induct)
  case base
  then show ?case using assms(2) by simp
next
  case (step y)
  obtain p1 s1 where y: "y = (p1, s1)" by (cases y)
  let ?w = "w\<lparr>wo_processes := (wo_processes w)[k := p1], wo_shared := s1\<rparr>"
  have "world_step cx cfg e ?w (?w\<lparr>wo_processes := (wo_processes ?w)[k := p], wo_shared := s\<rparr>)"
    using assms(2) step(2) by (intro world_act) (simp_all add: y)
  then show ?case using step(3) [OF y] by (simp add: rtranclp.rtrancl_into_rtrancl)
qed

lemma deep_path_lift:
  assumes "(deep_step cx cfg now)\<^sup>*\<^sup>* (ps_deep p, es_db s) (d, db')"
  shows "process_path cx cfg e now (p, s) (p\<lparr>ps_deep := d\<rparr>, on_db db' s)"
  using assms
proof (induction "(d, db')" arbitrary: d db' rule: rtranclp_induct)
  case base
  then show ?case by (simp add: on_db_def)
next
  case (step y)
  obtain d1 db1 where y: "y = (d1, db1)" by (cases y)
  have "process_step cx cfg e now (p\<lparr>ps_deep := d1\<rparr>, on_db db1 s)
      ((p\<lparr>ps_deep := d1\<rparr>)\<lparr>ps_deep := d\<rparr>, on_db db' (on_db db1 s))"
    using step(2) by (intro run_deepscan) (simp add: y)
  then show ?case using step(3) [OF y] by (simp add: rtranclp.rtrancl_into_rtrancl on_db_def)
qed

lemma sweep_path_lift:
  assumes "(sweep_step cx cfg)\<^sup>*\<^sup>* (ps_sweep p, es_db s) (d, db')"
  shows "process_path cx cfg e now (p, s) (p\<lparr>ps_sweep := d\<rparr>, on_db db' s)"
  using assms
proof (induction "(d, db')" arbitrary: d db' rule: rtranclp_induct)
  case base
  then show ?case by (simp add: on_db_def)
next
  case (step y)
  obtain d1 db1 where y: "y = (d1, db1)" by (cases y)
  have "process_step cx cfg e now (p\<lparr>ps_sweep := d1\<rparr>, on_db db1 s)
      ((p\<lparr>ps_sweep := d1\<rparr>)\<lparr>ps_sweep := d\<rparr>, on_db db' (on_db db1 s))"
    using step(2) by (cases d) (intro run_sweep, simp add: y)
  then show ?case using step(3) [OF y] by (simp add: rtranclp.rtrancl_into_rtrancl on_db_def)
qed

text \<open>A turn of the deep scan loop that claims the only host of the queue.\<close>

lemma claims_only_host:
  assumes "rows q = [r]" "claimable now r"
  shows "claim_host_scans 1 now [] q =
     ([(row_id r, item r)], q\<lparr>rows := [r\<lparr>claimed_until := Some (now + lease_secs)\<rparr>]\<rparr>)"
  using assms by (simp add: claim_host_scans_def claim_rows_def claim_ids_def)

lemma deep_state_steps:
  "deep_step cx cfg now (\<lparr>dp_pc = DItems ((i, ip) # items) t, dp_tick = k, dp_permits = n, dp_scans = xs\<rparr>, s)
     (\<lparr>dp_pc = DWait i ip items t, dp_tick = k, dp_permits = n, dp_scans = xs\<rparr>,
      s\<lparr>db_host_queue := increment_attempts i (db_host_queue s)\<rparr>)"
  "deep_step cx cfg now (\<lparr>dp_pc = DWait i ip items t, dp_tick = k, dp_permits = Suc n, dp_scans = xs\<rparr>, s)
     (\<lparr>dp_pc = DItems items t, dp_tick = k, dp_permits = n, dp_scans = xs @ [Scanning i ip]\<rparr>, s)"
  "(k + 1) mod 50 \<noteq> 0 \<Longrightarrow>
   deep_step cx cfg now (\<lparr>dp_pc = DItems [] t, dp_tick = k, dp_permits = n, dp_scans = xs\<rparr>, s)
     (\<lparr>dp_pc = DClaim, dp_tick = k + 1, dp_permits = n, dp_scans = xs\<rparr>, s)"
  using deep_attempt [of "\<lparr>dp_pc = DItems ((i, ip) # items) t, dp_tick = k, dp_permits = n, dp_scans = xs\<rparr>" i ip items t cx cfg now s True]
    deep_spawn [of "\<lparr>dp_pc = DWait i ip items t, dp_tick = k, dp_permits = Suc n, dp_scans = xs\<rparr>" i ip items t cx cfg now s]
    deep_tick [of "\<lparr>dp_pc = DItems [] t, dp_tick = k, dp_permits = n, dp_scans = xs\<rparr>" t cx cfg now s]
  by simp_all

lemma deep_turn:
  assumes "ps_deep p = \<lparr>dp_pc = DClaim, dp_tick = k, dp_permits = Suc n, dp_scans = xs\<rparr>"
    "rows (db_host_queue (es_db s)) = [r]" "claimable now r" "(k + 1) mod 50 \<noteq> 0"
  shows "process_path cx cfg e now (p, s)
    (p\<lparr>ps_deep := \<lparr>dp_pc = DClaim, dp_tick = k + 1, dp_permits = n,
         dp_scans = xs @ [Scanning (row_id r) (item r)]\<rparr>\<rparr>,
     on_db ((es_db s)\<lparr>db_host_queue := (db_host_queue (es_db s))\<lparr>rows :=
        [r\<lparr>attempts := attempts r + 1, claimed_until := Some (now + lease_secs)\<rparr>]\<rparr>\<rparr>) s)"
proof -
  let ?q = "db_host_queue (es_db s)"
  let ?c = "[r\<lparr>claimed_until := Some (now + lease_secs)\<rparr>]"
  let ?d = "\<lambda>pc k n xs. \<lparr>dp_pc = pc, dp_tick = k, dp_permits = n, dp_scans = xs\<rparr>"
  note c = claims_only_host [OF assms(2,3)]
  let ?s1 = "(es_db s)\<lparr>db_host_queue := ?q\<lparr>rows := ?c\<rparr>\<rparr>"
  let ?s2 = "?s1\<lparr>db_host_queue := increment_attempts (row_id r) (db_host_queue ?s1)\<rparr>"
  let ?it = "[(row_id r, item r)]" and ?xs = "xs @ [Scanning (row_id r) (item r)]"
  have s2: "?s2 = (es_db s)\<lparr>db_host_queue := ?q\<lparr>rows :=
      [r\<lparr>attempts := attempts r + 1, claimed_until := Some (now + lease_secs)\<rparr>]\<rparr>\<rparr>"
    by (simp add: increment_attempts_def update_row_def)
  have "deep_step cx cfg now (ps_deep p, es_db s) (?d (DItems ?it now) k (Suc n) xs, ?s1)"
    using deep_claim [OF _ c, of "ps_deep p" cx cfg] assms(1) by simp
  moreover have "deep_step cx cfg now (?d (DItems ?it now) k (Suc n) xs, ?s1)
      (?d (DWait (row_id r) (item r) [] now) k (Suc n) xs, ?s2)" by (rule deep_state_steps)
  moreover have "deep_step cx cfg now (?d (DWait (row_id r) (item r) [] now) k (Suc n) xs, ?s2)
      (?d (DItems [] now) k n ?xs, ?s2)" by (rule deep_state_steps)
  moreover have "deep_step cx cfg now (?d (DItems [] now) k n ?xs, ?s2) (?d DClaim (k + 1) n ?xs, ?s2)"
    by (rule deep_state_steps) (rule assms(4))
  ultimately have "(deep_step cx cfg now)\<^sup>*\<^sup>* (ps_deep p, es_db s) (?d DClaim (k + 1) n ?xs, ?s2)"
    by (meson converse_rtranclp_into_rtranclp r_into_rtranclp)
  from deep_path_lift [OF this] show ?thesis unfolding s2 .
qed

section \<open>A scan that outlives its lease\<close>

definition one_host :: scan_system where
  "one_host =
     \<lparr>ss_write = \<lambda>path text. True, ss_run = \<lambda>args. Some (True, []), ss_read = \<lambda>path. Some ''report'',
      ss_json = \<lambda>text. Some (report_json [(''10.0.0.1'', [80])])\<rparr>"

lemma one_host_found: "sweep_results one_host 0 default_config ''10.0.0.0/8'' = [\<lparr>sr_ip = ''10.0.0.1'', sr_port = 80\<rparr>]"
  by code_simp

definition found_row :: "string queue_row" where
  "found_row = \<lparr>row_id = 1, item = ''10.0.0.1'', attempts = 0, claimed_until = None\<rparr>"

text \<open>A process after its sweep has found one host.\<close>

definition swept_db :: db where
  "swept_db = empty_db\<lparr>db_host_queue := \<lparr>rows = [found_row], next_id = 2\<rparr>\<rparr>"

definition swept :: process where
  "swept = (fresh default_config)\<lparr>ps_sweep := (SInsert [] [], [''10.0.0.0/8''])\<rparr>"

lemma swept_path:
  "process_path demo_pipeline default_config e now (fresh default_config, s\<lparr>es_db := empty_db\<rparr>)
     (swept, s\<lparr>es_db := swept_db\<rparr>)"
proof -
  let ?x = "\<lparr>sr_ip = ''10.0.0.1'', sr_port = 80 :: u16\<rparr>" and ?h = "[''10.0.0.0/8'']"
  let ?p = "fresh default_config"
  have r: "sc_ranges (cfg_scanner default_config) = ?h" by (simp add: default_config_def)
  have q: "insert_host_scan (cx_inet demo_pipeline) ''10.0.0.1'' (db_host_queue empty_db) =
      (True, \<lparr>rows = [found_row], next_id = 2\<rparr>)"
    by (simp add: insert_host_scan_def demo_pipeline_def empty_db_def empty_queue_def insert_row_def found_row_def)
  have "sweep_step demo_pipeline default_config ((SNext ?h, []), empty_db) ((SInsert [?x] [], [] @ ?h), empty_db)"
    using sweep_scan [of False default_config empty_db demo_pipeline "''10.0.0.0/8''" "[]" "[]" one_host 0]
    by (simp add: backpressure_answer_def one_host_found)
  moreover have "sweep_step demo_pipeline default_config ((SInsert [?x] [], [] @ ?h), empty_db)
      ((SInsert [] [], ?h), swept_db)"
    using sweep_insert [where up = True, of demo_pipeline default_config ?x "[]" "[]" ?h empty_db] by (simp add: q swept_db_def)
  ultimately have "(sweep_step demo_pipeline default_config)\<^sup>*\<^sup>*
      (ps_sweep ?p, es_db (s\<lparr>es_db := empty_db\<rparr>)) ((SInsert [] [], ?h), swept_db)"
    by (simp add: fresh_def r)
  from sweep_path_lift [OF this] show ?thesis by (simp add: swept_def on_db_def)
qed

definition twice_leased :: db where
  "twice_leased = swept_db\<lparr>db_host_queue :=
     \<lparr>rows = [found_row\<lparr>attempts := 2, claimed_until := Some 1601\<rparr>], next_id = 2\<rparr>\<rparr>"

definition twice_scanning :: process where
  "twice_scanning = swept\<lparr>ps_deep := \<lparr>dp_pc = DClaim, dp_tick = 2, dp_permits = 0,
     dp_scans = [Scanning 1 ''10.0.0.1'', Scanning 1 ''10.0.0.1'']\<rparr>\<rparr>"

definition overlap_world :: "(string \<rightharpoonup> u8 list) \<Rightarrow> world_state" where
  "overlap_world files =
     \<lparr>wo_clock = 1301, wo_processes = [twice_scanning],
      wo_shared = \<lparr>es_db = twice_leased, es_assets = [], es_files = files\<rparr>\<rparr>"

lemma overlap_reached:
  "world_path demo_pipeline default_config e (world_start default_config 1 1000 files) (overlap_world files)"
proof -
  let ?s = "\<lparr>es_db = empty_db, es_assets = [], es_files = files\<rparr>"
  let ?x = "Scanning 1 ''10.0.0.1''"
  let ?w = "\<lambda>t p db. \<lparr>wo_clock = t, wo_processes = [p], wo_shared = ?s\<lparr>es_db := db\<rparr>\<rparr>"
  let ?p1 = "swept\<lparr>ps_deep := \<lparr>dp_pc = DClaim, dp_tick = 1, dp_permits = 1, dp_scans = [?x]\<rparr>\<rparr>"
  let ?r1 = "found_row\<lparr>attempts := 1, claimed_until := Some 1300\<rparr>"
  let ?s1 = "swept_db\<lparr>db_host_queue := \<lparr>rows = [?r1], next_id = 2\<rparr>\<rparr>"
  let ?path = "world_path demo_pipeline default_config e"
  have act: "?path (?w t p db) (?w t p' db')"
    if "process_path demo_pipeline default_config e t (p, ?s\<lparr>es_db := db\<rparr>) (p', ?s\<lparr>es_db := db'\<rparr>)" for t p db p' db'
    using process_path_world [of _ _ e "?w t p db" 0] that by simp
  have "?path (?w 1000 (fresh default_config) empty_db) (?w 1000 swept swept_db)"
    by (rule act [OF swept_path])
  moreover have "?path (?w 1000 swept swept_db) (?w 1000 ?p1 ?s1)"
    using deep_turn [of swept 0 1 "[]" "?s\<lparr>es_db := swept_db\<rparr>" found_row 1000 demo_pipeline default_config e]
    by (intro act) (simp add: swept_def fresh_def max_concurrent_def swept_db_def found_row_def claimable_def
        on_db_def lease_secs_def)
  moreover have "?path (?w 1000 ?p1 ?s1) (?w 1301 ?p1 ?s1)"
    using world_tick [of 301 demo_pipeline default_config e "?w 1000 ?p1 ?s1"] by simp
  moreover have "?path (?w 1301 ?p1 ?s1) (?w 1301 twice_scanning twice_leased)"
    using deep_turn [of ?p1 1 0 "[?x]" "?s\<lparr>es_db := ?s1\<rparr>" ?r1 1301 demo_pipeline default_config e]
    by (intro act) (simp add: swept_db_def found_row_def claimable_def on_db_def lease_secs_def
        twice_leased_def twice_scanning_def)
  ultimately have "?path (?w 1000 (fresh default_config) empty_db) (?w 1301 twice_scanning twice_leased)"
    by (meson rtranclp_trans)
  then show ?thesis by (simp add: world_start_def overlap_world_def)
qed

text \<open>
  C17. A lease can run out under a scan: the loops never extend one, so there are reachable worlds in which a
  process runs masscan twice at once against the same claimed host, although nothing has failed.
\<close>

theorem overlapping_scans:
  "\<exists>w p. world_path demo_pipeline default_config e (world_start default_config 1 1000 files) w \<and>
     wo_processes w = [p] \<and> dp_scans (ps_deep p) = [Scanning 1 ''10.0.0.1'', Scanning 1 ''10.0.0.1''] \<and>
     wo_clock w = 1301"
  by (intro exI [of _ "overlap_world files"] exI [of _ twice_scanning] conjI overlap_reached)
    (simp_all add: overlap_world_def twice_scanning_def)



theorem sweep_in_order_witness:
  "\<exists>m. prefix (snd (ps_sweep twice_scanning)) (concat (replicate m [''10.0.0.0/8'']))"
proof -
  have "twice_scanning \<in> set (wo_processes (overlap_world Map.empty))" by (simp add: overlap_world_def)
  from sweep_in_order [OF overlap_reached this] show ?thesis by (simp add: default_config_def)
qed

section \<open>What takes a row out of its queue\<close>

definition gone :: "'a queue \<Rightarrow> 'a queue \<Rightarrow> int set" where
  "gone q q' = row_id ` set (rows q) - row_id ` set (rows q')"

definition gone_probes :: "db \<Rightarrow> db \<Rightarrow> int set" where
  "gone_probes s s' = gone (db_probe_queue s) (db_probe_queue s')"

definition gone_hosts :: "db \<Rightarrow> db \<Rightarrow> int set" where
  "gone_hosts s s' = gone (db_host_queue s) (db_host_queue s')"

definition gone_enrichments :: "db \<Rightarrow> db \<Rightarrow> int set" where
  "gone_enrichments s s' = gone (db_enrich_queue s) (db_enrich_queue s')"

lemmas gone_defs = gone_probes_def gone_hosts_def gone_enrichments_def

lemma gone_map: "(\<And>r. row_id (f r) = row_id r) \<Longrightarrow> gone q (q\<lparr>rows := map f (rows q)\<rparr>) = {}"
  by (simp add: gone_def image_image)

lemma gone_ops [simp]:
  "gone q q = {}" "gone q (insert_row key x q) = {}" "gone q (snd (claim_rows b t l q)) = {}"
  "gone q (increment_attempts i q) = {}" "gone q (requeue m t q) = {}" "gone q (q\<lparr>next_id := n\<rparr>) = {}"
  by (simp_all add: claim_rows_def increment_attempts_def update_row_def requeue_def Let_def gone_map)
    (auto simp: gone_def insert_row_def)

lemma gone_complete: "gone q (complete i q) \<subseteq> {i}"
  by (auto simp: gone_def complete_def)

lemma gone_drop: "gone q (snd (drop_dead m t q)) \<subseteq> row_id ` {r \<in> set (rows q). m \<le> attempts r}"
  by (auto simp: gone_def drop_dead_def Let_def)

lemma gone_inserts [simp]:
  "gone h (snd (insert_host_scan f ip h)) = {}" "gone p (snd (insert_service_probe f ip n tr p)) = {}"
  "gone e (snd (insert_enrichment ids i k t e)) = {}"
  by (simp_all add: insert_host_scan_def insert_service_probe_def insert_enrichment_def Let_def split: option.split)

lemma queues_simps [simp]:
  "db_host_queue (mark_honeypot i s) = db_host_queue s" "db_probe_queue (mark_honeypot i s) = db_probe_queue s"
  "db_enrich_queue (mark_honeypot i s) = db_enrich_queue s" "db_enrich_queue (mark_ip b ip s) = db_enrich_queue s"
  "db_enrich_queue (complete_host i s) = db_enrich_queue s"
  "db_host_queue (complete_probe i s) = db_host_queue s" "db_enrich_queue (complete_probe i s) = db_enrich_queue s"
  by (simp_all add: mark_honeypot_def mark_ip_def complete_host_def complete_probe_def)

definition same_queues :: "db \<Rightarrow> db \<Rightarrow> bool" where
  "same_queues s s' \<longleftrightarrow> db_host_queue s' = db_host_queue s \<and> db_probe_queue s' = db_probe_queue s \<and>
     db_enrich_queue s' = db_enrich_queue s"

lemma same_queues_ops:
  "same_queues s s" "same_queues s (snd (ensure_host cx t ip s))" "same_queues s (update_dns cx t ip i s)"
  "same_queues s (update_country cx t ip i s)" "same_queues s (snd (update_asn cx t ip i s))"
  "same_queues s (snd (store_row cx t r s))" "same_queues s (mark_honeypot i s)"
  by (auto simp: same_queues_def ensure_host_def update_dns_def update_country_def update_asn_def store_row_def
      insert_service_def Let_def case_prod_beta split: option.split outcome.split)

lemma same_queues_gone:
  "same_queues s s' \<Longrightarrow> gone_probes s s' = {} \<and> gone_hosts s s' = {} \<and> gone_enrichments s s' = {}"
  by (simp add: same_queues_def gone_defs)

lemma gone_sweep:
  "sweep_step cx cfg ((w, h), s) ((w', h'), s') \<Longrightarrow>
   gone_probes s s' = {} \<and> gone_hosts s s' = {} \<and> gone_enrichments s s' = {}"
  by (induction rule: sweep_step_induct) (simp_all add: gone_defs)

lemma gone_scan:
  "scan_step cx cfg (x, s) (y, s') \<Longrightarrow>
   gone_probes s s' = {} \<and> gone_hosts s s' \<subseteq> {i. x = Closing i} \<and> gone_enrichments s s' = {}"
  by (induction rule: scan_step_induct) (simp_all add: gone_defs gone_complete)

lemma gone_deep:
  "deep_step cx cfg now (d, s) (d', s') \<Longrightarrow>
   gone_probes s s' = {} \<and> gone_enrichments s s' = {} \<and>
   gone_hosts s s' \<subseteq> {i. Closing i \<in> set (dp_scans d)} \<union>
     row_id ` {r \<in> set (rows (db_host_queue s)). max_attempts \<le> attempts r}"
proof (induction rule: deep_step_induct)
  case (deep_claim d l s items q)
  then have "q = snd (claim_rows 1 now l (db_host_queue s))"
    using snd_claims(1) [of 1 now l "db_host_queue s"] by simp
  then show ?case by (simp add: gone_defs)
next
  case (deep_drop d t s)
  show ?case using gone_drop [of "db_host_queue s" max_attempts t] by (auto simp: gone_defs)
next
  case (deep_task k d s x s')
  from gone_scan [OF deep_task(2)] show ?case using nth_mem [OF deep_task(1)] by auto
qed (simp_all add: gone_defs)

lemma gone_probe:
  "probe_step cx now (x, s) (y, s') \<Longrightarrow>
   gone_probes s s' \<subseteq> {i. x = Completing i} \<and> gone_hosts s s' = {} \<and> gone_enrichments s s' = {}"
proof (induction rule: probe_step_induct)
  case (probe_host ip s r s' i p tr d)
  then show ?case using same_queues_gone [OF same_queues_ops(2) [of s cx now ip]] by simp
next
  case (probe_number ip h s r s' i p tr d)
  then show ?case using same_queues_gone [OF same_queues_ops(5) [of s cx now ip h]] by simp
next
  case (probe_store r s y s' i)
  then show ?case using same_queues_gone [OF same_queues_ops(6) [of s cx now r]] by simp
next
  case (probe_enqueue sid k s ok s' i ks)
  then have "s' = snd (enqueue sid k now s)" by simp
  then show ?case by (simp add: enqueue_def case_prod_beta gone_defs)
next
  case (probe_complete i s)
  then show ?case by (simp add: gone_defs gone_complete)
qed (simp_all add: gone_defs same_queues_ops(3,4) [unfolded same_queues_def])

lemma gone_enrich:
  "enrich_step e cfg now (x, s) (y, s') \<Longrightarrow>
   gone_probes (es_db s) (es_db s') = {} \<and> gone_hosts (es_db s) (es_db s') = {} \<and>
   gone_enrichments (es_db s) (es_db s') \<subseteq> {i. x = Enriched i}"
proof (induction rule: enrich_step_induct)
  case (enrich_ran i sid kind s)
  then show ?case using enriches_run [of demo_pipeline s e "cfg_assets_dir cfg" now _ sid]
    by (auto simp: enriches_def gone_defs split: option.split)
qed (simp_all add: gone_defs gone_complete)

lemma gone_process:
  assumes "process_step cx cfg e now (p, s) (p', s')"
  shows "gone_probes (es_db s) (es_db s') \<subseteq> {i. Completing i \<in> set (ps_probes p)} \<and>
    gone_hosts (es_db s) (es_db s') \<subseteq> {i. Closing i \<in> set (dp_scans (ps_deep p))} \<union>
      row_id ` {r \<in> set (rows (db_host_queue (es_db s))). max_attempts \<le> attempts r} \<and>
    gone_enrichments (es_db s) (es_db s') \<subseteq> {i. Enriched i \<in> set (ps_enrich p)}"
  using assms
proof (induction rule: process_step_induct)
  case (run_sweep p s pc h d)
  then have "gone_probes (es_db s) d = {} \<and> gone_hosts (es_db s) d = {} \<and> gone_enrichments (es_db s) d = {}"
    by (cases "ps_sweep p") (auto dest: gone_sweep)
  then show ?case by simp
next
  case (run_deepscan p s w d)
  from gone_deep [OF this] show ?case by simp
next
  case (claim_probes l s items q p)
  then have "q = snd (claim_rows 10 now l (db_probe_queue (es_db s)))"
    using snd_claims(2) [of 10 now l "db_probe_queue (es_db s)"] by simp
  then show ?case by (simp add: gone_defs)
next
  case (run_probe k p s x d)
  from gone_probe [OF run_probe(2)] show ?case using nth_mem [OF run_probe(1)] by auto
next
  case (claim_enrich l s items q p)
  then have "q = snd (claim_rows 10 now l (db_enrich_queue (es_db s)))"
    using snd_claims(3) [of 10 now l "db_enrich_queue (es_db s)"] by simp
  then show ?case by (simp add: gone_defs)
next
  case (run_enrich k p s x s')
  from gone_enrich [OF run_enrich(2)] show ?case using nth_mem [OF run_enrich(1)] by auto
qed

text \<open>
  C6. No work is lost, whatever is killed: a step of the world takes a probe or an enrichment out of its queue
  only when a task has finished with that very row and completes it, and a host only in that way or when it has
  been attempted three times.
\<close>

theorem work_not_lost:
  assumes "world_step cx cfg e w w'"
  shows "(\<forall>i\<in>gone_probes (es_db (wo_shared w)) (es_db (wo_shared w')).
            \<exists>p\<in>set (wo_processes w). Completing i \<in> set (ps_probes p)) \<and>
    (\<forall>i\<in>gone_enrichments (es_db (wo_shared w)) (es_db (wo_shared w')).
            \<exists>p\<in>set (wo_processes w). Enriched i \<in> set (ps_enrich p)) \<and>
    (\<forall>i\<in>gone_hosts (es_db (wo_shared w)) (es_db (wo_shared w')).
            (\<exists>p\<in>set (wo_processes w). Closing i \<in> set (dp_scans (ps_deep p))) \<or>
            (\<exists>r\<in>set (rows (db_host_queue (es_db (wo_shared w)))). row_id r = i \<and> 3 \<le> attempts r))"
  using assms
proof (induction rule: world_step.induct)
  case (world_act k w p s)
  then show ?case using gone_process [OF world_act(2)] nth_mem [OF world_act(1)]
    by (fastforce simp: max_attempts_def)
qed (simp_all add: gone_defs)

definition finishing :: process where
  "finishing = (fresh default_config)\<lparr>ps_probes := [Completing 2]\<rparr>"

definition finishing_world :: world_state where
  "finishing_world =
     \<lparr>wo_clock = 9, wo_processes = [finishing],
      wo_shared = \<lparr>es_db = poison_db, es_assets = [], es_files = Map.empty\<rparr>\<rparr>"

theorem work_not_lost_witness:
  "gone_probes poison_db (complete_probe 2 poison_db) = {2} \<and>
   (\<exists>p\<in>set (wo_processes finishing_world). Completing 2 \<in> set (ps_probes p))"
proof -
  let ?s = "wo_shared finishing_world"
  have "process_step demo_pipeline default_config demo_outside 9 (finishing, ?s)
      (finishing\<lparr>ps_probes := put_task 0 None (ps_probes finishing)\<rparr>, on_db (complete_probe 2 poison_db) ?s)"
    by (rule run_probe) (simp_all add: finishing_def finishing_world_def probe_complete)
  then have "world_step demo_pipeline default_config demo_outside finishing_world
      (finishing_world\<lparr>wo_processes := (wo_processes finishing_world)
         [0 := finishing\<lparr>ps_probes := put_task 0 None (ps_probes finishing)\<rparr>],
       wo_shared := on_db (complete_probe 2 poison_db) ?s\<rparr>)"
    by (intro world_act) (simp_all add: finishing_world_def)
  note lost = work_not_lost [OF this]
  have g: "gone_probes poison_db (complete_probe 2 poison_db) = {2}"
    by (auto simp: gone_probes_def gone_def complete_def poison_db_def demo_probes_def)
  then show ?thesis using lost by (simp add: finishing_world_def)
qed

end
