(* ===== verification/Progress.thy ===== *)
theory Progress
  imports World
begin

text \<open>
  Progress of the probe loop: how many rows a claim leaves, how many turns empty the queue, and how many
  probes a process can have in flight.
\<close>

section \<open>Counting claims\<close>

definition pending :: "int \<Rightarrow> 'a queue \<Rightarrow> 'a queue_row list" where
  "pending t q = filter (claimable t) (rows q)"

lemma claim_ids_unlocked: "claim_ids b t [] q = take b (map row_id (sort_key row_id (pending t q)))"
  by (simp add: claim_ids_def pending_def)

lemma length_claim_ids: "length (claim_ids b t [] q) = min b (length (pending t q))"
  by (simp add: claim_ids_unlocked)

lemma distinct_claim_ids: "distinct_ids q \<Longrightarrow> distinct (claim_ids b t [] q)"
proof -
  assume d: "distinct_ids q"
  have "distinct (map row_id (pending t q))" unfolding pending_def by (rule distinct_map_filter [OF d])
  then have "distinct (map row_id (sort_key row_id (pending t q)))" unfolding distinct_map by simp
  then show ?thesis unfolding claim_ids_unlocked by (rule distinct_take)
qed

text \<open>The pending rows that a claim leaves.\<close>

lemma length_unclaimed:
  assumes "distinct_ids q"
  shows "length (filter (\<lambda>r. row_id r \<notin> set (claim_ids b t [] q)) (pending t q)) =
    length (pending t q) - b"
proof -
  let ?I = "set (claim_ids b t [] q)"
  have d: "distinct (map row_id (pending t q))" unfolding pending_def by (rule distinct_map_filter [OF assms])
  have "?I \<subseteq> row_id ` set (pending t q)" using claim_ids_set [of b t "[]" q] by (auto simp: pending_def)
  then have "row_id ` set (filter (\<lambda>r. row_id r \<in> ?I) (pending t q)) = ?I" by auto
  moreover have "distinct (map row_id (filter (\<lambda>r. row_id r \<in> ?I) (pending t q)))" by (rule distinct_map_filter [OF d])
  ultimately have "length (filter (\<lambda>r. row_id r \<in> ?I) (pending t q)) = card ?I"
    by (metis distinct_card length_map set_map)
  also have "\<dots> = min b (length (pending t q))"
    using distinct_card [OF distinct_claim_ids [OF assms, of b t]] length_claim_ids [of b t q] by simp
  finally show ?thesis using sum_length_filter_compl [of "\<lambda>r. row_id r \<in> ?I" "pending t q"] by simp
qed

section \<open>Draining the queue\<close>

text \<open>Turns of the probe loop at the given times, while nothing else touches the queue.\<close>

definition probe_rounds ::
  "pipeline \<Rightarrow> (nat \<Rightarrow> int) \<Rightarrow> (int \<Rightarrow> probe_end) \<Rightarrow> int list \<Rightarrow> db \<Rightarrow> db" where
  "probe_rounds cx clk ends ts s = foldl (\<lambda>s t. probe_round cx clk t [] ends s) s ts"

text \<open>
  Before the leases of \<open>t0\<close> are over, a row is either still to be claimed or was left by a task that panicked.
\<close>

definition drainable :: "int \<Rightarrow> (int \<Rightarrow> probe_end) \<Rightarrow> service_probe queue_row \<Rightarrow> bool" where
  "drainable t0 ends r \<longleftrightarrow>
     claimable t0 r \<or> ends (row_id r) = PPanicked \<and> \<not> claimable (t0 + lease_secs) r"

lemma claimable_mono: "claimable t r \<Longrightarrow> t \<le> t' \<Longrightarrow> claimable t' r"
  by (auto simp: claimable_def split: option.splits)

lemma drainable_claimable:
  "drainable t0 ends r \<Longrightarrow> t0 \<le> t \<Longrightarrow> t \<le> t0 + lease_secs \<Longrightarrow> claimable t r = claimable t0 r"
  using claimable_mono [of t0 r t] claimable_mono [of t r "t0 + lease_secs"] by (auto simp: drainable_def)

lemma drain_round:
  fixes cx :: pipeline and clk :: "nat \<Rightarrow> int"
  assumes "distinct_ids (db_probe_queue s)" "\<forall>r\<in>set (rows (db_probe_queue s)). drainable t0 ends r"
    "0 \<le> t0" "t0 \<le> t" "t \<le> t0 + lease_secs"
  defines "s' \<equiv> probe_round cx clk t [] ends s"
  shows "distinct_ids (db_probe_queue s')" "\<forall>r\<in>set (rows (db_probe_queue s')). drainable t0 ends r"
    "length (pending t0 (db_probe_queue s')) = length (pending t0 (db_probe_queue s)) - 10"
    "filter (\<lambda>i. ends i = PPanicked) (map row_id (rows (db_probe_queue s'))) =
     filter (\<lambda>i. ends i = PPanicked) (map row_id (rows (db_probe_queue s)))"
proof -
  define q where "q = db_probe_queue s"
  define I where "I = set (claim_ids 10 t [] q)"
  define lease where
    "lease = (\<lambda>r :: service_probe queue_row. if row_id r \<in> I then r\<lparr>claimed_until := Some (t + lease_secs)\<rparr> else r)"
  define kept where "kept = (\<lambda>r :: service_probe queue_row. row_id r \<in> I \<longrightarrow> ends (row_id r) = PPanicked)"
  have r: "rows (db_probe_queue s') = map lease (filter kept (rows q))"
    unfolding s'_def lease_def kept_def I_def q_def by (rule round_rows)
  have id: "row_id (lease r) = row_id r" for r by (simp add: lease_def)
  have ids: "map row_id (map lease rs) = map row_id rs" for rs by (simp add: id)
  have d: "distinct_ids q" using assms(1) by (simp add: q_def)
  show "distinct_ids (db_probe_queue s')" unfolding r ids by (rule distinct_map_filter [OF d])
  have dr: "drainable t0 ends r" if "r \<in> set (rows q)" for r using assms(2) that by (simp add: q_def)
  have new: "\<not> claimable t0 (lease r) \<and> \<not> claimable (t0 + lease_secs) (lease r)" if "row_id r \<in> I" for r
    using that assms(3-5) by (simp add: lease_def claimable_def lease_secs_def)
  show "\<forall>r\<in>set (rows (db_probe_queue s')). drainable t0 ends r"
  proof
    fix y
    assume "y \<in> set (rows (db_probe_queue s'))"
    then obtain x where x: "x \<in> set (rows q)" "kept x" "y = lease x" unfolding r by auto
    show "drainable t0 ends y"
    proof (cases "row_id x \<in> I")
      case True
      then show ?thesis using new [OF True] x by (simp add: drainable_def kept_def id)
    next
      case False
      then show ?thesis using dr [OF x(1)] x by (simp add: lease_def)
    qed
  qed
  have p: "pending t q = pending t0 q"
    unfolding pending_def by (rule filter_cong) (use dr drainable_claimable assms(4,5) in blast)+
  have "claimable t0 (lease r) \<and> kept r \<longleftrightarrow> claimable t0 r \<and> row_id r \<notin> I" for r
    using new [of r] by (auto simp: kept_def lease_def)
  then have "length (pending t0 (db_probe_queue s')) = length (filter (\<lambda>r. row_id r \<notin> I) (pending t q))"
    unfolding pending_def r p [unfolded pending_def] by (simp add: filter_map comp_def conj_commute)
  then show "length (pending t0 (db_probe_queue s')) = length (pending t0 (db_probe_queue s)) - 10"
    using length_unclaimed [OF d, of 10 t] p by (simp add: I_def q_def)
  show "filter (\<lambda>i. ends i = PPanicked) (map row_id (rows (db_probe_queue s'))) =
      filter (\<lambda>i. ends i = PPanicked) (map row_id (rows (db_probe_queue s)))"
    unfolding r ids q_def [symmetric]
    by (auto simp: filter_map comp_def kept_def intro!: arg_cong [of _ _ "map row_id"] filter_cong)
qed

lemma drain_rounds:
  assumes "distinct_ids (db_probe_queue s)" "\<forall>r\<in>set (rows (db_probe_queue s)). drainable t0 ends r"
    "0 \<le> t0" "\<forall>t\<in>set ts. t0 \<le> t \<and> t \<le> t0 + lease_secs"
  shows "(\<forall>r\<in>set (rows (db_probe_queue (probe_rounds cx clk ends ts s))). drainable t0 ends r) \<and>
    length (pending t0 (db_probe_queue (probe_rounds cx clk ends ts s))) =
      length (pending t0 (db_probe_queue s)) - 10 * length ts \<and>
    filter (\<lambda>i. ends i = PPanicked) (map row_id (rows (db_probe_queue (probe_rounds cx clk ends ts s)))) =
      filter (\<lambda>i. ends i = PPanicked) (map row_id (rows (db_probe_queue s)))"
  using assms
proof (induction ts arbitrary: s)
  case (Cons t ts)
  have t: "t0 \<le> t" "t \<le> t0 + lease_secs" using Cons.prems(4) by simp_all
  note r = drain_round [OF Cons.prems(1-3) t, of cx clk]
  show ?case using Cons.IH [OF r(1,2) Cons.prems(3)] Cons.prems(4) r(3,4) by (simp add: probe_rounds_def)
qed (simp add: probe_rounds_def)

text \<open>
  C8. The probe loop empties its queue: if every row can be claimed, a tenth as many turns as there are rows,
  within the time of a lease, leave exactly the rows whose tasks panicked, in their order, and no row at all
  if none did.
\<close>

theorem probe_queue_drains:
  assumes "db_ok s" "0 \<le> t0" "\<forall>r\<in>set (rows (db_probe_queue s)). claimable t0 r"
    "\<forall>t\<in>set ts. t0 \<le> t \<and> t \<le> t0 + lease_secs" "length (rows (db_probe_queue s)) \<le> 10 * length ts"
  shows "map row_id (rows (db_probe_queue (probe_rounds cx clk ends ts s))) =
    filter (\<lambda>i. ends i = PPanicked) (map row_id (rows (db_probe_queue s)))"
proof -
  let ?q = "db_probe_queue (probe_rounds cx clk ends ts s)"
  have d: "distinct_ids (db_probe_queue s)" using db_okD(2) [OF assms(1)] by (rule queue_ok_ids)
  have "\<forall>r\<in>set (rows (db_probe_queue s)). drainable t0 ends r" using assms(3) by (simp add: drainable_def)
  note r = drain_rounds [OF d this assms(2,4), of cx clk]
  have "length (pending t0 (db_probe_queue s)) \<le> 10 * length ts"
    unfolding pending_def by (rule le_trans [OF length_filter_le assms(5)])
  then have "pending t0 ?q = []" using r by simp
  then have "\<forall>r\<in>set (rows ?q). ends (row_id r) = PPanicked"
    using r by (auto simp: pending_def filter_empty_conv drainable_def)
  then have "filter (\<lambda>i. ends i = PPanicked) (map row_id (rows ?q)) = map row_id (rows ?q)"
    by (intro filter_True) simp
  then show ?thesis using r by simp
qed

theorem probe_queue_drains_witness:
  "map row_id (rows (db_probe_queue (probe_rounds demo_pipeline (\<lambda>k. 0) (\<lambda>i. if i = 2 then PPanicked else PTimedOut)
     [1000] poison_db))) = [2]"
proof -
  have "db_ok poison_db" by code_simp
  moreover have "\<forall>r\<in>set (rows (db_probe_queue poison_db)). claimable 1000 r" by code_simp
  moreover have "length (rows (db_probe_queue poison_db)) \<le> 10 * length [1000 :: int]" by code_simp
  moreover have "\<forall>t\<in>set [1000 :: int]. 1000 \<le> t \<and> t \<le> 1000 + lease_secs" by code_simp
  ultimately show ?thesis
    using probe_queue_drains [of poison_db 1000 "[1000]" demo_pipeline "\<lambda>k. 0" "\<lambda>i. if i = 2 then PPanicked else PTimedOut"]
    by (simp add: poison_db_def demo_probes_def)
qed

section \<open>Probes in flight\<close>

lemma pending_claim:
  assumes "distinct_ids q"
  shows "length (pending t (snd (claim_rows b t [] q))) = length (pending t q) - b"
proof -
  let ?I = "set (claim_ids b t [] q)"
  have "\<not> claimable t (r\<lparr>claimed_until := Some (t + lease_secs)\<rparr>)" for r :: "'a queue_row"
    by (simp add: claimable_def lease_secs_def)
  then have "length (pending t (snd (claim_rows b t [] q))) =
      length (filter (\<lambda>r. row_id r \<notin> ?I) (pending t q))"
    by (auto simp: pending_def claim_rows_def Let_def filter_map comp_def intro!: arg_cong [of _ _ length] filter_cong)
  then show ?thesis using length_unclaimed [OF assms, of b t] by simp
qed

lemma length_claim_rows:
  assumes "distinct_ids q"
  shows "length (fst (claim_rows b t [] q)) = min b (length (pending t q))"
proof -
  let ?I = "set (claim_ids b t [] q)"
  have "?I \<subseteq> row_id ` set (rows q)" using claim_ids_set [of b t "[]" q] by auto
  then have "row_id ` set (filter (\<lambda>r. row_id r \<in> ?I) (rows q)) = ?I" by auto
  then have "length (fst (claim_rows b t [] q)) = card ?I"
    using distinct_card [OF distinct_map_filter [OF assms, of "\<lambda>r. row_id r \<in> ?I"]]
    by (simp add: claim_rows_def Let_def)
  then show ?thesis using distinct_card [OF distinct_claim_ids [OF assms, of b t]] length_claim_ids [of b t q] by simp
qed

lemma claims_everything:
  assumes "distinct_ids (db_probe_queue (es_db s))"
  shows "\<exists>p' s'. process_path cx cfg e t (p, s) (p', s') \<and>
    length (ps_probes p') = length (ps_probes p) + length (pending t (db_probe_queue (es_db s)))"
  using assms
proof (induction "length (pending t (db_probe_queue (es_db s)))" arbitrary: p s rule: less_induct)
  case less
  let ?q = "db_probe_queue (es_db s)"
  show ?case
  proof (cases "pending t ?q = []")
    case False
    obtain items q where c: "claim_service_probes 10 t [] ?q = (items, q)" by fastforce
    have q: "q = snd (claim_rows 10 t [] ?q)" using c snd_claims(2) [of 10 t "[]" ?q] by simp
    have n: "length items = min 10 (length (pending t ?q))"
      using arg_cong [OF c, of "\<lambda>x. length (fst x)"] length_claim_rows [OF less.prems, of 10 t]
      by (simp add: claim_service_probes_eq)
    let ?p = "p\<lparr>ps_probes := ps_probes p @ map start_probe items\<rparr>"
    let ?s = "on_db ((es_db s)\<lparr>db_probe_queue := q\<rparr>) s"
    have l: "length (pending t q) = length (pending t ?q) - 10" using pending_claim [OF less.prems] q by simp
    have "distinct_ids q" using claim_rows_distinct [OF less.prems] unfolding q by simp
    then obtain p' s' where r: "process_path cx cfg e t (?p, ?s) (p', s')"
      and n': "length (ps_probes p') = length (ps_probes ?p) + length (pending t q)"
      using less.hyps [of ?s ?p] l False by auto
    have "process_path cx cfg e t (p, s) (p', s')"
      by (rule converse_rtranclp_into_rtranclp [where r = "process_step cx cfg e t", OF claim_probes [OF c] r])
    moreover have "length (ps_probes p') = length (ps_probes p) + length (pending t ?q)" using n n' l by simp
    ultimately show ?thesis by blast
  qed auto
qed

text \<open>
  C18. Nothing bounds the probes: whatever the configuration says, a process can have a probe in flight for
  every row of the queue that nobody has claimed, on top of those it is running.
\<close>

theorem probes_unbounded:
  assumes "db_ok (es_db (wo_shared w))" "k < length (wo_processes w)"
  shows "\<exists>w'. world_path cx cfg e w w' \<and> wo_clock w' = wo_clock w \<and>
    length (ps_probes (wo_processes w' ! k)) = length (ps_probes (wo_processes w ! k)) +
      length (pending (wo_clock w) (db_probe_queue (es_db (wo_shared w))))"
proof -
  have "distinct_ids (db_probe_queue (es_db (wo_shared w)))" using db_okD(2) [OF assms(1)] by (rule queue_ok_ids)
  from claims_everything [OF this] obtain p s where
    "process_path cx cfg e (wo_clock w) (wo_processes w ! k, wo_shared w) (p, s)"
    "length (ps_probes p) = length (ps_probes (wo_processes w ! k)) +
      length (pending (wo_clock w) (db_probe_queue (es_db (wo_shared w))))" by blast
  then show ?thesis using process_path_world [of cx cfg e w k p s] assms(2)
    by (intro exI [of _ "w\<lparr>wo_processes := (wo_processes w)[k := p], wo_shared := s\<rparr>"]) simp
qed

theorem probes_unbounded_witness:
  "\<exists>w'. world_path demo_pipeline default_config demo_outside finishing_world w' \<and> wo_clock w' = 9 \<and>
     length (ps_probes (wo_processes w' ! 0)) = 4"
proof -
  have "db_ok (es_db (wo_shared finishing_world))" "0 < length (wo_processes finishing_world)"
    unfolding finishing_world_def by code_simp+
  moreover have "length (ps_probes (wo_processes finishing_world ! 0)) = 1" "wo_clock finishing_world = 9"
    "length (pending 9 (db_probe_queue (es_db (wo_shared finishing_world)))) = 3"
    by (simp_all add: finishing_world_def finishing_def pending_def poison_db_def demo_probes_def claimable_def)
  ultimately show ?thesis
    using probes_unbounded [of finishing_world 0 demo_pipeline default_config demo_outside] by simp
qed

end
