(* ===== verification/QueryParse.thy ===== *)
theory QueryParse
  imports QueryLex
begin

text \<open>
  The recursive-descent parser of \<open>src/query.rs\<close>: \<open>QueryNode\<close>, \<open>FilterTerm\<close> and the functions
  \<open>parse_or\<close>, \<open>parse_and\<close>, \<open>parse_not\<close>, \<open>parse_atom\<close> over a token list and a position that may
  move past its end.  The mutual recursion is bounded by fuel; \<open>parser_total\<close> gives the fuel that
  is always enough and \<open>parse_tokens\<close> uses it.  The main result is a round trip: the tokens
  printed for any query tree parse back to that tree.
\<close>

record filter_term =
  ft_key :: string
  ft_op :: filter_op
  ft_value :: string
  ft_negate :: bool

datatype query_node =
    Filter filter_term
  | And query_node query_node
  | Or query_node query_node
  | Not query_node

definition empty_filter :: query_node where
  "empty_filter = Filter \<lparr>ft_key = [], ft_op = Default, ft_value = [], ft_negate = False\<rparr>"

definition peek :: "token list \<Rightarrow> nat \<Rightarrow> token option" where
  "peek ts p = (if p < length ts then Some (ts ! p) else None)"

text \<open>
  \<open>or_loop\<close> and \<open>and_loop\<close> are the \<open>while\<close> loops of \<open>parse_or\<close> and \<open>parse_and\<close>; \<open>None\<close> is out of
  fuel.
\<close>

function (sequential) parse_or :: "nat \<Rightarrow> token list \<Rightarrow> nat \<Rightarrow> (query_node \<times> nat) option"
  and or_loop :: "nat \<Rightarrow> token list \<Rightarrow> query_node \<Rightarrow> nat \<Rightarrow> (query_node \<times> nat) option"
  and parse_and :: "nat \<Rightarrow> token list \<Rightarrow> nat \<Rightarrow> (query_node \<times> nat) option"
  and and_loop :: "nat \<Rightarrow> token list \<Rightarrow> query_node \<Rightarrow> nat \<Rightarrow> (query_node \<times> nat) option"
  and parse_not :: "nat \<Rightarrow> token list \<Rightarrow> nat \<Rightarrow> (query_node \<times> nat) option"
  and parse_atom :: "nat \<Rightarrow> token list \<Rightarrow> nat \<Rightarrow> (query_node \<times> nat) option"
where
  "parse_or 0 ts p = None"
| "parse_or (Suc f) ts p =
     (case parse_and f ts p of None \<Rightarrow> None | Some (left, q) \<Rightarrow> or_loop f ts left q)"
| "or_loop 0 ts left p = None"
| "or_loop (Suc f) ts left p =
     (if peek ts p = Some TOr then
        (case parse_and f ts (p + 1) of
           None \<Rightarrow> None
         | Some (right, q) \<Rightarrow> or_loop f ts (Or left right) q)
      else Some (left, p))"
| "parse_and 0 ts p = None"
| "parse_and (Suc f) ts p =
     (case parse_not f ts p of None \<Rightarrow> None | Some (left, q) \<Rightarrow> and_loop f ts left q)"
| "and_loop 0 ts left p = None"
| "and_loop (Suc f) ts left p =
     (if peek ts p \<noteq> None \<and> peek ts p \<noteq> Some TOr \<and> peek ts p \<noteq> Some RParen then
        (case parse_not f ts p of
           None \<Rightarrow> None
         | Some (right, q) \<Rightarrow> and_loop f ts (And left right) q)
      else Some (left, p))"
| "parse_not 0 ts p = None"
| "parse_not (Suc f) ts p =
     (if peek ts p = Some TNot then
        (case parse_atom f ts (p + 1) of
           None \<Rightarrow> None
         | Some (inner, q) \<Rightarrow> Some (Not inner, q))
      else parse_atom f ts p)"
| "parse_atom 0 ts p = None"
| "parse_atom (Suc f) ts p =
     (case peek ts p of
        Some LParen \<Rightarrow>
          (case parse_or f ts (p + 1) of
             None \<Rightarrow> None
           | Some (node, q) \<Rightarrow> Some (node, if peek ts q = Some RParen then q + 1 else q))
      | Some (KeyVal k op v) \<Rightarrow>
          Some (Filter \<lparr>ft_key = k, ft_op = op, ft_value = v, ft_negate = False\<rparr>, p + 1)
      | Some (BareWord w) \<Rightarrow>
          Some (Filter \<lparr>ft_key = [], ft_op = Default, ft_value = w, ft_negate = False\<rparr>, p + 1)
      | _ \<Rightarrow> Some (empty_filter, p + 1))"
  by pat_completeness auto
termination
  by (relation "measure (\<lambda>x. case x of
        Inl (Inl (f, _, _)) \<Rightarrow> f | Inl (Inr (Inl (f, _, _, _))) \<Rightarrow> f
      | Inl (Inr (Inr (f, _, _))) \<Rightarrow> f | Inr (Inl (f, _, _, _)) \<Rightarrow> f
      | Inr (Inr (Inl (f, _, _))) \<Rightarrow> f | Inr (Inr (Inr (f, _, _))) \<Rightarrow> f)") auto

text \<open>\<open>Parser::parse\<close>: what is left over after the first expression is ignored.\<close>

definition parser_fuel :: "nat \<Rightarrow> nat" where
  "parser_fuel n = 6 * n + 6"

definition parse_tokens :: "token list \<Rightarrow> query_node option" where
  "parse_tokens ts =
     (if ts = [] then Some empty_filter
      else map_option fst (parse_or (parser_fuel (length ts)) ts 0))"

text \<open>\<open>parse_query\<close>; \<open>None\<close> is the tokenizer's panic.\<close>

definition parse_query :: "(string \<Rightarrow> bool) \<Rightarrow> string \<Rightarrow> query_node option" where
  "parse_query ualnum inp =
     (case tokenize ualnum inp of None \<Rightarrow> None | Some ts \<Rightarrow> parse_tokens ts)"

section \<open>Termination: enough fuel\<close>

lemma peek_Some_less: "peek ts p = Some t \<Longrightarrow> p < length ts"
  by (auto simp: peek_def split: if_splits)

text \<open>
  With \<open>r\<close> tokens left, \<open>6 r\<close> plus a constant per function is enough fuel, and every function but
  the loops consumes at least one position.
\<close>

definition returns_at :: "bool \<Rightarrow> nat \<Rightarrow> (query_node \<times> nat) option \<Rightarrow> bool" where
  "returns_at strict p r = (\<exists>n q. r = Some (n, q) \<and> (if strict then p < q else p \<le> q))"

lemma returns_atE:
  assumes "returns_at s p r"
  obtains n q where "r = Some (n, q)" "if s then p < q else p \<le> q"
  using assms by (auto simp: returns_at_def)

lemma parser_total_step:
  assumes or_IH: "\<And>p. 6 * (length ts - p) + 5 \<le> f \<Longrightarrow> returns_at True p (parse_or f ts p)"
    and ol_IH: "\<And>p l. 6 * (length ts - p) + 1 \<le> f \<Longrightarrow> returns_at False p (or_loop f ts l p)"
    and and_IH: "\<And>p. 6 * (length ts - p) + 4 \<le> f \<Longrightarrow> returns_at True p (parse_and f ts p)"
    and al_IH: "\<And>p l. 6 * (length ts - p) + 3 \<le> f \<Longrightarrow> returns_at False p (and_loop f ts l p)"
    and not_IH: "\<And>p. 6 * (length ts - p) + 2 \<le> f \<Longrightarrow> returns_at True p (parse_not f ts p)"
    and at_IH: "\<And>p. 6 * (length ts - p) + 1 \<le> f \<Longrightarrow> returns_at True p (parse_atom f ts p)"
  shows "6 * (length ts - p) + 5 \<le> Suc f \<Longrightarrow> returns_at True p (parse_or (Suc f) ts p)"
    and "6 * (length ts - p) + 1 \<le> Suc f \<Longrightarrow> returns_at False p (or_loop (Suc f) ts l p)"
    and "6 * (length ts - p) + 4 \<le> Suc f \<Longrightarrow> returns_at True p (parse_and (Suc f) ts p)"
    and "6 * (length ts - p) + 3 \<le> Suc f \<Longrightarrow> returns_at False p (and_loop (Suc f) ts l p)"
    and "6 * (length ts - p) + 2 \<le> Suc f \<Longrightarrow> returns_at True p (parse_not (Suc f) ts p)"
    and "6 * (length ts - p) + 1 \<le> Suc f \<Longrightarrow> returns_at True p (parse_atom (Suc f) ts p)"
proof -
  show "returns_at True p (parse_or (Suc f) ts p)" if b: "6 * (length ts - p) + 5 \<le> Suc f"
  proof -
    obtain n q where 1: "parse_and f ts p = Some (n, q)" "p < q"
      using and_IH [of p] b by (auto elim!: returns_atE)
    then have "6 * (length ts - q) + 1 \<le> f" using b by simp
    from ol_IH [OF this, of n] 1 show ?thesis by (auto simp: returns_at_def)
  qed
  show "returns_at False p (or_loop (Suc f) ts l p)" if b: "6 * (length ts - p) + 1 \<le> Suc f"
  proof (cases "peek ts p = Some TOr")
    case True
    then have p: "p < length ts" by (rule peek_Some_less)
    with b have "6 * (length ts - (p + 1)) + 4 \<le> f" by linarith
    then obtain n q where 1: "parse_and f ts (p + 1) = Some (n, q)" "p + 1 < q"
      using and_IH [of "p + 1"] by (auto elim!: returns_atE)
    then have "6 * (length ts - q) + 1 \<le> f" using b p by simp
    from ol_IH [OF this, of "Or l n"] 1 True show ?thesis by (auto simp: returns_at_def)
  qed (simp add: returns_at_def)
  show "returns_at True p (parse_and (Suc f) ts p)" if b: "6 * (length ts - p) + 4 \<le> Suc f"
  proof -
    obtain n q where 1: "parse_not f ts p = Some (n, q)" "p < q"
      using not_IH [of p] b by (auto elim!: returns_atE)
    then have "6 * (length ts - q) + 3 \<le> f" using b by simp
    from al_IH [OF this, of n] 1 show ?thesis by (auto simp: returns_at_def)
  qed
  show "returns_at False p (and_loop (Suc f) ts l p)" if b: "6 * (length ts - p) + 3 \<le> Suc f"
  proof (cases "peek ts p \<noteq> None \<and> peek ts p \<noteq> Some TOr \<and> peek ts p \<noteq> Some RParen")
    case True
    then have p: "p < length ts" using peek_Some_less by fastforce
    then obtain n q where 1: "parse_not f ts p = Some (n, q)" "p < q"
      using not_IH [of p] b by (auto elim!: returns_atE)
    then have "6 * (length ts - q) + 3 \<le> f" using b p by simp
    from al_IH [OF this, of "And l n"] 1 True show ?thesis by (auto simp: returns_at_def)
  qed (auto simp: returns_at_def)
  show "returns_at True p (parse_not (Suc f) ts p)" if b: "6 * (length ts - p) + 2 \<le> Suc f"
  proof -
    have "6 * (length ts - (p + 1)) + 1 \<le> f" "6 * (length ts - p) + 1 \<le> f"
      using b by linarith+
    with at_IH [of p] at_IH [of "p + 1"] show ?thesis by (auto simp: returns_at_def)
  qed
  show "returns_at True p (parse_atom (Suc f) ts p)" if b: "6 * (length ts - p) + 1 \<le> Suc f"
  proof (cases "peek ts p = Some LParen")
    case True
    then have "p < length ts" by (rule peek_Some_less)
    with b have "6 * (length ts - (p + 1)) + 5 \<le> f" by linarith
    with or_IH [of "p + 1"] True show ?thesis by (auto simp: returns_at_def)
  next
    case False
    then show ?thesis by (auto simp: returns_at_def split: option.splits token.splits)
  qed
qed

lemma parser_total_all:
  "(\<forall>p. 6 * (length ts - p) + 5 \<le> f \<longrightarrow> returns_at True p (parse_or f ts p)) \<and>
   (\<forall>p l. 6 * (length ts - p) + 1 \<le> f \<longrightarrow> returns_at False p (or_loop f ts l p)) \<and>
   (\<forall>p. 6 * (length ts - p) + 4 \<le> f \<longrightarrow> returns_at True p (parse_and f ts p)) \<and>
   (\<forall>p l. 6 * (length ts - p) + 3 \<le> f \<longrightarrow> returns_at False p (and_loop f ts l p)) \<and>
   (\<forall>p. 6 * (length ts - p) + 2 \<le> f \<longrightarrow> returns_at True p (parse_not f ts p)) \<and>
   (\<forall>p. 6 * (length ts - p) + 1 \<le> f \<longrightarrow> returns_at True p (parse_atom f ts p))"
proof (induction f)
  case (Suc f)
  note step = parser_total_step [of ts f, OF Suc.IH [THEN conjunct1, rule_format]
      Suc.IH [THEN conjunct2, THEN conjunct1, rule_format]
      Suc.IH [THEN conjunct2, THEN conjunct2, THEN conjunct1, rule_format]
      Suc.IH [THEN conjunct2, THEN conjunct2, THEN conjunct2, THEN conjunct1, rule_format]
      Suc.IH [THEN conjunct2, THEN conjunct2, THEN conjunct2, THEN conjunct2, THEN conjunct1, rule_format]
      Suc.IH [THEN conjunct2, THEN conjunct2, THEN conjunct2, THEN conjunct2, THEN conjunct2, rule_format]]
  show ?case
    by (intro conjI allI impI) (rule step; simp)+
qed simp

lemma parse_tokens_defined: "\<exists>n. parse_tokens ts = Some n"
  using parser_total_all [of ts "parser_fuel (length ts)"]
  by (fastforce simp: parse_tokens_def parser_fuel_def returns_at_def)

lemma parse_query_None:
  "valid_utf8 (as_bytes inp) \<Longrightarrow> parse_query ualnum inp = None \<longleftrightarrow> \<not> ascii_str inp"
proof -
  have d: "parse_tokens ts \<noteq> None" for ts using parse_tokens_defined [of ts] by auto
  have "parse_query ualnum inp = None \<longleftrightarrow> tokenize ualnum inp = None"
    by (simp add: parse_query_def d split: option.split)
  also assume "valid_utf8 (as_bytes inp)"
  then have "tokenize ualnum inp = None \<longleftrightarrow> \<not> ascii_str inp" by (rule tokenize_None_iff)
  finally show ?thesis .
qed

text \<open>C34. The parser returns a query tree on every token list.\<close>

theorem parse_tokens_total: "\<exists>n. parse_tokens ts = Some n"
  by (rule parse_tokens_defined)

section \<open>Round trip\<close>

text \<open>Tokens that denote a tree, fully bracketed, and the trees a query can denote.\<close>

fun unparse :: "query_node \<Rightarrow> token list" where
  "unparse (Filter t) =
     (if ft_key t = [] then [BareWord (ft_value t)]
      else [KeyVal (ft_key t) (ft_op t) (ft_value t)])"
| "unparse (And l r) = LParen # unparse l @ unparse r @ [RParen]"
| "unparse (Or l r) = LParen # unparse l @ TOr # unparse r @ [RParen]"
| "unparse (Not n) = LParen # TNot # unparse n @ [RParen]"

fun printable :: "query_node \<Rightarrow> bool" where
  "printable (Filter t) = (\<not> ft_negate t \<and> (ft_key t = [] \<longrightarrow> ft_op t = Default))"
| "printable (And l r) = (printable l \<and> printable r)"
| "printable (Or l r) = (printable l \<and> printable r)"
| "printable (Not n) = printable n"

definition atom_start :: "token \<Rightarrow> bool" where
  "atom_start t = (t = LParen \<or> (\<exists>k op v. t = KeyVal k op v) \<or> (\<exists>w. t = BareWord w))"

lemma unparse_start: "\<exists>t rest. unparse n = t # rest \<and> atom_start t"
  by (cases n) (auto simp: atom_start_def)

lemma peek_append [simp]: "peek (pre @ t # post) (length pre) = Some t"
  by (simp add: peek_def)

lemma peek_unparse:
  obtains t where "atom_start t" "peek (pre @ unparse n @ post) (length pre) = Some t"
  using unparse_start [of n] by force

lemma parse_not_unparse:
  assumes "parse_atom f (pre @ unparse n @ post) (length pre) = r"
  shows "parse_not (Suc f) (pre @ unparse n @ post) (length pre) = r"
proof -
  obtain t where "atom_start t" "peek (pre @ unparse n @ post) (length pre) = Some t"
    by (rule peek_unparse)
  with assms show ?thesis by (auto simp: atom_start_def)
qed

lemma parse_atom_unparse:
  "printable n \<Longrightarrow> 6 * length (unparse n @ post) + 1 \<le> f \<Longrightarrow>
   parse_atom f (pre @ unparse n @ post) (length pre) = Some (n, length (pre @ unparse n))"
proof (induction n arbitrary: f pre post)
  case (Filter t)
  then obtain g where "f = Suc g" by (cases f) auto
  with Filter show ?case by (cases t) (auto simp: peek_def nth_append)
next
  case (And l r)
  define f5 where "f5 = f - 5"
  have f: "f = Suc (Suc (Suc (Suc (Suc f5))))" using And.prems(2) by (simp add: f5_def)
  let ?ts = "pre @ unparse (And l r) @ post"
  let ?p1 = "pre @ [LParen]" and ?p2 = "pre @ LParen # unparse l"
  let ?p3 = "pre @ LParen # unparse l @ unparse r"
  have A: "parse_atom (Suc f5) (?p1 @ unparse l @ (unparse r @ RParen # post)) (length ?p1)
      = Some (l, length (?p1 @ unparse l))"
    using And.prems by (intro And.IH(1)) (auto simp: f)
  have B: "parse_atom f5 (?p2 @ unparse r @ (RParen # post)) (length ?p2)
      = Some (r, length (?p2 @ unparse r))"
    using And.prems by (intro And.IH(2)) (auto simp: f)
  have A': "parse_not (Suc (Suc f5)) ?ts (Suc (length pre)) = Some (l, length ?p2)"
    using parse_not_unparse [OF A] by simp
  have B': "parse_not (Suc f5) ?ts (length ?p2) = Some (r, length ?p3)"
    using parse_not_unparse [OF B] by simp
  obtain t where t: "atom_start t" "peek (?p2 @ unparse r @ (RParen # post)) (length ?p2) = Some t"
    by (rule peek_unparse)
  have P2: "peek ?ts (length ?p2) = Some t" using t by simp
  have P3: "peek ?ts (length ?p3) = Some RParen"
    using peek_append [of ?p3 RParen post] by simp
  obtain f6 where f5: "f5 = Suc f6" using And.prems(2) f by (cases f5) auto
  have L: "and_loop (Suc (Suc f5)) ?ts l (length ?p2) = Some (And l r, length ?p3)"
    using t(1) P2 P3 B' by (auto simp: f5 atom_start_def simp del: unparse.simps)
  have "parse_or (Suc (Suc (Suc (Suc f5)))) ?ts (Suc (length pre)) = Some (And l r, length ?p3)"
    using A' L P3 by (simp del: unparse.simps)
  then show ?case using P3 f by simp
next
  case (Or l r)
  define f5 where "f5 = f - 5"
  have f: "f = Suc (Suc (Suc (Suc (Suc f5))))" using Or.prems(2) by (simp add: f5_def)
  let ?ts = "pre @ unparse (Or l r) @ post"
  let ?p1 = "pre @ [LParen]" and ?p2 = "pre @ LParen # unparse l"
  let ?p3 = "pre @ LParen # unparse l @ [TOr]"
  let ?p4 = "pre @ LParen # unparse l @ TOr # unparse r"
  have A: "parse_atom (Suc f5) (?p1 @ unparse l @ (TOr # unparse r @ RParen # post)) (length ?p1)
      = Some (l, length (?p1 @ unparse l))"
    using Or.prems by (intro Or.IH(1)) (auto simp: f)
  have B: "parse_atom f5 (?p3 @ unparse r @ (RParen # post)) (length ?p3)
      = Some (r, length (?p3 @ unparse r))"
    using Or.prems by (intro Or.IH(2)) (auto simp: f)
  have A': "parse_not (Suc (Suc f5)) ?ts (Suc (length pre)) = Some (l, length ?p2)"
    using parse_not_unparse [OF A] by simp
  have B': "parse_not (Suc f5) ?ts (length ?p3) = Some (r, length ?p4)"
    using parse_not_unparse [OF B] by simp
  have P2: "peek ?ts (length ?p2) = Some TOr"
    using peek_append [of ?p2 TOr "unparse r @ RParen # post"] by simp
  have P4: "peek ?ts (length ?p4) = Some RParen"
    using peek_append [of ?p4 RParen post] by simp
  obtain f6 where f5: "f5 = Suc f6" using Or.prems(2) f by (cases f5) auto
  have "parse_or (Suc (Suc (Suc (Suc f5)))) ?ts (Suc (length pre)) = Some (Or l r, length ?p4)"
    using A' B' P2 P4 by (simp add: f5 del: unparse.simps)
  then show ?case using P4 f by simp
next
  case (Not n)
  define f5 where "f5 = f - 5"
  have f: "f = Suc (Suc (Suc (Suc (Suc f5))))" using Not.prems(2) by (simp add: f5_def)
  let ?ts = "pre @ unparse (Not n) @ post"
  let ?p2 = "pre @ [LParen, TNot]" and ?p3 = "pre @ LParen # TNot # unparse n"
  have A: "parse_atom (Suc f5) (?p2 @ unparse n @ (RParen # post)) (length ?p2)
      = Some (n, length (?p2 @ unparse n))"
    using Not.prems by (intro Not.IH) (auto simp: f)
  have P1: "peek ?ts (Suc (length pre)) = Some TNot"
    using peek_append [of "pre @ [LParen]" TNot "unparse n @ RParen # post"] by simp
  have P3: "peek ?ts (length ?p3) = Some RParen"
    using peek_append [of ?p3 RParen post] by simp
  have "parse_or (Suc (Suc (Suc (Suc f5)))) ?ts (Suc (length pre)) = Some (Not n, length ?p3)"
    using A P1 P3 by simp
  then show ?case using P3 f by simp
qed

text \<open>
  C35. The parser inverts the fully bracketed token form of every query tree without negated
  filter flags, so every such tree is denoted by some query, with the structure intended.
\<close>

theorem parse_unparse:
  assumes "printable n"
  shows "parse_tokens (unparse n) = Some n"
proof -
  let ?L = "length (unparse n)"
  have f: "parser_fuel ?L = Suc (Suc (Suc (6 * ?L + 3)))" by (simp add: parser_fuel_def)
  have "parse_atom (6 * ?L + 3) ([] @ unparse n @ []) (length []) = Some (n, ?L)"
    using parse_atom_unparse [OF assms, of "[]" "6 * ?L + 3" "[]"] by simp
  then have "parse_not (Suc (6 * ?L + 3)) (unparse n) 0 = Some (n, ?L)"
    using parse_not_unparse [of "6 * ?L + 3" "[]" n "[]"] by simp
  then have "parse_or (parser_fuel ?L) (unparse n) 0 = Some (n, ?L)"
    by (simp add: f peek_def numeral_3_eq_3)
  moreover have "unparse n \<noteq> []" using unparse_start [of n] by auto
  ultimately show ?thesis by (simp add: parse_tokens_def)
qed

theorem parse_unparse_witness:
  "parse_tokens
     [LParen, LParen, TNot, KeyVal ''tag'' Default ''web'', RParen, TOr, BareWord ''ssh'', RParen]
   = Some (Or (Not (Filter \<lparr>ft_key = ''tag'', ft_op = Default, ft_value = ''web'', ft_negate = False\<rparr>))
              (Filter \<lparr>ft_key = [], ft_op = Default, ft_value = ''ssh'', ft_negate = False\<rparr>))"
  using parse_unparse [of "Or (Not (Filter \<lparr>ft_key = ''tag'', ft_op = Default,
      ft_value = ''web'', ft_negate = False\<rparr>)) (Filter \<lparr>ft_key = [], ft_op = Default,
      ft_value = ''ssh'', ft_negate = False\<rparr>)"]
  by simp

end
