(* ===== verification/QuerySql.thy ===== *)
theory QuerySql
  imports QueryParse
begin

text \<open>
  The compiler from query trees to SQL text and bound parameters, \<open>src/query.rs\<close>.  The upper-case
  mapping of the standard library is the parameter \<open>uc\<close> and the quoting of a JSON string by
  \<open>serde_json\<close> the parameter \<open>jq\<close>.  Next to the text compiler stands an abstract one that keeps the
  structure of a condition and the parameter number each filter's text mentions; the text is
  proved to be its rendering, and the conditions are compared with the meaning of the query.
  The last section is about the SQL string literals the compiler builds from query text.
\<close>

datatype filter_kind = KTag | KPort | KCountry | KFullText | KJsonContains | KJsonText

definition classify_filter :: "filter_term \<Rightarrow> filter_kind" where
  "classify_filter t =
     (if ft_key t = [] then KFullText
      else if ft_key t = ''tag'' then KTag
      else if ft_key t = ''port'' then KPort
      else if ft_key t = ''country'' then KCountry
      else (case ft_op t of Default \<Rightarrow> KJsonContains | _ \<Rightarrow> KJsonText))"

section \<open>Text fragments\<close>

definition sqs :: "string \<Rightarrow> string" where
  "sqs s = [CHR 0x27] @ s @ [CHR 0x27]"

definition dqs :: "string \<Rightarrow> string" where
  "dqs s = [CHR 0x22] @ s @ [CHR 0x22]"

fun json_text_rest :: "string list \<Rightarrow> string" where
  "json_text_rest [] = []"
| "json_text_rest [p] = ''->>'' @ sqs p"
| "json_text_rest (p # q # ps) = ''->'' @ sqs p @ json_text_rest (q # ps)"

definition json_text_col :: "string \<Rightarrow> string" where
  "json_text_col key =
     (case split_on (CHR ''.'') key of
        [p] \<Rightarrow> ''data->>'' @ sqs p
      | p # ps \<Rightarrow> ''data->'' @ sqs p @ json_text_rest ps
      | [] \<Rightarrow> [])"

definition escape_json_char :: "char \<Rightarrow> string" where
  "escape_json_char c =
     (if c = CHR 0x22 then [CHR 0x5C, CHR 0x22]
      else if c = CHR 0x5C then [CHR 0x5C, CHR 0x5C]
      else if c = CHR 0x0A then [CHR 0x5C, CHR ''n'']
      else if c = CHR 0x0D then [CHR 0x5C, CHR ''r'']
      else if c = CHR 0x09 then [CHR 0x5C, CHR ''t'']
      else [c])"

definition escape_json_string :: "string \<Rightarrow> string" where
  "escape_json_string s = concat (map escape_json_char s)"

text \<open>\<open>build_nested_json\<close>: one object per key part, the value as a string at the last.\<close>

fun nested_json :: "(string \<Rightarrow> string) \<Rightarrow> string list \<Rightarrow> string \<Rightarrow> string" where
  "nested_json jq [] v = []"
| "nested_json jq [p] v = ''{'' @ jq p @ '':'' @ jq v @ ''}''"
| "nested_json jq (p # q # ps) v = ''{'' @ jq p @ '':'' @ nested_json jq (q # ps) v @ ''}''"

definition build_nested_json :: "(string \<Rightarrow> string) \<Rightarrow> string \<Rightarrow> string \<Rightarrow> string" where
  "build_nested_json jq key v = nested_json jq (split_on (CHR ''.'') key) v"

section \<open>Filters\<close>

definition full_text_fields :: "string list" where
  "full_text_fields =
     [''data->>'' @ sqs ''banner'',
      ''data->'' @ sqs ''http'' @ ''->>'' @ sqs ''title'',
      ''data->'' @ sqs ''http'' @ ''->>'' @ sqs ''server'',
      ''data->>'' @ sqs ''product'',
      ''data->>'' @ sqs ''version'',
      ''data->>'' @ sqs ''kind'']"

definition compile_full_text :: "filter_term \<Rightarrow> string list \<Rightarrow> string \<times> string list" where
  "compile_full_text t params =
     (let params' = params @ [ft_value t]; p = length params'
      in (join '' OR ''
            (map (\<lambda>f. f @ '' ILIKE '' @ sqs ''%'' @ '' || $'' @ dec p @ '' || '' @ sqs ''%'')
               full_text_fields), params'))"

definition compile_tag :: "filter_term \<Rightarrow> string list \<Rightarrow> string \<times> string list" where
  "compile_tag t params =
     (let json = ''{'' @ dqs ''tags'' @ '':['' @ dqs (escape_json_string (ft_value t)) @ '']}''
      in (''data @> '' @ sqs json @ ''::jsonb'', params))"

definition compile_port :: "filter_term \<Rightarrow> string list \<Rightarrow> string \<times> string list" where
  "compile_port t params =
     (case parse_u16 (ft_value t) of
        Some port \<Rightarrow>
          (let params' = params @ [dec (unat port)]; p = length params'
           in (''s.port = $'' @ dec p @ ''::int'', params'))
      | None \<Rightarrow> (''FALSE'', params))"

definition compile_country ::
  "(string \<Rightarrow> string) \<Rightarrow> filter_term \<Rightarrow> string list \<Rightarrow> string \<times> string list" where
  "compile_country uc t params =
     (let params' = params @ [uc (ft_value t)]; p = length params'
      in (''h.country_code = $'' @ dec p, params'))"

definition compile_json_contains ::
  "(string \<Rightarrow> string) \<Rightarrow> filter_term \<Rightarrow> string list \<Rightarrow> string \<times> string list" where
  "compile_json_contains jq t params =
     (''data @> '' @ sqs (build_nested_json jq (ft_key t) (ft_value t)) @ ''::jsonb'', params)"

definition compile_json_text :: "filter_term \<Rightarrow> string list \<Rightarrow> string \<times> string list" where
  "compile_json_text t params =
     (let col = json_text_col (ft_key t); params' = params @ [ft_value t]; p = length params'
      in (case ft_op t of
            Contains \<Rightarrow> col @ '' LIKE '' @ sqs ''%'' @ '' || $'' @ dec p @ '' || '' @ sqs ''%''
          | IContains \<Rightarrow> col @ '' ILIKE '' @ sqs ''%'' @ '' || $'' @ dec p @ '' || '' @ sqs ''%''
          | Regex \<Rightarrow> col @ '' ~ $'' @ dec p
          | Equals \<Rightarrow> col @ '' = $'' @ dec p
          | Startswith \<Rightarrow> col @ '' LIKE $'' @ dec p @ '' || '' @ sqs ''%''
          | Endswith \<Rightarrow> col @ '' LIKE '' @ sqs ''%'' @ '' || $'' @ dec p
          | Default \<Rightarrow> col @ '' = $'' @ dec p, params'))"

definition compile_filter ::
  "(string \<Rightarrow> string) \<Rightarrow> (string \<Rightarrow> string) \<Rightarrow> filter_term \<Rightarrow> string list \<Rightarrow> string \<times> string list" where
  "compile_filter uc jq t params =
     (case classify_filter t of
        KTag \<Rightarrow> compile_tag t params
      | KPort \<Rightarrow> compile_port t params
      | KCountry \<Rightarrow> compile_country uc t params
      | KFullText \<Rightarrow> compile_full_text t params
      | KJsonContains \<Rightarrow> compile_json_contains jq t params
      | KJsonText \<Rightarrow> compile_json_text t params)"

section \<open>Query trees\<close>

definition sql_and :: "string list \<Rightarrow> string" where
  "sql_and cs = join '' AND '' cs"

definition sql_or :: "string list \<Rightarrow> string list \<Rightarrow> string" where
  "sql_or lc rc =
     (if length lc = 1 \<and> length rc = 1 then ''('' @ sql_and lc @ '' OR '' @ sql_and rc @ '')''
      else if length lc = 1 then ''('' @ sql_and lc @ '' OR ('' @ sql_and rc @ ''))''
      else if length rc = 1 then ''(('' @ sql_and lc @ '') OR '' @ sql_and rc @ '')''
      else ''(('' @ sql_and lc @ '') OR ('' @ sql_and rc @ ''))'')"

primrec compile_node ::
  "(string \<Rightarrow> string) \<Rightarrow> (string \<Rightarrow> string) \<Rightarrow> query_node \<Rightarrow> string list \<times> string list \<Rightarrow> string list \<times> string list"
where
  "compile_node uc jq (And l r) st = compile_node uc jq r (compile_node uc jq l st)"
| "compile_node uc jq (Or l r) st =
     (let (conditions, params) = st;
          (lc, lp) = compile_node uc jq l ([], []);
          (rc, rp) = compile_node uc jq r ([], [])
      in if lc = [] \<or> rc = [] then (conditions, params)
         else (conditions @ [sql_or lc rc], params @ lp @ rp))"
| "compile_node uc jq (Not n) st =
     (let (conditions, params) = st;
          (ic, ip) = compile_node uc jq n ([], [])
      in if ic = [] then (conditions, params)
         else (conditions @ [''NOT ('' @ sql_and ic @ '')''], params @ ip))"
| "compile_node uc jq (Filter t) st =
     (let (conditions, params) = st
      in if ft_key t = [] \<and> ft_value t = [] then (conditions, params)
         else (let (sql, params') = compile_filter uc jq t params
               in if sql = [] then (conditions, params')
                  else (conditions @ [if ft_negate t then ''NOT ('' @ sql @ '')'' else sql],
                        params')))"

definition compile_to_sql ::
  "(string \<Rightarrow> string) \<Rightarrow> (string \<Rightarrow> string) \<Rightarrow> query_node \<Rightarrow> string \<times> string list" where
  "compile_to_sql uc jq node =
     (let (conditions, params) = compile_node uc jq node ([], [])
      in (if conditions = [] then ''TRUE'' else sql_and conditions, params))"

definition build_search_query ::
  "(string \<Rightarrow> string) \<Rightarrow> (string \<Rightarrow> string) \<Rightarrow> query_node \<Rightarrow> string \<times> string list" where
  "build_search_query uc jq node =
     (let (where_clause, params) = compile_to_sql uc jq node
      in (''SELECT s.id, s.port, s.transport, s.sni, s.data, s.first_seen, s.last_seen, '' @
          ''host(h.ip), h.country_code, h.asn, h.org FROM services s '' @
          ''JOIN hosts h ON s.host_id = h.id WHERE '' @ where_clause @
          '' ORDER BY s.last_seen DESC LIMIT 100'', params))"

section \<open>The structure behind the text\<close>

text \<open>
  \<open>SFilter t p\<close> is the text of filter \<open>t\<close> with \<open>$p\<close> where it mentions its parameter.
\<close>

datatype scond = SFilter filter_term nat | SOr "scond list" "scond list" | SNot "scond list"

definition param_of :: "(string \<Rightarrow> string) \<Rightarrow> filter_term \<Rightarrow> string list" where
  "param_of uc t =
     (case classify_filter t of
        KTag \<Rightarrow> []
      | KPort \<Rightarrow> (case parse_u16 (ft_value t) of Some port \<Rightarrow> [dec (unat port)] | None \<Rightarrow> [])
      | KCountry \<Rightarrow> [uc (ft_value t)]
      | KFullText \<Rightarrow> [ft_value t]
      | KJsonContains \<Rightarrow> []
      | KJsonText \<Rightarrow> [ft_value t])"

text \<open>The text of a filter depends on the parameters only through the number it gets.\<close>

definition filter_text ::
  "(string \<Rightarrow> string) \<Rightarrow> (string \<Rightarrow> string) \<Rightarrow> filter_term \<Rightarrow> nat \<Rightarrow> string" where
  "filter_text uc jq t p =
     (let sql = fst (compile_filter uc jq t (replicate (p - length (param_of uc t)) []))
      in if ft_negate t then ''NOT ('' @ sql @ '')'' else sql)"

fun render :: "(string \<Rightarrow> string) \<Rightarrow> (string \<Rightarrow> string) \<Rightarrow> scond \<Rightarrow> string" where
  "render uc jq (SFilter t p) = filter_text uc jq t p"
| "render uc jq (SOr lc rc) = sql_or (map (render uc jq) lc) (map (render uc jq) rc)"
| "render uc jq (SNot cs) = ''NOT ('' @ sql_and (map (render uc jq) cs) @ '')''"

primrec acomp :: "(string \<Rightarrow> string) \<Rightarrow> query_node \<Rightarrow> nat \<Rightarrow> scond list \<times> string list" where
  "acomp uc (And l r) k =
     (let (lc, lp) = acomp uc l k; (rc, rp) = acomp uc r (k + length lp) in (lc @ rc, lp @ rp))"
| "acomp uc (Or l r) k =
     (let (lc, lp) = acomp uc l 0; (rc, rp) = acomp uc r 0
      in if lc = [] \<or> rc = [] then ([], []) else ([SOr lc rc], lp @ rp))"
| "acomp uc (Not n) k =
     (let (ic, ip) = acomp uc n 0 in if ic = [] then ([], []) else ([SNot ic], ip))"
| "acomp uc (Filter t) k =
     (if ft_key t = [] \<and> ft_value t = [] then ([], [])
      else ([SFilter t (k + length (param_of uc t))], param_of uc t))"

lemma compile_filter_params: "snd (compile_filter uc jq t params) = params @ param_of uc t"
  by (auto simp: compile_filter_def param_of_def compile_tag_def compile_port_def
      compile_country_def compile_full_text_def compile_json_contains_def compile_json_text_def
      Let_def split: filter_kind.splits option.splits)

lemma compile_filter_text:
  "length params = length params' \<Longrightarrow>
   fst (compile_filter uc jq t params) = fst (compile_filter uc jq t params')"
  by (auto simp: compile_filter_def compile_tag_def compile_port_def compile_country_def
      compile_full_text_def compile_json_contains_def compile_json_text_def Let_def
      split: filter_kind.splits option.splits filter_op.splits)

lemma compile_filter_nonempty: "fst (compile_filter uc jq t params) \<noteq> []"
  by (auto simp: compile_filter_def compile_tag_def compile_port_def compile_country_def
      compile_full_text_def full_text_fields_def compile_json_contains_def compile_json_text_def
      Let_def split: filter_kind.splits option.splits filter_op.splits)

lemma compile_filter_eq:
  "compile_filter uc jq t params =
     (fst (compile_filter uc jq t (replicate (length params) [])), params @ param_of uc t)"
  using compile_filter_params [of uc jq t params]
    compile_filter_text [of params "replicate (length params) []" uc jq t]
  by (metis length_replicate prod.collapse)

lemma compile_node_text:
  "compile_node uc jq n (conditions, params) =
     (let (cs, ps) = acomp uc n (length params)
      in (conditions @ map (render uc jq) cs, params @ ps))"
proof (induction n arbitrary: conditions params)
  case (Filter t)
  show ?case
    using compile_filter_nonempty [of uc jq t params]
    by (auto simp: filter_text_def Let_def compile_filter_eq [of uc jq t params])
qed (simp_all add: Let_def case_prod_beta)

text \<open>
  The compiled conditions are the rendering of the abstract ones, and the bound parameters
  are those the abstract compiler collects.
\<close>

theorem compile_node_render:
  "compile_node uc jq n (conditions, params) =
     (let (cs, ps) = acomp uc n (length params)
      in (conditions @ map (render uc jq) cs, params @ ps))"
  by (rule compile_node_text)

section \<open>Meaning of the compiled query\<close>

text \<open>SQL's three truth values, and the value of a condition list joined by \<open>AND\<close> whose members may
  be bare \<open>OR\<close> chains: \<open>AND\<close> binds tighter than \<open>OR\<close>.\<close>

datatype tv = TT | FF | UU

definition not3 :: "tv \<Rightarrow> tv" where
  "not3 a = (case a of TT \<Rightarrow> FF | FF \<Rightarrow> TT | UU \<Rightarrow> UU)"

definition and3 :: "tv \<Rightarrow> tv \<Rightarrow> tv" where
  "and3 a b = (if a = FF \<or> b = FF then FF else if a = TT then b else if b = TT then a else UU)"

definition or3 :: "tv \<Rightarrow> tv \<Rightarrow> tv" where
  "or3 a b = (if a = TT \<or> b = TT then TT else if a = FF then b else if b = FF then a else UU)"

definition all3 :: "tv list \<Rightarrow> tv" where
  "all3 xs = foldr and3 xs TT"

definition any3 :: "tv list \<Rightarrow> tv" where
  "any3 xs = foldr or3 xs FF"

fun and_or :: "tv list list \<Rightarrow> tv" where
  "and_or [] = TT"
| "and_or [d] = any3 d"
| "and_or (d # e # ds) = or3 (any3 (butlast d)) (and_or ((and3 (last d) (hd e) # tl e) # ds))"

lemma and3_simps [simp]: "and3 TT a = a" "and3 a TT = a" "and3 FF a = FF" "and3 a FF = FF"
  by (cases a; simp add: and3_def)+

lemma or3_simps [simp]: "or3 TT a = TT" "or3 a TT = TT" "or3 FF a = a" "or3 a FF = a"
  by (cases a; simp add: or3_def)+


lemma any3_simps [simp]: "any3 [] = FF" "any3 (x # xs) = or3 x (any3 xs)"
  by (simp_all add: any3_def)

lemma all3_simps [simp]: "all3 [] = TT" "all3 (x # xs) = and3 x (all3 xs)"
  by (simp_all add: all3_def)



text \<open>
  \<open>M t i v\<close> stands for what the database answers for the \<open>i\<close>-th alternative in the text of filter
  \<open>t\<close> on a row when its parameter is bound to \<open>v\<close> (\<open>None\<close> for a text without parameter).
  The alternatives of a full-text filter are joined by \<open>OR\<close> with no parentheses around them.
\<close>

type_synonym meaning = "filter_term \<Rightarrow> nat \<Rightarrow> string option \<Rightarrow> tv"

definition bound :: "string list \<Rightarrow> nat \<Rightarrow> string option" where
  "bound ps p = (if 1 \<le> p \<and> p \<le> length ps then Some (ps ! (p - 1)) else None)"

definition alternatives ::
  "(string \<Rightarrow> string) \<Rightarrow> meaning \<Rightarrow> filter_term \<Rightarrow> string option \<Rightarrow> tv list" where
  "alternatives uc M t v =
     map (\<lambda>i. M t i (if param_of uc t = [] then None else v))
       [0..<(if classify_filter t = KFullText then length full_text_fields else 1)]"

definition filter_val :: "(string \<Rightarrow> string) \<Rightarrow> meaning \<Rightarrow> filter_term \<Rightarrow> string option \<Rightarrow> tv" where
  "filter_val uc M t v =
     (let a = any3 (alternatives uc M t v) in if ft_negate t then not3 a else a)"

text \<open>The top-level alternatives of a condition's text, and the value of a joined list.\<close>

fun alts :: "(string \<Rightarrow> string) \<Rightarrow> meaning \<Rightarrow> string list \<Rightarrow> scond \<Rightarrow> tv list" where
  "alts uc M ps (SFilter t p) =
     (if ft_negate t then [filter_val uc M t (bound ps p)] else alternatives uc M t (bound ps p))"
| "alts uc M ps (SOr lc rc) =
     [or3 (and_or (map (alts uc M ps) lc)) (and_or (map (alts uc M ps) rc))]"
| "alts uc M ps (SNot cs) = [not3 (and_or (map (alts uc M ps) cs))]"

definition conds_val :: "(string \<Rightarrow> string) \<Rightarrow> meaning \<Rightarrow> string list \<Rightarrow> scond list \<Rightarrow> tv" where
  "conds_val uc M ps cs = and_or (map (alts uc M ps) cs)"

text \<open>The meaning of the query itself; empty filters impose nothing and disappear.\<close>

primrec qsem :: "(string \<Rightarrow> string) \<Rightarrow> meaning \<Rightarrow> query_node \<Rightarrow> tv option" where
  "qsem uc M (Filter t) =
     (if ft_key t = [] \<and> ft_value t = [] then None
      else Some (filter_val uc M t (case param_of uc t of [] \<Rightarrow> None | v # _ \<Rightarrow> Some v)))"
| "qsem uc M (And l r) =
     (case (qsem uc M l, qsem uc M r) of
        (None, b) \<Rightarrow> b | (a, None) \<Rightarrow> a | (Some a, Some b) \<Rightarrow> Some (and3 a b))"
| "qsem uc M (Or l r) =
     (case (qsem uc M l, qsem uc M r) of (Some a, Some b) \<Rightarrow> Some (or3 a b) | _ \<Rightarrow> None)"
| "qsem uc M (Not n) = map_option not3 (qsem uc M n)"

definition query_val :: "(string \<Rightarrow> string) \<Rightarrow> meaning \<Rightarrow> query_node \<Rightarrow> tv" where
  "query_val uc M n = (case qsem uc M n of None \<Rightarrow> TT | Some v \<Rightarrow> v)"

definition where_val :: "(string \<Rightarrow> string) \<Rightarrow> meaning \<Rightarrow> query_node \<Rightarrow> tv" where
  "where_val uc M n = (let (cs, ps) = acomp uc n 0 in conds_val uc M ps cs)"


text \<open>The condition lists in which no bare \<open>OR\<close> chain is joined to something by \<open>AND\<close>.\<close>

fun closed_cond :: "scond \<Rightarrow> bool" where
  "closed_cond (SFilter t p) = (ft_negate t \<or> classify_filter t \<noteq> KFullText)"
| "closed_cond (SOr lc rc) = True"
| "closed_cond (SNot cs) = True"

fun grouped :: "scond \<Rightarrow> bool" where
  "grouped (SFilter t p) = True"
| "grouped (SOr lc rc) =
     (((length lc \<le> 1 \<or> list_all closed_cond lc) \<and> list_all grouped lc) \<and>
      ((length rc \<le> 1 \<or> list_all closed_cond rc) \<and> list_all grouped rc))"
| "grouped (SNot cs) = ((length cs \<le> 1 \<or> list_all closed_cond cs) \<and> list_all grouped cs)"

definition grouped_conds :: "scond list \<Rightarrow> bool" where
  "grouped_conds cs = ((length cs \<le> 1 \<or> list_all closed_cond cs) \<and> list_all grouped cs)"

lemma grouped_simps [simp]:
  "grouped (SOr lc rc) = (grouped_conds lc \<and> grouped_conds rc)"
  "grouped (SNot cs) = grouped_conds cs"
  by (simp_all add: grouped_conds_def)







lemma conds_val_simps [simp]:
  "conds_val uc M ps [] = TT"
  "conds_val uc M ps [SOr lc rc] = or3 (conds_val uc M ps lc) (conds_val uc M ps rc)"
  "conds_val uc M ps [SNot cs] = not3 (conds_val uc M ps cs)"
  "conds_val uc M ps [SFilter t p] = filter_val uc M t (bound ps p)"
  by (simp_all add: conds_val_def filter_val_def)




abbreviation term_of :: "string \<Rightarrow> string \<Rightarrow> query_node" where
  "term_of k v \<equiv> Filter \<lparr>ft_key = k, ft_op = Default, ft_value = v, ft_negate = False\<rparr>"



text \<open>
  C27. An \<open>OR\<close> of two filters that bind a parameter is compiled wrongly: both texts mention
  \<open>$1\<close> while two values are bound, so the second filter is tested against the value of the
  first.
\<close>

theorem or_parameters_collide:
  assumes "param_of uc a = [va]" "param_of uc b = [vb]"
    and "ft_key a \<noteq> [] \<or> ft_value a \<noteq> []" "ft_key b \<noteq> [] \<or> ft_value b \<noteq> []"
  shows "compile_to_sql uc jq (Or (Filter a) (Filter b)) =
           (''('' @ filter_text uc jq a 1 @ '' OR '' @ filter_text uc jq b 1 @ '')'', [va, vb]) \<and>
         where_val uc M (Or (Filter a) (Filter b)) =
           or3 (filter_val uc M a (Some va)) (filter_val uc M b (Some va))"
proof -
  have c: "acomp uc (Or (Filter a) (Filter b)) 0 =
      ([SOr [SFilter a 1] [SFilter b 1]], [va, vb])"
    using assms by (auto simp: Let_def)
  then show ?thesis
    unfolding compile_to_sql_def where_val_def compile_node_text
    by (simp add: sql_or_def sql_and_def bound_def del: acomp.simps)
qed

theorem or_parameters_collide_witness:
  "compile_to_sql id id (Or (term_of ''port'' ''80'') (term_of ''port'' ''443'')) =
     (''(s.port = $1::int OR s.port = $1::int)'', [''80'', ''443''])"
proof -
  let ?a = "\<lparr>ft_key = ''port'', ft_op = Default, ft_value = ''80'', ft_negate = False\<rparr>"
  let ?b = "\<lparr>ft_key = ''port'', ft_op = Default, ft_value = ''443'', ft_negate = False\<rparr>"
  have p: "param_of id ?a = [''80'']" "param_of id ?b = [''443'']"
    and t: "filter_text id id ?a 1 = ''s.port = $1::int''"
      "filter_text id id ?b 1 = ''s.port = $1::int''"
    by code_simp+
  show ?thesis using or_parameters_collide [OF p, of id] t by simp
qed

text \<open>
  C32. A bare word next to another filter is compiled wrongly: the \<open>OR\<close> chain of the full-text
  filter has no parentheses, so the other filter is joined to its last alternative only, and a row
  that matches any of the first five fields is returned whatever the other filter says.
\<close>

theorem full_text_and_precedence:
  assumes "classify_filter a = KFullText" "ft_value a \<noteq> []" "\<not> ft_negate a"
    and "param_of uc b = [vb]" "ft_key b \<noteq> []"
  shows "fst (compile_to_sql uc jq (And (Filter a) (Filter b))) =
           filter_text uc jq a 1 @ '' AND '' @ filter_text uc jq b 2 \<and>
         where_val uc M (And (Filter a) (Filter b)) =
           or3 (any3 (map (\<lambda>i. M a i (Some (ft_value a))) [0..<5]))
             (and3 (M a 5 (Some (ft_value a))) (filter_val uc M b (Some vb)))"
proof -
  have p: "param_of uc a = [ft_value a]" using assms(1) by (simp add: param_of_def)
  then have c: "acomp uc (And (Filter a) (Filter b)) 0 =
      ([SFilter a 1, SFilter b 2], [ft_value a, vb])"
    using assms by (simp add: Let_def)
  have k: "classify_filter b \<noteq> KFullText"
    using assms(5) by (auto simp: classify_filter_def split: filter_op.splits)
  have b: "alts uc M [ft_value a, vb] (SFilter b 2) = [filter_val uc M b (Some vb)]"
    using k by (simp add: alternatives_def filter_val_def bound_def)
  have a: "alts uc M [ft_value a, vb] (SFilter a 1) =
      map (\<lambda>i. M a i (Some (ft_value a))) [0..<5] @ [M a 5 (Some (ft_value a))]"
    using assms(1,3) p
    by (simp add: alternatives_def bound_def full_text_fields_def upt_rec eval_nat_numeral)
  show ?thesis
    unfolding compile_to_sql_def where_val_def compile_node_text conds_val_def
    using a b by (simp add: c sql_and_def del: acomp.simps alts.simps upt_Suc)
qed

abbreviation banner_only :: meaning where
  "banner_only \<equiv> (\<lambda>t i v. if ft_key t = [] \<and> i = 0 then TT else FF)"

theorem full_text_and_precedence_witness:
  "where_val id banner_only (And (term_of [] ''nginx'') (term_of ''port'' ''80'')) = TT \<and>
   query_val id banner_only (And (term_of [] ''nginx'') (term_of ''port'' ''80'')) = FF"
proof -
  let ?a = "\<lparr>ft_key = [], ft_op = Default, ft_value = ''nginx'', ft_negate = False\<rparr>"
  let ?b = "\<lparr>ft_key = ''port'', ft_op = Default, ft_value = ''80'', ft_negate = False\<rparr>"
  have k: "classify_filter ?a = KFullText" and p: "param_of id ?b = [''80'']" by code_simp+
  have v: "query_val id banner_only (And (Filter ?a) (Filter ?b)) = FF" by code_simp
  show ?thesis using full_text_and_precedence [OF k _ _ p, of id banner_only] v by (simp add: upt_rec)
qed

section \<open>String literals in the SQL text\<close>

text \<open>
  What follows a string literal of standard SQL, given the text after its opening quote: the
  literal ends at the first quote that is not doubled.
\<close>

fun after_literal :: "string \<Rightarrow> string option" where
  "after_literal [] = None"
| "after_literal (c # s) =
     (if c = CHR 0x27 then
        (case s of [] \<Rightarrow> Some [] | d # s' \<Rightarrow> if d = CHR 0x27 then after_literal s' else Some s)
      else after_literal s)"

lemma after_literal_skip: "CHR 0x27 \<notin> set s \<Longrightarrow> after_literal (s @ r) = after_literal r"
  by (induction s) auto

lemma after_literal_end:
  "CHR 0x27 \<notin> set s \<Longrightarrow> r \<noteq> [] \<Longrightarrow> hd r \<noteq> CHR 0x27 \<Longrightarrow> after_literal (s @ CHR 0x27 # r) = Some r"
  by (simp add: after_literal_skip) (cases r; simp)

lemma escape_json_quote [simp]: "CHR 0x27 \<in> set (escape_json_string v) \<longleftrightarrow> CHR 0x27 \<in> set v"
  by (auto simp: escape_json_string_def escape_json_char_def split: if_splits)

lemma escape_json_append: "escape_json_string (a @ b) = escape_json_string a @ escape_json_string b"
  by (simp add: escape_json_string_def)

definition tag_term :: "string \<Rightarrow> filter_term" where
  "tag_term v = \<lparr>ft_key = ''tag'', ft_op = Default, ft_value = v, ft_negate = False\<rparr>"

definition tag_sql :: "string \<Rightarrow> string" where
  "tag_sql v = fst (compile_tag (tag_term v) [])"

definition tag_json :: "string \<Rightarrow> string" where
  "tag_json v = ''{'' @ dqs ''tags'' @ '':['' @ dqs (escape_json_string v) @ '']}''"

lemma tag_sql_shape: "tag_sql v = ''data @> '' @ CHR 0x27 # tag_json v @ CHR 0x27 # ''::jsonb''"
  by (simp add: tag_sql_def compile_tag_def tag_term_def tag_json_def sqs_def Let_def)

lemma drop_tag_sql: "drop 9 (tag_sql v) = tag_json v @ CHR 0x27 # ''::jsonb''"
  by (simp add: tag_sql_shape)

text \<open>
  A tag without a single quote stays inside its SQL string literal: after the literal comes
  only the cast.
\<close>

theorem tag_literal_closed:
  assumes "CHR 0x27 \<notin> set v"
  shows "after_literal (drop 9 (tag_sql v)) = Some ''::jsonb''"
proof -
  have "CHR 0x27 \<notin> set (tag_json v)" using assms by (auto simp: tag_json_def dqs_def)
  then show ?thesis unfolding drop_tag_sql by (rule after_literal_end) simp_all
qed

theorem tag_literal_closed_witness:
  "after_literal (drop 9 (tag_sql [CHR ''a'', CHR 0x22, CHR ''b''])) = Some ''::jsonb''"
  by (rule tag_literal_closed) simp

text \<open>
  A single quote in a tag ends the literal, and the rest of the tag becomes SQL text: the
  tag filter is open to SQL injection.
\<close>

theorem tag_literal_injection:
  assumes "CHR 0x27 \<notin> set a" "b \<noteq> []" "hd b \<noteq> CHR 0x27"
  shows "after_literal (drop 9 (tag_sql (a @ CHR 0x27 # b))) =
         Some (escape_json_string b @ [CHR 0x22] @ '']}'' @ CHR 0x27 # ''::jsonb'')"
proof -
  let ?pre = "''{'' @ dqs ''tags'' @ '':['' @ CHR 0x22 # escape_json_string a"
  let ?post = "escape_json_string b @ [CHR 0x22] @ '']}'' @ CHR 0x27 # ''::jsonb''"
  have q: "escape_json_string (CHR 0x27 # b) = CHR 0x27 # escape_json_string b"
    by (simp add: escape_json_string_def escape_json_char_def)
  have "drop 9 (tag_sql (a @ CHR 0x27 # b)) = ?pre @ CHR 0x27 # ?post"
    by (simp add: drop_tag_sql tag_json_def dqs_def escape_json_append q)
  moreover have "CHR 0x27 \<notin> set ?pre" using assms(1) by (simp add: dqs_def)
  moreover have "hd ?post \<noteq> CHR 0x27"
    using assms(2,3) by (cases b) (auto simp: escape_json_string_def escape_json_char_def)
  ultimately show ?thesis by (metis after_literal_end append_is_Nil_conv not_Cons_self2)
qed

theorem tag_literal_injection_witness:
  "after_literal (drop 9 (tag_sql (CHR 0x27 # '' OR TRUE --''))) =
   Some ('' OR TRUE --'' @ [CHR 0x22] @ '']}'' @ CHR 0x27 # ''::jsonb'')"
  using tag_literal_injection [of "[]" "'' OR TRUE --''"]
  by (simp add: escape_json_string_def escape_json_char_def)

end
