(* ===== verification/Serve.thy ===== *)
theory Serve
  imports QuerySql Pipeline "HOL-Library.Multiset" "HOL-Library.Monad_Syntax"
begin

text \<open>
  The handlers of the web server, \<open>src/serve/routes.rs\<close>.  The fixed statements are evaluated on the
  tables of \<open>Pipeline\<close>, whose list order is the order the database reads them in, so that ties of an
  \<open>ORDER BY\<close> are those of an arbitrary table; the statement built from a search is run by a parameter.
  A result row is the list of its columns with their names, and \<open>HostSummary\<close> is decoded from it by
  name.  The lemmas: how services are grouped, which handlers fail on which input, and what the pages
  count.
\<close>

section \<open>Replies\<close>

datatype 'a reply = Reply 'a | Status nat | Crash

text \<open>\<open>map_err\<close> to the status 500, and the \<open>?\<close> after it.\<close>

definition or_500 :: "'a option \<Rightarrow> ('a \<Rightarrow> 'b reply) \<Rightarrow> 'b reply" where
  "or_500 x f = (case x of None \<Rightarrow> Status 500 | Some y \<Rightarrow> f y)"

type_synonym html = "nat \<times> (string \<times> string) list \<times> string"

definition html_response :: "string \<Rightarrow> html" where
  "html_response body = (200, [(''content-type'', ''text/html; charset=utf-8'')], body)"

section \<open>Rows of a result\<close>

datatype sql_value = SNull | SInt int | SText string | SBool bool | SJson json | STexts "string list"

type_synonym sql_row = "(string \<times> sql_value) list"

record service_view =
  vw_id :: int
  vw_port :: int
  vw_transport :: string
  vw_sni :: "string option"
  vw_data :: json
  vw_first_seen :: int
  vw_last_seen :: int
  vw_ip :: string
  vw_country :: "string option"
  vw_asn :: "int option"
  vw_org :: "string option"

record service_group =
  grp_ports :: "int list"
  grp_name :: string

record host_summary =
  hs_id :: int
  hs_ip :: string
  hs_reverse_dns :: "string option"
  hs_country_code :: "string option"
  hs_asn :: "int option"
  hs_org :: "string option"
  hs_first_seen :: int
  hs_last_seen :: int
  hs_service_count :: "int option"
  hs_is_honeypot :: bool
  hs_tags :: "string list option"
  hs_services :: "json option"
  hs_service_groups :: "service_group list"

text \<open>\<open>try_get\<close> of a column: \<open>None\<close> when it is missing, null where that is not allowed, or of another type.\<close>

definition get_int :: "sql_row \<Rightarrow> string \<Rightarrow> int option" where
  "get_int r c = (case map_of r c of Some (SInt i) \<Rightarrow> Some i | _ \<Rightarrow> None)"

definition get_text :: "sql_row \<Rightarrow> string \<Rightarrow> string option" where
  "get_text r c = (case map_of r c of Some (SText t) \<Rightarrow> Some t | _ \<Rightarrow> None)"

definition get_opt_int :: "sql_row \<Rightarrow> string \<Rightarrow> int option option" where
  "get_opt_int r c =
     (case map_of r c of Some (SInt i) \<Rightarrow> Some (Some i) | Some SNull \<Rightarrow> Some None | _ \<Rightarrow> None)"

definition get_opt_text :: "sql_row \<Rightarrow> string \<Rightarrow> string option option" where
  "get_opt_text r c =
     (case map_of r c of Some (SText t) \<Rightarrow> Some (Some t) | Some SNull \<Rightarrow> Some None | _ \<Rightarrow> None)"

text \<open>The columns with \<open>sqlx(default)\<close>.\<close>

definition get_honeypot :: "sql_row \<Rightarrow> bool option" where
  "get_honeypot r =
     (case map_of r ''is_honeypot'' of None \<Rightarrow> Some False | Some (SBool b) \<Rightarrow> Some b | _ \<Rightarrow> None)"

definition get_tags :: "sql_row \<Rightarrow> string list option option" where
  "get_tags r =
     (case map_of r ''tags'' of
        None \<Rightarrow> Some None | Some SNull \<Rightarrow> Some None | Some (STexts ts) \<Rightarrow> Some (Some ts) | _ \<Rightarrow> None)"

definition get_services :: "sql_row \<Rightarrow> json option option" where
  "get_services r =
     (case map_of r ''services'' of
        None \<Rightarrow> Some None | Some SNull \<Rightarrow> Some None | Some (SJson v) \<Rightarrow> Some (Some v) | _ \<Rightarrow> None)"

definition host_summary_from_row :: "sql_row \<Rightarrow> host_summary option" where
  "host_summary_from_row r =
     do { i \<leftarrow> get_int r ''id'';
          ip \<leftarrow> get_text r ''ip'';
          dns \<leftarrow> get_opt_text r ''reverse_dns'';
          country \<leftarrow> get_opt_text r ''country_code'';
          asn \<leftarrow> get_opt_int r ''asn'';
          org \<leftarrow> get_opt_text r ''org'';
          first \<leftarrow> get_int r ''first_seen'';
          last \<leftarrow> get_int r ''last_seen'';
          count \<leftarrow> get_opt_int r ''service_count'';
          honeypot \<leftarrow> get_honeypot r;
          tags \<leftarrow> get_tags r;
          services \<leftarrow> get_services r;
          Some \<lparr>hs_id = i, hs_ip = ip, hs_reverse_dns = dns, hs_country_code = country, hs_asn = asn,
                hs_org = org, hs_first_seen = first, hs_last_seen = last, hs_service_count = count,
                hs_is_honeypot = honeypot, hs_tags = tags, hs_services = services,
                hs_service_groups = []\<rparr> }"

text \<open>\<open>fetch_all\<close>: every row must decode.\<close>

fun fetch_hosts :: "sql_row list \<Rightarrow> host_summary list option" where
  "fetch_hosts [] = Some []"
| "fetch_hosts (r # rs) =
     (case (host_summary_from_row r, fetch_hosts rs) of (Some h, Some hs) \<Rightarrow> Some (h # hs) | _ \<Rightarrow> None)"

section \<open>The fixed statements\<close>

text \<open>\<open>host(inet)\<close>: the address without its netmask.\<close>

definition host_text :: "string \<Rightarrow> string" where
  "host_text a = hd (split_on (CHR ''/'') a)"

definition opt_text :: "string option \<Rightarrow> sql_value" where
  "opt_text x = (case x of Some t \<Rightarrow> SText t | None \<Rightarrow> SNull)"

definition opt_int :: "int option \<Rightarrow> sql_value" where
  "opt_int x = (case x of Some i \<Rightarrow> SInt i | None \<Rightarrow> SNull)"

definition view_of :: "service_row \<times> host_row \<Rightarrow> service_view" where
  "view_of p =
     (let (s, h) = p
      in \<lparr>vw_id = sv_id s, vw_port = sv_port s, vw_transport = sv_transport s, vw_sni = sv_sni s,
          vw_data = sv_data s, vw_first_seen = sv_first_seen s, vw_last_seen = sv_last_seen s,
          vw_ip = host_text (ho_ip h), vw_country = ho_country h, vw_asn = ho_asn h, vw_org = ho_org h\<rparr>)"

definition select_service :: "int \<Rightarrow> db \<Rightarrow> service_view list" where
  "select_service i s = map view_of (filter (\<lambda>(r, h). sv_id r = i) (joined s))"

definition select_host_services :: "int \<Rightarrow> db \<Rightarrow> service_view list" where
  "select_host_services i s = sort_key vw_port (map view_of (filter (\<lambda>(r, h). ho_id h = i) (joined s)))"

text \<open>The columns of a host; \<open>ip_name\<close> is the name the statement gives to \<open>host(h.ip)\<close>.\<close>

definition host_columns :: "string \<Rightarrow> db \<Rightarrow> host_row \<Rightarrow> sql_row" where
  "host_columns ip_name s h =
     [(''id'', SInt (ho_id h)), (ip_name, SText (host_text (ho_ip h))),
      (''reverse_dns'', opt_text (ho_reverse_dns h)), (''country_code'', opt_text (ho_country h)),
      (''asn'', opt_int (ho_asn h)), (''org'', opt_text (ho_org h)),
      (''first_seen'', SInt (ho_first_seen h)), (''last_seen'', SInt (ho_last_seen h)),
      (''service_count'', SInt (int (length (services_of (ho_id h) s))))]"

definition select_host :: "string \<Rightarrow> string \<Rightarrow> db \<Rightarrow> sql_row list" where
  "select_host ip_name ip s =
     take 1 (map (host_columns ip_name s) (filter (\<lambda>h. host_text (ho_ip h) = ip) (db_hosts s)))"

section \<open>Documents\<close>

definition json_opt :: "('a \<Rightarrow> json) \<Rightarrow> 'a option \<Rightarrow> json" where
  "json_opt f x = (case x of Some y \<Rightarrow> f y | None \<Rightarrow> JNull)"

definition service_json :: "service_view \<Rightarrow> json" where
  "service_json v =
     JObj [(''id'', json_int (vw_id v)), (''port'', json_int (vw_port v)),
           (''transport'', JStr (vw_transport v)), (''sni'', json_opt JStr (vw_sni v)),
           (''data'', vw_data v), (''first_seen'', json_int (vw_first_seen v)),
           (''last_seen'', json_int (vw_last_seen v)), (''ip'', JStr (vw_ip v)),
           (''country'', json_opt JStr (vw_country v)), (''asn'', json_opt json_int (vw_asn v)),
           (''org'', json_opt JStr (vw_org v))]"

definition group_json :: "service_group \<Rightarrow> json" where
  "group_json g = JObj [(''ports'', JArr (map json_int (grp_ports g))), (''name'', JStr (grp_name g))]"

definition host_json :: "host_summary \<Rightarrow> json" where
  "host_json h =
     JObj ([(''id'', json_int (hs_id h)), (''ip'', JStr (hs_ip h)),
            (''reverse_dns'', json_opt JStr (hs_reverse_dns h)),
            (''country_code'', json_opt JStr (hs_country_code h)), (''asn'', json_opt json_int (hs_asn h)),
            (''org'', json_opt JStr (hs_org h)), (''first_seen'', json_int (hs_first_seen h)),
            (''last_seen'', json_int (hs_last_seen h)),
            (''service_count'', json_opt json_int (hs_service_count h)),
            (''is_honeypot'', JBool (hs_is_honeypot h)),
            (''tags'', json_opt (\<lambda>ts. JArr (map JStr ts)) (hs_tags h)),
            (''services'', json_opt (\<lambda>v. v) (hs_services h))] @
           (if hs_service_groups h = [] then []
            else [(''service_groups'', JArr (map group_json (hs_service_groups h)))]))"

section \<open>Grouping the services of a host\<close>

text \<open>\<open>as i32\<close>.\<close>

definition as_i32 :: "int \<Rightarrow> int" where
  "as_i32 i = sint (of_int i :: 32 word)"

definition group_port :: "json \<Rightarrow> int" where
  "group_port svc =
     as_i32 (case json_get svc ''port'' of
               None \<Rightarrow> 0 | Some p \<Rightarrow> (case json_as_i64 p of Some i \<Rightarrow> i | None \<Rightarrow> 0))"

text \<open>The chain of \<open>or_else\<close>: the title is asked for only when the key \<open>product\<close> is absent.\<close>

definition group_name :: "json \<Rightarrow> string" where
  "group_name svc =
     (let named = (case json_get svc ''product'' of Some v \<Rightarrow> Some v | None \<Rightarrow> json_get svc ''title'')
      in case Option.bind named json_as_str of
           Some n \<Rightarrow> n
         | None \<Rightarrow>
             (case Option.bind (json_get svc ''service'') json_as_str of
                Some n \<Rightarrow> n | None \<Rightarrow> ''unknown''))"

text \<open>\<open>groups.entry(name).or_default().push(port)\<close>, on the list of the entries.\<close>

fun push_port :: "string \<Rightarrow> int \<Rightarrow> (string \<times> int list) list \<Rightarrow> (string \<times> int list) list" where
  "push_port n p [] = [(n, [p])]"
| "push_port n p ((m, ps) # gs) = (if m = n then (m, ps @ [p]) # gs else (m, ps) # push_port n p gs)"

definition port_groups :: "json list \<Rightarrow> (string \<times> int list) list" where
  "port_groups svcs = foldl (\<lambda>gs svc. push_port (group_name svc) (group_port svc) gs) [] svcs"

text \<open>\<open>hash_order\<close> is the iteration order of the \<open>HashMap\<close>.\<close>

definition group_services ::
  "((string \<times> int list) list \<Rightarrow> (string \<times> int list) list) \<Rightarrow> json option \<Rightarrow> service_group list" where
  "group_services hash_order services =
     (case services of
        Some (JArr svcs) \<Rightarrow>
          sort_key (\<lambda>g. hd (grp_ports g))
            (map (\<lambda>(name, ports). \<lparr>grp_ports = sort_dedup ports, grp_name = name\<rparr>)
               (hash_order (port_groups svcs)))
      | _ \<Rightarrow> [])"

section \<open>The index page\<close>

text \<open>
  What the templates are given, and the environment of the server: the statement runner of the search (\<open>None\<close> is an error), the text of a
  JSON value that is no string, the order \<open>array_agg(DISTINCT ...)\<close> returns its values in, the hash
  order, the templates, and the tables of the query compiler.
\<close>

record stats_data =
  st_total_hosts :: nat
  st_total_services :: nat
  st_total_countries :: nat
  st_ports :: "(int \<times> nat) list"
  st_kinds :: "(string \<times> nat) list"
  st_products :: "(string \<times> nat) list"
  st_transports :: "(string \<times> nat) list"
  st_tags :: "(string \<times> nat) list"
  st_countries :: "(string \<times> nat) list"
  st_queues :: "(string \<times> nat \<times> nat) list"

datatype page =
    IndexPage "host_summary list"
  | SearchPage string nat "json list"
  | ServicePage service_view
  | HostPage host_summary "json list"
  | StatsPage stats_data

record web =
  wb_run :: "string \<Rightarrow> string list \<Rightarrow> service_view list option"
  wb_json_text :: "json \<Rightarrow> string"
  wb_distinct :: "string option list \<Rightarrow> string option list"
  wb_hash_order :: "(string \<times> int list) list \<Rightarrow> (string \<times> int list) list"
  wb_render :: "page \<Rightarrow> string option"
  wb_uc :: "string \<Rightarrow> string"
  wb_jq :: "string \<Rightarrow> string"
  wb_ualnum :: "string \<Rightarrow> bool"

text \<open>\<open>->\<close> and \<open>->>\<close> with a key; \<open>None\<close> is null.\<close>

definition json_text :: "web \<Rightarrow> json \<Rightarrow> string option" where
  "json_text w v = (case v of JNull \<Rightarrow> None | JStr t \<Rightarrow> Some t | v \<Rightarrow> Some (wb_json_text w v))"

definition arrow_text :: "web \<Rightarrow> json \<Rightarrow> string \<Rightarrow> string option" where
  "arrow_text w v k = Option.bind (json_get v k) (json_text w)"

text \<open>
  \<open>jsonb_array_elements_text(data->'tags')\<close>: no rows for null, an error for anything that is no array.
\<close>

definition tag_rows :: "web \<Rightarrow> json \<Rightarrow> string option list option" where
  "tag_rows w data =
     (case json_get data ''tags'' of
        None \<Rightarrow> Some [] | Some (JArr vs) \<Rightarrow> Some (map (json_text w) vs) | Some _ \<Rightarrow> None)"

text \<open>The tags as \<open>text[]\<close>; the code reads them as strings that are not null.\<close>

fun all_some :: "'a option list \<Rightarrow> 'a list option" where
  "all_some [] = Some []"
| "all_some (None # xs) = None"
| "all_some (Some x # xs) = map_option (Cons x) (all_some xs)"

definition index_service :: "web \<Rightarrow> service_row \<Rightarrow> json option" where
  "index_service w r =
     map_option (\<lambda>tags.
       JObj [(''port'', json_int (sv_port r)),
             (''service'', json_opt JStr (arrow_text w (sv_data r) ''kind'')),
             (''product'', json_opt JStr (arrow_text w (sv_data r) ''product'')),
             (''title'', json_opt JStr (case json_get (sv_data r) ''http'' of
                                          Some h \<Rightarrow> arrow_text w h ''title'' | None \<Rightarrow> None)),
             (''tags'', JArr (map (json_opt JStr) tags))])
       (map_option (wb_distinct w) (tag_rows w (sv_data r)))"

definition index_row :: "web \<Rightarrow> db \<Rightarrow> host_row \<Rightarrow> sql_row option" where
  "index_row w s h =
     do { let rs = sort_key sv_port (services_of (ho_id h) s);
          tags \<leftarrow> all_some (map (\<lambda>r. tag_rows w (sv_data r)) rs);
          tags \<leftarrow> all_some (wb_distinct w (concat tags));
          docs \<leftarrow> all_some (map (index_service w) rs);
          Some (host_columns ''ip'' s h @
            [(''tags'', STexts tags), (''services'', SJson (JArr docs))]) }"

definition index_hosts :: "db \<Rightarrow> host_row list" where
  "index_hosts s = take 50 (sort_key (\<lambda>h. - ho_last_seen h) (filter (\<lambda>h. \<not> ho_honeypot h) (db_hosts s)))"

definition with_groups :: "web \<Rightarrow> host_summary \<Rightarrow> host_summary" where
  "with_groups w h = h\<lparr>hs_service_groups := group_services (wb_hash_order w) (hs_services h)\<rparr>"

definition index :: "web \<Rightarrow> db \<Rightarrow> html reply" where
  "index w s =
     or_500 (Option.bind (all_some (map (index_row w s) (index_hosts s))) fetch_hosts) (\<lambda>hosts.
     or_500 (wb_render w (IndexPage (map (with_groups w) hosts))) (\<lambda>body.
       Reply (html_response body)))"

section \<open>Search, services and hosts\<close>

definition search_rows :: "web \<Rightarrow> string \<Rightarrow> (service_view list \<Rightarrow> 'a reply) \<Rightarrow> 'a reply" where
  "search_rows w query k =
     (case parse_query (wb_ualnum w) query of
        None \<Rightarrow> Crash
      | Some ast \<Rightarrow>
          (let (sql, query_params) = build_search_query (wb_uc w) (wb_jq w) ast
           in or_500 (wb_run w sql query_params) k))"

definition query_param :: "(string \<rightharpoonup> string) \<Rightarrow> string" where
  "query_param params = (case params ''q'' of Some q \<Rightarrow> q | None \<Rightarrow> [])"

definition search :: "web \<Rightarrow> (string \<rightharpoonup> string) \<Rightarrow> html reply" where
  "search w params =
     (let query = query_param params
      in search_rows w query (\<lambda>rows.
         or_500 (wb_render w (SearchPage query (length rows) (map service_json rows))) (\<lambda>body.
           Reply (html_response body))))"

definition api_search :: "web \<Rightarrow> (string \<rightharpoonup> string) \<Rightarrow> json reply" where
  "api_search w params =
     search_rows w (query_param params) (\<lambda>rows.
       let results = map service_json rows
       in Reply (JObj [(''results'', JArr results), (''total'', json_int (int (length results)))]))"

definition service_detail :: "web \<Rightarrow> int \<Rightarrow> db \<Rightarrow> html reply" where
  "service_detail w i s =
     (case select_service i s of
        [] \<Rightarrow> Status 404
      | row # _ \<Rightarrow> or_500 (wb_render w (ServicePage row)) (\<lambda>body. Reply (html_response body)))"

definition api_service :: "int \<Rightarrow> db \<Rightarrow> json reply" where
  "api_service i s =
     (case select_service i s of [] \<Rightarrow> Status 404 | row # _ \<Rightarrow> Reply (service_json row))"

text \<open>The host statement of a page: \<open>Inr\<close> the host, \<open>Inl\<close> the status of the reply.\<close>

definition find_host :: "string \<Rightarrow> string \<Rightarrow> db \<Rightarrow> nat + host_summary" where
  "find_host ip_name ip s =
     (case fetch_hosts (select_host ip_name ip s) of
        None \<Rightarrow> Inl 500 | Some [] \<Rightarrow> Inl 404 | Some (h # _) \<Rightarrow> Inr h)"

definition host_detail :: "web \<Rightarrow> string \<Rightarrow> db \<Rightarrow> html reply" where
  "host_detail w ip s =
     (case find_host ''ip'' ip s of
        Inl e \<Rightarrow> Status e
      | Inr host \<Rightarrow>
          or_500 (wb_render w (HostPage host (map service_json (select_host_services (hs_id host) s))))
            (\<lambda>body. Reply (html_response body)))"

text \<open>The statement of \<open>api_host\<close> does not name the column \<open>host(h.ip)\<close>, which PostgreSQL then calls \<open>host\<close>.\<close>

definition api_host :: "string \<Rightarrow> db \<Rightarrow> json reply" where
  "api_host ip s =
     (case find_host ''host'' ip s of
        Inl e \<Rightarrow> Status e
      | Inr host \<Rightarrow>
          Reply (JObj [(''host'', host_json host),
                       (''services'', JArr (map service_json (select_host_services (hs_id host) s)))]))"

section \<open>Statistics\<close>

text \<open>\<open>SELECT k, count(*) ... GROUP BY k ORDER BY count DESC\<close>.\<close>

definition group_counts :: "'k list \<Rightarrow> ('k \<times> nat) list" where
  "group_counts ks = sort_key (\<lambda>(k, n). - int n) (map (\<lambda>k. (k, count_list ks k)) (remdups ks))"

text \<open>The same for a text column that the code reads as not null: a null group is an error.\<close>

definition text_counts :: "nat \<Rightarrow> string option list \<Rightarrow> (string \<times> nat) list option" where
  "text_counts limit ks =
     all_some (map (\<lambda>(k, n). map_option (\<lambda>k. (k, n)) k) (take limit (group_counts ks)))"

definition visible :: "db \<Rightarrow> (service_row \<times> host_row) list" where
  "visible s = filter (\<lambda>(r, h). \<not> ho_honeypot h) (joined s)"

definition visible_hosts :: "db \<Rightarrow> host_row list" where
  "visible_hosts s = filter (\<lambda>h. \<not> ho_honeypot h) (db_hosts s)"

definition visible_text :: "web \<Rightarrow> string \<Rightarrow> db \<Rightarrow> string option list" where
  "visible_text w k s = map (\<lambda>(r, h). arrow_text w (sv_data r) k) (visible s)"

text \<open>\<open>SELECT h.country_code AS country ... GROUP BY\<close>, with \<open>'??'\<close> for null.\<close>

definition country_counts :: "db \<Rightarrow> (string \<times> nat) list" where
  "country_counts s =
     map (\<lambda>(k, n). (case k of Some c \<Rightarrow> c | None \<Rightarrow> ''??'', n))
       (take 15 (group_counts (map ho_country (visible_hosts s))))"

definition queue_stat :: "string \<Rightarrow> 'a queue \<Rightarrow> string \<times> nat \<times> nat" where
  "queue_stat name q = (name, length (rows q), length (filter (\<lambda>r. claimed_until r = None) (rows q)))"

definition stats_of :: "web \<Rightarrow> db \<Rightarrow> stats_data option" where
  "stats_of w s =
     do { kinds \<leftarrow> text_counts 15 (visible_text w ''kind'' s);
          products \<leftarrow> text_counts 20 (filter (\<lambda>p. p \<noteq> None) (visible_text w ''product'' s));
          tags \<leftarrow> all_some (map (\<lambda>(r, h). tag_rows w (sv_data r)) (visible s));
          tags \<leftarrow> text_counts 20 (concat tags);
          Some \<lparr>st_total_hosts = length (visible_hosts s), st_total_services = length (visible s),
            st_total_countries =
              length (remdups (filter (\<lambda>c. c \<noteq> None) (map ho_country (visible_hosts s)))),
            st_ports = take 20 (group_counts (map (\<lambda>(r, h). sv_port r) (visible s))),
            st_kinds = kinds, st_products = products,
            st_transports = group_counts (map (\<lambda>(r, h). sv_transport r) (visible s)),
            st_tags = tags, st_countries = country_counts s,
            st_queues = [queue_stat ''host_scans'' (db_host_queue s),
                         queue_stat ''service_probes'' (db_probe_queue s)]\<rparr> }"

definition stats :: "web \<Rightarrow> db \<Rightarrow> html reply" where
  "stats w s =
     or_500 (stats_of w s) (\<lambda>d.
     or_500 (wb_render w (StatsPage d)) (\<lambda>body. Reply (html_response body)))"

section \<open>Groups\<close>

lemma push_port_names: "map fst (push_port n p gs) = (if n \<in> fst ` set gs then map fst gs else map fst gs @ [n])"
proof (induction gs)
  case (Cons g gs)
  then show ?case by (cases g) force
qed simp

lemma push_port_map_of:
  "map_of (push_port n p gs) m =
     (if m = n then Some ((case map_of gs n of Some ps \<Rightarrow> ps | None \<Rightarrow> []) @ [p]) else map_of gs m)"
  by (induction gs) auto

lemma port_groups_snoc:
  "port_groups (svcs @ [svc]) = push_port (group_name svc) (group_port svc) (port_groups svcs)"
  by (simp add: port_groups_def)

definition ports_named :: "string \<Rightarrow> json list \<Rightarrow> int list" where
  "ports_named n svcs = map group_port (filter (\<lambda>svc. group_name svc = n) svcs)"

lemma port_groups_map_of:
  "map_of (port_groups svcs) n = (if ports_named n svcs = [] then None else Some (ports_named n svcs))"
proof (induction svcs arbitrary: n rule: rev_induct)
  case (snoc svc svcs)
  show ?case unfolding port_groups_snoc push_port_map_of snoc by (auto simp: ports_named_def)
qed (simp add: port_groups_def ports_named_def)

lemma port_groups_distinct: "distinct (map fst (port_groups svcs))"
proof (induction svcs rule: rev_induct)
  case (snoc svc svcs)
  then show ?case by (auto simp: port_groups_snoc push_port_names)
qed (simp add: port_groups_def)

lemma ports_named_empty: "ports_named n svcs = [] \<longleftrightarrow> n \<notin> group_name ` set svcs"
  by (auto simp: ports_named_def filter_empty_conv)

lemma port_groups_names: "fst ` set (port_groups svcs) = group_name ` set svcs"
  using port_groups_map_of [of svcs]
  by (metis (no_types, lifting) map_of_eq_None_iff option.distinct(1) ports_named_empty subsetI subset_antisym)

lemma port_groups_entry: "(n, ps) \<in> set (port_groups svcs) \<Longrightarrow> ps = ports_named n svcs \<and> ps \<noteq> []"
  using port_groups_map_of [of svcs n] port_groups_distinct [of svcs]
  by (metis map_of_is_SomeI option.discI option.inject)

text \<open>
  C25. The services of a host are grouped by name: whatever the order of the hash map, there is one group
  per name, with the sorted distinct ports of the services of that name, at least one, and the groups are
  in the order of their first ports.
\<close>

theorem group_services_spec:
  assumes "mset (hash_order (port_groups svcs)) = mset (port_groups svcs)"
  shows "let gs = group_services hash_order (Some (JArr svcs))
         in distinct (map grp_name gs) \<and> grp_name ` set gs = group_name ` set svcs \<and>
            (\<forall>g\<in>set gs. grp_ports g = sort_dedup (ports_named (grp_name g) svcs) \<and> grp_ports g \<noteq> []) \<and>
            sorted (map (\<lambda>g. hd (grp_ports g)) gs)"
proof -
  define G where
    "G = map (\<lambda>(name, ports). \<lparr>grp_ports = sort_dedup ports, grp_name = name\<rparr>) (hash_order (port_groups svcs))"
  have gs: "group_services hash_order (Some (JArr svcs)) = sort_key (\<lambda>g. hd (grp_ports g)) G"
    by (simp add: group_services_def G_def)
  have s: "set (hash_order (port_groups svcs)) = set (port_groups svcs)" using assms by (metis set_mset_mset)
  have names: "map grp_name G = map fst (hash_order (port_groups svcs))"
    by (simp add: G_def case_prod_beta comp_def)
  have "mset (map fst (hash_order (port_groups svcs))) = mset (map fst (port_groups svcs))"
    using assms by (metis mset_map)
  then have "distinct (map grp_name G)"
    unfolding names using port_groups_distinct by (metis mset_eq_imp_distinct_iff)
  then have d: "distinct (map grp_name (sort_key (\<lambda>g. hd (grp_ports g)) G))"
    by (metis mset_map mset_sort mset_eq_imp_distinct_iff)
  have n: "grp_name ` set G = group_name ` set svcs"
    using port_groups_names [of svcs] s by (metis names list.set_map)
  have p: "grp_ports g = sort_dedup (ports_named (grp_name g) svcs) \<and> grp_ports g \<noteq> []" if g_in: "g \<in> set G" for g
  proof -
    obtain n ps where g: "(n, ps) \<in> set (port_groups svcs)" "g = \<lparr>grp_ports = sort_dedup ps, grp_name = n\<rparr>"
      using g_in s by (auto simp: G_def)
    have "sort_dedup ps \<noteq> []" using port_groups_entry [OF g(1)] by (metis set_empty set_sort_dedup)
    then show ?thesis using port_groups_entry [OF g(1)] g(2) by simp
  qed
  show ?thesis unfolding gs Let_def using d n p by (intro conjI ballI) (auto dest: p)
qed

definition demo_docs :: "json list" where
  "demo_docs =
     [JObj [(''port'', json_int 80), (''service'', JStr ''http''), (''product'', JStr ''nginx'')],
      JObj [(''port'', json_int 22), (''service'', JStr ''ssh''), (''product'', JNull)],
      JObj [(''port'', json_int 443), (''service'', JStr ''http''), (''product'', JStr ''nginx'')]]"

theorem group_services_spec_witness:
  "let gs = group_services rev (Some (JArr demo_docs))
   in grp_name ` set gs = {''nginx'', ''ssh''} \<and> sorted (map (\<lambda>g. hd (grp_ports g)) gs) \<and>
      map grp_ports gs = [[22], [80, 443]]"
proof -
  have "mset (rev (port_groups demo_docs)) = mset (port_groups demo_docs)" by simp
  from group_services_spec [of rev demo_docs, OF this] have
    "let gs = group_services rev (Some (JArr demo_docs))
     in grp_name ` set gs = group_name ` set demo_docs \<and> sorted (map (\<lambda>g. hd (grp_ports g)) gs)"
    by (simp add: Let_def)
  moreover have "group_name ` set demo_docs = {''nginx'', ''ssh''}" by code_simp
  moreover have "map grp_ports (group_services rev (Some (JArr demo_docs))) = [[22], [80, 443]]" by code_simp
  ultimately show ?thesis by (simp add: Let_def)
qed

text \<open>
  On the index page no service is ever named by the title of its page: the statement always gives the
  key \<open>product\<close>, as null when there is none, so the alternative is never taken and the name falls to the
  kind.
\<close>

theorem titles_never_name:
  assumes "index_service w r = Some svc"
  shows "group_name svc =
     (case arrow_text w (sv_data r) ''product'' of
        Some p \<Rightarrow> p
      | None \<Rightarrow> (case arrow_text w (sv_data r) ''kind'' of Some k \<Rightarrow> k | None \<Rightarrow> ''unknown''))"
  using assms
  by (auto simp: index_service_def group_name_def json_get_def json_opt_def json_as_str_def
      split: option.splits)

definition demo_web :: web where
  "demo_web =
     \<lparr>wb_run = \<lambda>sql ps. Some [], wb_json_text = \<lambda>v. [], wb_distinct = remdups, wb_hash_order = id,
      wb_render = \<lambda>p. None, wb_uc = id, wb_jq = id, wb_ualnum = \<lambda>c. True\<rparr>"

definition titled_service :: service_row where
  "titled_service =
     \<lparr>sv_id = 4, sv_host_id = 1, sv_port = 80, sv_transport = ''tcp'', sv_sni = None,
      sv_data = JObj [(''kind'', JStr ''http''), (''http'', JObj [(''title'', JStr ''Router login'')]),
                      (''tags'', JArr [JStr ''web''])],
      sv_first_seen = 5, sv_last_seen = 9\<rparr>"

theorem titles_never_name_witness:
  "\<exists>svc. index_service demo_web titled_service = Some svc \<and>
     json_get svc ''title'' = Some (JStr ''Router login'') \<and> group_name svc = ''http''"
proof -
  have t: "map_option (\<lambda>svc. json_get svc ''title'') (index_service demo_web titled_service) =
      Some (Some (JStr ''Router login''))" by code_simp
  then obtain svc where i: "index_service demo_web titled_service = Some svc"
    "json_get svc ''title'' = Some (JStr ''Router login'')" by auto
  have "arrow_text demo_web (sv_data titled_service) ''product'' = None"
    "arrow_text demo_web (sv_data titled_service) ''kind'' = Some ''http''" by code_simp+
  then show ?thesis using titles_never_name [OF i(1)] i by simp
qed

section \<open>Hosts and services\<close>

lemma opt_columns:
  "map_of r c = Some (opt_text x) \<Longrightarrow> get_opt_text r c = Some x"
  "map_of r c = Some (opt_int y) \<Longrightarrow> get_opt_int r c = Some y"
  by (simp_all add: get_opt_text_def get_opt_int_def opt_text_def opt_int_def split: option.splits)

lemma unnamed_column: "host_summary_from_row (host_columns ''host'' s h) = None"
  by (simp add: host_summary_from_row_def host_columns_def get_int_def get_text_def)

definition host_summary_of :: "db \<Rightarrow> host_row \<Rightarrow> host_summary" where
  "host_summary_of s h =
     \<lparr>hs_id = ho_id h, hs_ip = host_text (ho_ip h), hs_reverse_dns = ho_reverse_dns h,
      hs_country_code = ho_country h, hs_asn = ho_asn h, hs_org = ho_org h,
      hs_first_seen = ho_first_seen h, hs_last_seen = ho_last_seen h,
      hs_service_count = Some (int (length (services_of (ho_id h) s))), hs_is_honeypot = False,
      hs_tags = None, hs_services = None, hs_service_groups = []\<rparr>"

lemma named_column: "host_summary_from_row (host_columns ''ip'' s h) = Some (host_summary_of s h)"
  by (simp add: host_summary_from_row_def host_columns_def get_int_def get_text_def get_opt_int_def
      get_opt_text_def get_honeypot_def get_tags_def get_services_def opt_text_def opt_int_def
      host_summary_of_def split: option.split)

lemma select_host_find:
  "select_host c ip s =
     (case find (\<lambda>h. host_text (ho_ip h) = ip) (db_hosts s) of
        None \<Rightarrow> [] | Some h \<Rightarrow> [host_columns c s h])"
proof -
  have "take 1 (map f (filter P hs)) = (case find P hs of None \<Rightarrow> [] | Some h \<Rightarrow> [f h])"
    for f :: "host_row \<Rightarrow> sql_row" and P hs by (induction hs) auto
  then show ?thesis by (simp add: select_host_def)
qed

lemma find_host_page:
  "find_host ''ip'' ip s =
     (case find (\<lambda>h. host_text (ho_ip h) = ip) (db_hosts s) of
        None \<Rightarrow> Inl 404 | Some h \<Rightarrow> Inr (host_summary_of s h))"
  by (simp add: find_host_def select_host_find named_column split: option.split)

text \<open>
  C23. The host document of the API is never served: where the host page finds a host, \<open>api_host\<close> replies
  with the status 500, because its statement does not name the address column, and otherwise 404.
\<close>

theorem api_host_never_replies:
  "api_host ip s = Status (if ip \<in> (\<lambda>h. host_text (ho_ip h)) ` set (db_hosts s) then 500 else 404)"
proof (cases "find (\<lambda>h. host_text (ho_ip h) = ip) (db_hosts s)")
  case None
  then have "ip \<notin> (\<lambda>h. host_text (ho_ip h)) ` set (db_hosts s)" by (auto simp: find_None_iff)
  then show ?thesis using None by (simp add: api_host_def find_host_def select_host_find)
next
  case (Some h)
  then have "ip \<in> (\<lambda>h. host_text (ho_ip h)) ` set (db_hosts s)" by (auto simp: find_Some_iff)
  then show ?thesis using Some by (simp add: api_host_def find_host_def select_host_find unnamed_column)
qed

text \<open>The service statement on a consistent database: one row for every id in use.\<close>

lemma select_service_row:
  assumes "db_ok s" "r \<in> set (db_services s)"
  shows "\<exists>h\<in>set (db_hosts s). ho_id h = sv_host_id r \<and> select_service (sv_id r) s = [view_of (r, h)]"
proof -
  have "filter (\<lambda>q. sv_id q = sv_id r) (db_services s) = [r]"
    using assms by (intro filter_key) (simp_all add: db_ok_def services_ok_def)
  then show ?thesis using joined_services [OF assms] by (auto simp: select_service_def joined_filter)
qed

lemma select_service_none: "i \<notin> sv_id ` set (db_services s) \<Longrightarrow> select_service i s = []"
  by (auto simp: select_service_def joined_def filter_empty_conv)

lemma api_service_row:
  assumes "db_ok s" "r \<in> set (db_services s)"
  shows "\<exists>h\<in>set (db_hosts s). ho_id h = sv_host_id r \<and>
           api_service (sv_id r) s = Reply (service_json (view_of (r, h)))"
  using select_service_row [OF assms] by (auto simp: api_service_def)

text \<open>
  What is stored is served: after a result has been stored under an id, the service document of that id
  holds the sanitized document, the port, the transport and the time of the result, with the address of an
  existing host.
\<close>

theorem stored_service_served:
  assumes "db_ok s" "upsert_service cx t r s = (Ok i, s')"
  shows "\<exists>v. api_service i s' = Reply (service_json v) \<and> vw_id v = i \<and>
           vw_data v = sanitize_json_nulls (cx_ser cx (pr_data r)) \<and> vw_port v = uint (pr_port r) \<and>
           vw_transport v = pr_transport r \<and> vw_last_seen v = t \<and>
           vw_ip v \<in> (\<lambda>h. host_text (ho_ip h)) ` set (db_hosts s')"
proof -
  note u = upsert_result [OF assms]
  obtain x where x: "x \<in> set (db_services s')" "sv_id x = i" "service_key x = service_key (result_row cx t r)"
    "sv_data x = sanitize_json_nulls (cx_ser cx (pr_data r))" "sv_last_seen x = t" using u by blast
  have "db_ok s'" using u by blast
  from api_service_row [OF this x(1)] obtain h where h: "h \<in> set (db_hosts s')"
    "api_service i s' = Reply (service_json (view_of (x, h)))" unfolding x(2) by blast
  have "sv_port x = uint (pr_port r)" "sv_transport x = pr_transport r"
    using x(3) by (simp_all add: service_key_def result_row_def)
  then show ?thesis using h x by (intro exI [of _ "view_of (x, h)"]) (simp add: view_of_def)
qed

theorem stored_service_served_witness:
  "\<exists>s' v. api_service 1 s' = Reply (service_json v) \<and> vw_port v = 2000 \<and>
     vw_data v = JObj [(''kind'', JStr ''mikrotik'')]"
proof -
  have "fst (upsert_service demo_pipeline 9 demo_result demo_db) = Ok 1" by code_simp
  then obtain s' where u: "upsert_service demo_pipeline 9 demo_result demo_db = (Ok 1, s')"
    by (cases "upsert_service demo_pipeline 9 demo_result demo_db") auto
  have d: "sanitize_json_nulls (cx_ser demo_pipeline (pr_data demo_result)) = JObj [(''kind'', JStr ''mikrotik'')]"
    "uint (pr_port demo_result) = 2000"
    by code_simp+
  show ?thesis using stored_service_served [OF demo_db_ok u] unfolding d by blast
qed

section \<open>Search\<close>

text \<open>
  C21. The search of the API dies on a query with a character outside ASCII, and on every other query it
  serves the rows the database returns for the compiled statement, or the status 500.
\<close>

theorem api_search_crashes_iff:
  assumes "valid_utf8 (as_bytes (query_param params))"
  shows "(api_search w params = Crash \<longleftrightarrow> \<not> ascii_str (query_param params)) \<and>
    (ascii_str (query_param params) \<longrightarrow>
      (\<exists>ast. parse_query (wb_ualnum w) (query_param params) = Some ast \<and>
        api_search w params =
          (case case_prod (wb_run w) (build_search_query (wb_uc w) (wb_jq w) ast) of
             None \<Rightarrow> Status 500
           | Some vs \<Rightarrow>
               Reply (JObj [(''results'', JArr (map service_json vs)),
                            (''total'', json_int (int (length vs)))]))))"
proof -
  note n = parse_query_None [OF assms, of "wb_ualnum w"]
  show ?thesis
  proof (cases "parse_query (wb_ualnum w) (query_param params)")
    case None
    then show ?thesis using n by (simp add: api_search_def search_rows_def)
  next
    case (Some ast)
    then have a: "ascii_str (query_param params)" using n by simp
    obtain sql qs where b: "build_search_query (wb_uc w) (wb_jq w) ast = (sql, qs)" by fastforce
    show ?thesis
      using Some a b by (cases "wb_run w sql qs") (simp_all add: api_search_def search_rows_def or_500_def)
  qed
qed

theorem api_search_crashes_iff_witness:
  "api_search demo_web [''q'' \<mapsto> ''tag:'' @ as_str [0xC3, 0xA9]] = Crash"
proof -
  let ?p = "[''q'' \<mapsto> ''tag:'' @ as_str [0xC3, 0xA9]] :: string \<rightharpoonup> string"
  have q: "query_param ?p = ''tag:'' @ as_str [0xC3, 0xA9]" by (simp add: query_param_def)
  have v: "valid_utf8 (as_bytes (query_param ?p))" "\<not> ascii_str (query_param ?p)"
    unfolding q by code_simp+
  show ?thesis using api_search_crashes_iff [OF v(1), of demo_web] v(2) by blast
qed

section \<open>What the pages count\<close>

lemma sort_key_take:
  fixes f :: "'a \<Rightarrow> 'b::linorder"
  assumes "x \<in> set (take n (sort_key f xs))" "y \<in> set xs" "y \<notin> set (take n (sort_key f xs))"
  shows "f x \<le> f y"
proof -
  let ?s = "sort_key f xs"
  have "y \<in> set (take n ?s @ drop n ?s)" using assms(2) by simp
  then have "y \<in> set (drop n ?s)" using assms(3) by (metis Un_iff set_append)
  moreover have "sorted (map f (take n ?s) @ map f (drop n ?s))"
    by (metis append_take_drop_id map_append sorted_sort_key)
  ultimately show ?thesis using assms(1) by (auto simp: sorted_append)
qed

text \<open>
  The index lists at most fifty hosts, none of them a honeypot, the most recently seen first, and a host
  that is left out was not seen after one that is listed.
\<close>

theorem index_hosts_latest:
  "length (index_hosts s) \<le> 50 \<and> (\<forall>h\<in>set (index_hosts s). h \<in> set (db_hosts s) \<and> \<not> ho_honeypot h) \<and>
   sorted (map (\<lambda>h. - ho_last_seen h) (index_hosts s)) \<and>
   (\<forall>h\<in>set (index_hosts s). \<forall>k\<in>set (db_hosts s) - set (index_hosts s).
      \<not> ho_honeypot k \<longrightarrow> ho_last_seen k \<le> ho_last_seen h)"
proof (intro conjI ballI impI)
  let ?v = "filter (\<lambda>h. \<not> ho_honeypot h) (db_hosts s)"
  have v: "h \<in> set ?v" if "h \<in> set (index_hosts s)" for h
    using that unfolding index_hosts_def by (metis in_set_takeD set_sort)
  show "length (index_hosts s) \<le> 50" by (simp add: index_hosts_def)
  show "sorted (map (\<lambda>h. - ho_last_seen h) (index_hosts s))"
    unfolding index_hosts_def by (metis sorted_sort_key sorted_wrt_take take_map)
  show "h \<in> set (db_hosts s)" "\<not> ho_honeypot h" if "h \<in> set (index_hosts s)" for h
    using v [OF that] by simp_all
  show "ho_last_seen k \<le> ho_last_seen h"
    if "h \<in> set (index_hosts s)" "k \<in> set (db_hosts s) - set (index_hosts s)" "\<not> ho_honeypot k" for h k
    using sort_key_take [of h 50 "\<lambda>h. - ho_last_seen h" ?v k] that unfolding index_hosts_def by simp
qed





definition trap_db :: db where
  "trap_db =
     demo_db\<lparr>db_hosts := [demo_host, demo_host\<lparr>ho_id := 2, ho_ip := ''10.0.0.2/32'', ho_honeypot := True\<rparr>],
             db_services := [titled_service, titled_service\<lparr>sv_id := 5, sv_host_id := 2\<rparr>]\<rparr>"

theorem index_hosts_latest_witness:
  "index_hosts trap_db = [demo_host] \<and> \<not> ho_honeypot demo_host"
proof -
  have "index_hosts trap_db = [demo_host]"
    by (simp add: index_hosts_def trap_db_def demo_db_def demo_host_def)
  then show ?thesis using index_hosts_latest [of trap_db] by simp
qed


end
