(* ===== verification/Journey.thy ===== *)
theory Journey
  imports Serve Loops
begin

text \<open>
  The way of an open port through the whole program: the deep scan queues it, the probe stage examines it and
  stores it, and the web server serves the document.  The lemmas follow the host and the service through the
  statements of a probe.
\<close>

section \<open>The addresses of the hosts\<close>

definition hosts_of :: "db \<Rightarrow> (int \<times> string) list" where
  "hosts_of s = map (\<lambda>h. (ho_id h, ho_ip h)) (db_hosts s)"

lemma update_host_hosts:
  "(\<And>h. ho_id (f h) = ho_id h) \<Longrightarrow> (\<And>h. ho_ip (f h) = ho_ip h) \<Longrightarrow> hosts_of (update_host i f s) = hosts_of s"
  by (simp add: hosts_of_def update_host_def)

lemma host_updates_hosts [simp]:
  "hosts_of (update_dns cx t ip i s) = hosts_of s" "hosts_of (update_country cx t ip i s) = hosts_of s"
  "hosts_of (snd (update_asn cx t ip i s)) = hosts_of s" "hosts_of (mark_honeypot i s) = hosts_of s"
  by (auto simp: update_dns_def update_country_def update_asn_def mark_honeypot_def set_country_def set_asn_def
      intro!: update_host_hosts split: outcome.split option.split)

lemma ensure_host_pair:
  assumes "cx_inet cx ip = Some a"
  shows "\<exists>i s'. ensure_host cx t ip s = (Ok i, s') \<and> (i, a) \<in> set (hosts_of s')"
proof (cases "find (\<lambda>h. ho_ip h = a) (db_hosts s)")
  case None
  then show ?thesis using assms by (simp add: ensure_host_def Let_def hosts_of_def)
next
  case (Some h)
  then have h: "h \<in> set (db_hosts s)" "ho_ip h = a" by (auto simp: find_Some_iff)
  have "hosts_of (update_host (ho_id h) (\<lambda>h. h\<lparr>ho_last_seen := t\<rparr>) (s\<lparr>db_next_host := n\<rparr>)) = hosts_of s" for n
    by (subst update_host_hosts) (simp_all add: hosts_of_def)
  moreover have "(ho_id h, a) \<in> set (hosts_of s)" using h by (force simp: hosts_of_def)
  ultimately show ?thesis using assms Some by (simp add: ensure_host_def Let_def)
qed

lemma store_row_hosts: "db_hosts (snd (store_row cx t r s)) = db_hosts s"
  by (simp add: store_row_def insert_service_def Let_def case_prod_beta split: option.split)

lemma upsert_stores:
  assumes "sd_kind (pr_data r) \<noteq> ''firewalled''" "pr_port r \<noteq> 0" "pr_host_id r \<in> fst ` set (hosts_of s)"
  shows "\<exists>i s'. upsert_service cx t r s = (Ok i, s') \<and> hosts_of s' = hosts_of s"
proof -
  obtain y s1 where st: "store_row cx t r s = (y, s1)" by fastforce
  have k: "\<not> (pr_port r = 0 \<or> (\<forall>h\<in>set (db_hosts s). ho_id h \<noteq> pr_host_id r))"
    using assms(2,3) by (auto simp: hosts_of_def)
  have "\<exists>i. y = Ok i" using st unfolding store_row_def if_not_P [OF k] by (auto simp: Let_def split: prod.splits)
  moreover have "hosts_of s1 = hosts_of s" using store_row_hosts [of cx t r s] st by (simp add: hosts_of_def)
  ultimately show ?thesis using assms(1) by (auto simp: upsert_service_def st)
qed

section \<open>A probe that stores its service\<close>

definition asn_fits :: "pipeline \<Rightarrow> string \<Rightarrow> bool" where
  "asn_fits cx ip = (case cx_asn cx ip of Some (Some k, g) \<Rightarrow> unat k < 2 ^ 31 | _ \<Rightarrow> True)"

lemma update_asn_ok: "asn_fits cx ip \<Longrightarrow> \<exists>s'. update_asn cx t ip i s = (Ok (), s')"
  by (auto simp: asn_fits_def update_asn_def split: option.splits)

lemma probe_stores:
  assumes "cx_inet cx (clean_ip ip) = Some a" "examined cx (clean_ip ip) p n = Ok d" "asn_fits cx (clean_ip ip)"
  shows "\<exists>h s1 n1. probe cx clk ip p tr s n = (Ok (reported h (clean_ip ip) p tr d), s1, n1) \<and>
    (h, a) \<in> set (hosts_of s1)"
proof -
  let ?ip = "clean_ip ip"
  obtain o1 n1 where d: "dispatch (cx_env cx) ?ip p n = (o1, n1)" by fastforce
  obtain d0 where o1: "o1 = Ok d0" "identified cx (d0\<lparr>sd_port := Some p\<rparr>) = Ok d"
    using assms(2) by (cases o1) (auto simp: examined_def d)
  obtain h s2 where h: "ensure_host cx (clk 0) ?ip s = (Ok h, s2)" "(h, a) \<in> set (hosts_of s2)"
    using ensure_host_pair [OF assms(1)] by blast
  let ?s3 = "update_country cx (clk 2) ?ip h (update_dns cx (clk 1) ?ip h s2)"
  obtain s4 where a: "update_asn cx (clk 3) ?ip h ?s3 = (Ok (), s4)" using update_asn_ok [OF assms(3)] by blast
  have "hosts_of s4 = hosts_of s2" using arg_cong [OF a, of "\<lambda>x. hosts_of (snd x)"] by simp
  then show ?thesis using h a by (simp add: probe_def Let_def d o1 reported_def)
qed

text \<open>What is served depends on the services and hosts only.\<close>

lemma api_service_cong:
  "db_services s' = db_services s \<Longrightarrow> db_hosts s' = db_hosts s \<Longrightarrow> api_service i s' = api_service i s"
  by (simp add: api_service_def select_service_def joined_def)

lemma upserted_served:
  assumes "db_ok s" "upsert_service cx t r s = (Ok i, s')" "(pr_host_id r, a) \<in> set (hosts_of s')"
  shows "\<exists>v. api_service i s' = Reply (service_json v) \<and> vw_id v = i \<and> vw_ip v = host_text a \<and>
    vw_port v = uint (pr_port r) \<and> vw_transport v = pr_transport r \<and>
    vw_data v = sanitize_json_nulls (cx_ser cx (pr_data r)) \<and> vw_last_seen v = t"
proof -
  note u = upsert_result [OF assms(1,2)]
  obtain x where x: "x \<in> set (db_services s')" "sv_id x = i" "service_key x = service_key (result_row cx t r)"
    "sv_data x = sanitize_json_nulls (cx_ser cx (pr_data r))" "sv_last_seen x = t" using u by blast
  have key: "sv_host_id x = pr_host_id r" "sv_port x = uint (pr_port r)" "sv_transport x = pr_transport r"
    using x(3) by (simp_all add: service_key_def result_row_def)
  have ok: "db_ok s'" using u by blast
  from api_service_row [OF ok x(1)] obtain h where h: "h \<in> set (db_hosts s')" "ho_id h = sv_host_id x"
    "api_service i s' = Reply (service_json (view_of (x, h)))" unfolding x(2) by blast
  obtain h' where h': "h' \<in> set (db_hosts s')" "ho_id h' = pr_host_id r" "ho_ip h' = a"
    using assms(3) by (auto simp: hosts_of_def)
  have "distinct (map ho_id (db_hosts s'))" using ok by (simp add: db_ok_defs)
  then have "h = h'" using h(1,2) h'(1,2) key(1) by (auto simp: distinct_map inj_on_def)
  then show ?thesis using h(3) h' key x by (intro exI [of _ "view_of (x, h)"]) (simp add: view_of_def)
qed

text \<open>
  C5. An open port is probed, stored and served: when the dispatcher, tech detection and fingerprinting
  produce a document for the claimed row and the address is one the database takes, the probe completes the
  row, and from then on the API serves the document under its service's id, with the address, port and transport
  of the row and nothing lost but the NUL characters.
\<close>

theorem probed_port_served:
  assumes "db_ok s" "cx_inet cx (clean_ip ip) = Some a" "1 \<le> p" "p \<le> 65535" "asn_fits cx (clean_ip ip)"
    "examined cx (clean_ip ip) (of_int p) n = Ok d" "sd_kind d \<noteq> ''firewalled''"
  shows "let s' = fst (probe_job cx clk (i, ip, p, tr) s n)
    in db_ok s' \<and> i \<notin> row_id ` set (rows (db_probe_queue s')) \<and>
      (\<exists>v. api_service (vw_id v) s' = Reply (service_json v) \<and> vw_ip v = host_text a \<and> vw_port v = p \<and>
         vw_transport v = tr \<and> vw_data v = sanitize_json_nulls (cx_ser cx d) \<and> vw_last_seen v = clk 4)"
proof -
  obtain h s1 n1 where pr: "probe cx clk ip (of_int p) tr s n =
      (Ok (reported h (clean_ip ip) (of_int p) tr d), s1, n1)" "(h, a) \<in> set (hosts_of s1)"
    using probe_stores [OF assms(2,6,5)] by blast
  let ?r = "reported h (clean_ip ip) (of_int p) tr d"
  have s1: "db_ok s1" using db_ok_probe [OF assms(1), of cx clk ip "of_int p" tr n] pr by simp
  have u: "uint (of_int p :: u16) = p" using assms(3,4) by (simp add: uint_word_of_int_eq take_bit_int_eq_self)
  then have "of_int p \<noteq> (0 :: u16)" using assms(3) by (metis not_one_le_zero uint_0_eq)
  then obtain j s2 where up: "upsert_service cx (clk 4) ?r s1 = (Ok j, s2)" "hosts_of s2 = hosts_of s1"
    using upsert_stores [of ?r s1 cx "clk 4"] assms(7) pr(2) by (force simp: reported_def)
  have "(pr_host_id ?r, a) \<in> set (hosts_of s2)" using up(2) pr(2) by (simp add: reported_def)
  from upserted_served [OF s1 up(1) this] obtain v where v: "api_service j s2 = Reply (service_json v)" "vw_id v = j"
    "vw_ip v = host_text a" "vw_port v = p" "vw_transport v = tr"
    "vw_data v = sanitize_json_nulls (cx_ser cx d)" "vw_last_seen v = clk 4"
    using u by (auto simp: reported_def)
  let ?s = "maybe_enqueue_enrichments (\<lambda>k. clk (Suc k + 4)) j d s2"
  have job: "fst (probe_job cx clk (i, ip, p, tr) s n) = complete_probe i ?s"
    by (simp add: probe_job_def pr(1) after_probe_def up(1)) (simp add: reported_def)
  have "db_ok (complete_probe i ?s)"
    using db_ok_path [OF probe_job_refines assms(1), of cx clk "(i, ip, p, tr)" n] job by simp
  moreover have "i \<notin> row_id ` set (rows (db_probe_queue (complete_probe i ?s)))"
    by (auto simp: complete_probe_def complete_def)
  moreover have "api_service (vw_id v) (complete_probe i ?s) = Reply (service_json v)"
    using v(1,2) api_service_cong [of "complete_probe i ?s" s2 j]
    by (simp add: complete_probe_def maybe_enqueue_enrichments_def)
  ultimately show ?thesis unfolding job Let_def using v by blast
qed

theorem probed_port_served_witness:
  "\<exists>v. api_service (vw_id v) (fst (probe_job demo_pipeline (\<lambda>k. 9) (1, ''10.0.0.1/32'', 2000, ''tcp'') demo_db mikrotik_net)) =
      Reply (service_json v) \<and> vw_ip v = ''10.0.0.1'' \<and> vw_port v = 2000 \<and>
      vw_data v = JObj [(''kind'', JStr ''mikrotik'')]"
proof -
  have "cx_inet demo_pipeline (clean_ip ''10.0.0.1/32'') = Some ''10.0.0.1''"
    "asn_fits demo_pipeline (clean_ip ''10.0.0.1/32'')"
    "examined demo_pipeline (clean_ip ''10.0.0.1/32'') (of_int 2000) mikrotik_net = Ok mikrotik_service"
    "sd_kind mikrotik_service \<noteq> ''firewalled''"
    by code_simp+
  note r = probed_port_served [OF demo_db_ok this(1) _ _ this(2-4), of "\<lambda>k. 9" 1 "''tcp''"]
  have "host_text ''10.0.0.1'' = ''10.0.0.1''"
    "sanitize_json_nulls (cx_ser demo_pipeline mikrotik_service) = JObj [(''kind'', JStr ''mikrotik'')]"
    by code_simp+
  then show ?thesis using r by (auto simp: Let_def)
qed

end
