(* ===== verification/Router.thy ===== *)
theory Router
  imports Serve
begin

text \<open>
  The set-up of the database pool in \<open>src/db.rs\<close> and the route table of \<open>src/serve/mod.rs\<close>.  How axum matches
  a path against a pattern and decodes a parameter is a parameter of the model; \<open>segment_match\<close> is its
  documented behaviour for the two forms of pattern the table has.  The lemmas: the table is unambiguous, and
  the links to a service reach its handlers.
\<close>

section \<open>The pool\<close>

text \<open>\<open>env\<close> is the variable \<open>SCANERR_MAX_CONN\<close>.\<close>

definition max_conn :: "string option \<Rightarrow> u32" where
  "max_conn env =
     (case Option.bind env (parse_uint (2 ^ 32 - 1)) of Some n \<Rightarrow> of_nat n | None \<Rightarrow> 5)"

section \<open>The routes\<close>

datatype handler =
  Index | Search | HostDetail | ServiceDetail | Stats | ApiSearch | ApiHost | ApiService

definition create_router :: "(string \<times> handler) list" where
  "create_router =
     [(''/'', Index), (''/search'', Search), (''/hosts/:ip'', HostDetail), (''/service/:id'', ServiceDetail),
      (''/stats'', Stats), (''/status'', Stats), (''/api/search'', ApiSearch), (''/api/host/:ip'', ApiHost),
      (''/api/service/:id'', ApiService)]"

text \<open>The raw value of the parameter, empty for a pattern without one; the percent-decoding, if it is text.\<close>

record axum =
  ax_match :: "string \<Rightarrow> string \<Rightarrow> string option"
  ax_decode :: "string \<Rightarrow> string option"

datatype answer = Html "html reply" | Json "json reply" | Refused nat

definition with_text :: "axum \<Rightarrow> string \<Rightarrow> (string \<Rightarrow> answer) \<Rightarrow> answer" where
  "with_text ax raw k = (case ax_decode ax raw of Some x \<Rightarrow> k x | None \<Rightarrow> Refused 400)"

definition with_id :: "axum \<Rightarrow> string \<Rightarrow> (int \<Rightarrow> answer) \<Rightarrow> answer" where
  "with_id ax raw k =
     (case Option.bind (ax_decode ax raw) parse_i64 of Some i \<Rightarrow> k i | None \<Rightarrow> Refused 400)"

fun run_handler ::
  "axum \<Rightarrow> web \<Rightarrow> handler \<Rightarrow> string \<Rightarrow> (string \<rightharpoonup> string) \<Rightarrow> db \<Rightarrow> answer" where
  "run_handler ax w Index raw params s = Html (index w s)"
| "run_handler ax w Search raw params s = Html (search w params)"
| "run_handler ax w HostDetail raw params s = with_text ax raw (\<lambda>ip. Html (host_detail w ip s))"
| "run_handler ax w ServiceDetail raw params s = with_id ax raw (\<lambda>i. Html (service_detail w i s))"
| "run_handler ax w Stats raw params s = Html (stats w s)"
| "run_handler ax w ApiSearch raw params s = Json (api_search w params)"
| "run_handler ax w ApiHost raw params s = with_text ax raw (\<lambda>ip. Json (api_host ip s))"
| "run_handler ax w ApiService raw params s = with_id ax raw (\<lambda>i. Json (api_service i s))"

text \<open>A request by the method GET; every other path is not found.\<close>

definition serve_get :: "axum \<Rightarrow> web \<Rightarrow> string \<Rightarrow> (string \<rightharpoonup> string) \<Rightarrow> db \<Rightarrow> answer" where
  "serve_get ax w path params s =
     (case find (\<lambda>(pattern, h). ax_match ax pattern path \<noteq> None) create_router of
        None \<Rightarrow> Refused 404
      | Some (pattern, h) \<Rightarrow> run_handler ax w h (the (ax_match ax pattern path)) params s)"

section \<open>Matching\<close>

text \<open>
  The documented rule: a pattern without a parameter matches itself, and one that ends in a parameter matches
  its prefix followed by one segment that is not empty.
\<close>

definition segment_match :: "string \<Rightarrow> string \<Rightarrow> string option" where
  "segment_match pattern path =
     (let prefix = takeWhile (\<lambda>c. c \<noteq> CHR '':'') pattern; value = drop (length prefix) path
      in if prefix = pattern then if path = pattern then Some [] else None
         else if take (length prefix) path = prefix \<and> value \<noteq> [] \<and> CHR ''/'' \<notin> set value then Some value
         else None)"

text \<open>The patterns of the table, as prefix and whether a parameter follows.\<close>

definition route_prefixes :: "(string \<times> bool \<times> handler) list" where
  "route_prefixes =
     map (\<lambda>(p, h). (takeWhile (\<lambda>c. c \<noteq> CHR '':'') p, CHR '':'' \<in> set p, h)) create_router"

lemma match_cases:
  "segment_match pat path \<noteq> None \<Longrightarrow> CHR '':'' \<notin> set pat \<Longrightarrow> path = pat"
  "segment_match pat path \<noteq> None \<Longrightarrow> CHR '':'' \<in> set pat \<Longrightarrow>
   \<exists>v. path = takeWhile (\<lambda>c. c \<noteq> CHR '':'') pat @ v \<and> v \<noteq> [] \<and> CHR ''/'' \<notin> set v"
proof -
  show "path = pat" if "segment_match pat path \<noteq> None" "CHR '':'' \<notin> set pat"
  proof -
    have "takeWhile (\<lambda>c. c \<noteq> CHR '':'') pat = pat" unfolding takeWhile_eq_all_conv using that(2) by auto
    then show ?thesis using that(1) by (simp add: segment_match_def Let_def split: if_splits)
  qed
  show "\<exists>v. path = takeWhile (\<lambda>c. c \<noteq> CHR '':'') pat @ v \<and> v \<noteq> [] \<and> CHR ''/'' \<notin> set v"
    if "segment_match pat path \<noteq> None" "CHR '':'' \<in> set pat"
  proof -
    let ?p = "takeWhile (\<lambda>c. c \<noteq> CHR '':'') pat"
    have "?p \<noteq> pat" using that(2) by (metis (mono_tags, lifting) set_takeWhileD)
    then have m: "take (length ?p) path = ?p" "drop (length ?p) path \<noteq> []" "CHR ''/'' \<notin> set (drop (length ?p) path)"
      using that(1) by (auto simp only: segment_match_def Let_def if_False simp_thms split: if_splits)
    have "path = ?p @ drop (length ?p) path" using m(1) by (metis append_take_drop_id)
    then show ?thesis using m(2,3) by blast
  qed
qed

text \<open>The last slash of a path that matches: the directory is the pattern's, and so is the kind of the rest.\<close>

definition directory :: "string \<Rightarrow> string" where
  "directory path = rev (dropWhile (\<lambda>c. c \<noteq> CHR ''/'') (rev path))"

lemma directory_append: "CHR ''/'' \<notin> set v \<Longrightarrow> directory (p @ CHR ''/'' # v) = p @ [CHR ''/'']"
  by (simp add: directory_def dropWhile_append)

definition shape :: "string \<Rightarrow> string" where
  "shape pattern = (if CHR '':'' \<in> set pattern then directory pattern else pattern)"

lemma match_shape:
  assumes "segment_match pat path \<noteq> None" "pat \<in> fst ` set create_router"
  shows "(CHR '':'' \<in> set pat \<longrightarrow> directory path = shape pat) \<and> (CHR '':'' \<notin> set pat \<longrightarrow> path = shape pat)"
proof (cases "CHR '':'' \<in> set pat")
  case True
  have "\<forall>p\<in>fst ` set create_router. CHR '':'' \<in> set p \<longrightarrow>
      shape p = takeWhile (\<lambda>c. c \<noteq> CHR '':'') p \<and> last (shape p) = CHR ''/'' \<and> shape p \<noteq> []"
    by code_simp
  then have s: "shape pat = takeWhile (\<lambda>c. c \<noteq> CHR '':'') pat" "last (shape pat) = CHR ''/''" "shape pat \<noteq> []"
    using assms(2) True by blast+
  obtain v where v: "path = shape pat @ v" "CHR ''/'' \<notin> set v"
    using match_cases(2) [OF assms(1) True] s(1) by auto
  have b: "shape pat = butlast (shape pat) @ [CHR ''/'']" using s(2,3) by (metis append_butlast_last_id)
  then have "path = butlast (shape pat) @ CHR ''/'' # v" using v(1) by (metis append.assoc append_Cons append_Nil)
  then have "directory path = shape pat" using directory_append [OF v(2)] b by metis
  then show ?thesis using True by blast
next
  case False
  then show ?thesis using match_cases(1) [OF assms(1) False] by (simp add: shape_def)
qed

text \<open>At most one pattern matches a path.\<close>

lemma routes_unambiguous:
  assumes "(pat, h) \<in> set create_router" "(pat', h') \<in> set create_router"
    "segment_match pat path \<noteq> None" "segment_match pat' path \<noteq> None"
  shows "pat = pat' \<and> h = h'"
proof -
  have s: "(CHR '':'' \<in> set pat \<longrightarrow> directory path = shape pat) \<and> (CHR '':'' \<notin> set pat \<longrightarrow> path = shape pat)"
    "(CHR '':'' \<in> set pat' \<longrightarrow> directory path = shape pat') \<and> (CHR '':'' \<notin> set pat' \<longrightarrow> path = shape pat')"
    using match_shape assms by (metis fst_conv image_eqI)+
  have "\<forall>p\<in>set create_router. \<forall>q\<in>set create_router.
      (CHR '':'' \<in> set (fst p) \<longleftrightarrow> CHR '':'' \<in> set (fst q)) \<and> shape (fst p) = shape (fst q) \<longrightarrow> p = q"
    by code_simp
  moreover have "\<forall>p\<in>set create_router. \<forall>q\<in>set create_router.
      CHR '':'' \<in> set (fst p) \<and> CHR '':'' \<notin> set (fst q) \<longrightarrow> directory (shape (fst q)) \<noteq> shape (fst p)"
    by code_simp
  ultimately show ?thesis using assms(1,2) s by (metis fst_conv prod.inject)
qed

lemma serve_get_route:
  assumes "\<And>pat path. ax_match ax pat path = segment_match pat path"
    "(pat, h) \<in> set create_router" "segment_match pat path = Some raw"
  shows "serve_get ax w path params s = run_handler ax w h raw params s"
proof -
  let ?P = "\<lambda>(p, h). ax_match ax p path \<noteq> None"
  obtain x where x: "find ?P create_router = Some x"
    using assms by (cases "find ?P create_router") (auto simp: find_None_iff)
  then have "x \<in> set create_router" "?P x" by (auto simp: find_Some_iff in_set_conv_nth simp del: nth_mem)
  then have "x = (pat, h)" using routes_unambiguous [of "fst x" "snd x" pat h path] assms
    by (auto split: prod.splits)
  then show ?thesis using x assms by (simp add: serve_get_def)
qed




text \<open>The address under which the documents of a service are linked reaches that service.\<close>

lemma parse_i64_dec: "n < 2 ^ 63 \<Longrightarrow> parse_i64 (dec n) = Some (int n)"
proof -
  assume n: "n < 2 ^ 63"
  have "hd (dec n) \<noteq> CHR ''-''" if "dec n \<noteq> []"
    using dec_digits [of "hd (dec n)" n] that by (auto simp: is_digit_def byte_def)
  then show ?thesis using n by (auto simp: parse_i64_def parse_uint_dec)
qed

lemma service_segment: "segment_match ''/api/service/:id'' (''/api/service/'' @ dec n) = Some (dec n)"
proof -
  have "takeWhile (\<lambda>c. c \<noteq> CHR '':'') ''/api/service/:id'' = ''/api/service/''" by code_simp
  moreover have "CHR ''/'' \<notin> set (dec n)" using dec_digits [of "CHR ''/''" n] by (auto simp: is_digit_def byte_def)
  moreover have "dec n \<noteq> []" using digits_value_dec [of n] parse_uint_dec [of n n] by (auto simp: parse_uint_def)
  ultimately show ?thesis unfolding segment_match_def Let_def by simp
qed

lemma service_link:
  assumes "\<And>pat path. ax_match ax pat path = segment_match pat path"
    "ax_decode ax (dec n) = Some (dec n)" "n < 2 ^ 63"
  shows "serve_get ax w (''/api/service/'' @ dec n) params s = Json (api_service (int n) s)"
proof -
  have "(''/api/service/:id'', ApiService) \<in> set create_router" by code_simp
  from serve_get_route [OF assms(1) this service_segment]
  show ?thesis using parse_i64_dec [OF assms(3)] assms(2) by (simp add: with_id_def)
qed

end
