(* ===== verification/Loader.thy ===== *)
theory Loader
  imports Fingerprint
begin

text \<open>
  Loading the signature corpus, \<open>crates/scanerr-fingerprint/src/loader.rs\<close>, and the construction of the
  engine from it.  A directory tree is a datatype whose directories may be unreadable, and the YAML parser
  is a parameter.  The lemmas: a readable tree yields the signatures of all its well-formed files in order,
  one unreadable directory loses the whole corpus.
\<close>

section \<open>Directory trees\<close>

text \<open>
  A file has a text unless it cannot be read; a directory has the list of its entries unless it cannot be
  read, and an entry may fail too.
\<close>

datatype fs_node = File "string option" | ClosedDir | OpenDir "fs_entry list"
  and fs_entry = BadEntry | Entry string fs_node

text \<open>\<open>Path::extension\<close> of a file name: what follows its last dot, unless that is its first character.\<close>

definition extension :: "string \<Rightarrow> string option" where
  "extension name =
     (let rev_ext = takeWhile (\<lambda>c. c \<noteq> CHR ''.'') (rev name)
      in if length rev_ext + 1 < length name then Some (rev rev_ext) else None)"

definition is_signature_file :: "string \<Rightarrow> bool" where
  "is_signature_file name = (case extension name of Some e \<Rightarrow> e = ''yaml'' \<or> e = ''yml'' | None \<Rightarrow> False)"

definition load_file :: "(string \<Rightarrow> signature option) \<Rightarrow> string option \<Rightarrow> signature option" where
  "load_file parse text = (case text of None \<Rightarrow> None | Some t \<Rightarrow> parse t)"

text \<open>\<open>load_recursive\<close> on the entries of a directory; \<open>None\<close> is the error that ends the whole load.\<close>

fun load_recursive :: "(string \<Rightarrow> signature option) \<Rightarrow> fs_node \<Rightarrow> signature list option"
  and load_entries :: "(string \<Rightarrow> signature option) \<Rightarrow> fs_entry list \<Rightarrow> signature list option"
where
  "load_recursive parse (File t) = None"
| "load_recursive parse ClosedDir = None"
| "load_recursive parse (OpenDir es) = load_entries parse es"
| "load_entries parse [] = Some []"
| "load_entries parse (BadEntry # es) = None"
| "load_entries parse (Entry name (File t) # es) =
     (case (if is_signature_file name then load_file parse t else None) of
        Some sig \<Rightarrow> map_option (Cons sig) (load_entries parse es)
      | None \<Rightarrow> load_entries parse es)"
| "load_entries parse (Entry name d # es) =
     (case load_recursive parse d of
        None \<Rightarrow> None
      | Some sigs \<Rightarrow> map_option (\<lambda>rest. sigs @ rest) (load_entries parse es))"

definition load_dir :: "(string \<Rightarrow> signature option) \<Rightarrow> fs_node option \<Rightarrow> signature list option" where
  "load_dir parse node = (case node of None \<Rightarrow> None | Some n \<Rightarrow> load_recursive parse n)"

definition from_signatures ::
  "(string \<Rightarrow> (string \<Rightarrow> bool) option) \<Rightarrow> signature list \<Rightarrow> compiled_signature list" where
  "from_signatures re raw = map (compile re) raw"

definition from_dir ::
  "(string \<Rightarrow> (string \<Rightarrow> bool) option) \<Rightarrow> (string \<Rightarrow> signature option) \<Rightarrow> fs_node option \<Rightarrow>
   compiled_signature list" where
  "from_dir re parse node =
     from_signatures re (case load_dir parse node of Some sigs \<Rightarrow> sigs | None \<Rightarrow> [])"

section \<open>What is loaded\<close>

text \<open>Whether everything of a tree can be read, and its files in the order of the walk.\<close>

fun readable :: "fs_node \<Rightarrow> bool" and readable_entries :: "fs_entry list \<Rightarrow> bool" where
  "readable (File t) = True"
| "readable ClosedDir = False"
| "readable (OpenDir es) = readable_entries es"
| "readable_entries [] = True"
| "readable_entries (BadEntry # es) = False"
| "readable_entries (Entry name n # es) = (readable n \<and> readable_entries es)"

fun files :: "fs_node \<Rightarrow> (string \<times> string option) list"
  and files_in :: "fs_entry list \<Rightarrow> (string \<times> string option) list" where
  "files (File t) = []"
| "files ClosedDir = []"
| "files (OpenDir es) = files_in es"
| "files_in [] = []"
| "files_in (BadEntry # es) = files_in es"
| "files_in (Entry name (File t) # es) = (name, t) # files_in es"
| "files_in (Entry name d # es) = files d @ files_in es"

definition loaded :: "(string \<Rightarrow> signature option) \<Rightarrow> (string \<times> string option) list \<Rightarrow> signature list" where
  "loaded parse fs =
     List.map_filter (\<lambda>(name, t). if is_signature_file name then load_file parse t else None) fs"

lemma loaded_simps [simp]:
  "loaded parse [] = []"
  "loaded parse ((name, t) # fs) =
     (case (if is_signature_file name then load_file parse t else None) of
        Some sig \<Rightarrow> sig # loaded parse fs | None \<Rightarrow> loaded parse fs)"
  "loaded parse (fs @ gs) = loaded parse fs @ loaded parse gs"
  by (simp_all add: loaded_def List.map_filter_def split: option.split)

lemma load_walk:
  "load_recursive parse n =
     (case n of File t \<Rightarrow> None | _ \<Rightarrow> if readable n then Some (loaded parse (files n)) else None)"
  "load_entries parse es = (if readable_entries es then Some (loaded parse (files_in es)) else None)"
  by (induction parse n and parse es rule: load_recursive_load_entries.induct)
    (auto split: option.split)

text \<open>
  The engine is built from the signatures of every well-formed YAML file under its directory, in the
  order of the walk; a malformed file is skipped, but one directory or entry that cannot be read, at any
  depth, leaves the engine without any signature.
\<close>

theorem from_dir_spec:
  "from_dir re parse (Some (OpenDir es)) =
     (if readable_entries es then map (compile re) (loaded parse (files_in es)) else [])"
  by (simp add: from_dir_def from_signatures_def load_dir_def load_walk)

end
