(* ===== verification/Startup.thy ===== *)
theory Startup
  imports Progress Journey Router Commands
begin

text \<open>
  \<open>main\<close> of \<open>src/main.rs\<close>: which commands run without a database, which of the loops of \<open>Loops\<close> and which
  passes over the services the others start.
\<close>

text \<open>The subcommands of \<open>Commands\<close>; the constructors of the stages carry the prefix \<open>Run\<close>.\<close>

datatype command =
  RunSweep | RunDeepscan | RunProbe | RunEnrich | RunServe | RunAll | RunNormalize | RunReidentify
| TestScan string | TestProbe string | TestSweep string | TestEnrich string string

text \<open>The tasks a command starts, \<open>run_sweep\<close> to \<open>run_serve\<close>.\<close>

datatype stage = SweepStage | DeepscanStage | ProbeStage | EnrichStage | ServeStage

datatype run =
    Printed "string list outcome"
  | NoDatabase
  | Staged "stage list"
  | Rewritten pass_result

text \<open>
  What surrounds the program: the outcome of reading \<open>scanerr.toml\<close>, the scanner, the first scan id, the
  signatures below a directory, the rest of the pipeline, the enrichers' world, the printer, the network of a
  test probe, whether the database can be reached and migrated, and its contents.
\<close>

record surroundings =
  su_config :: "config outcome"
  su_system :: scan_system
  su_id :: "64 word"
  su_signatures :: "string \<Rightarrow> compiled_signature list"
  su_pipeline :: pipeline
  su_enrich :: enrich_env
  su_pretty :: "json \<Rightarrow> string"
  su_net :: net
  su_connects :: bool
  su_migrates :: bool
  su_state :: enrich_state

text \<open>\<open>Engine::from_dir\<close> of the configured directory.\<close>

definition pipeline_of :: "surroundings \<Rightarrow> config \<Rightarrow> pipeline" where
  "pipeline_of u cfg = (su_pipeline u)\<lparr>cx_signatures := su_signatures u (sigc_dir (cfg_signatures cfg))\<rparr>"

definition documents :: "db \<Rightarrow> service_table" where
  "documents s = map (\<lambda>r. (sv_id r, sv_data r)) (db_services s)"

definition test_command :: "surroundings \<Rightarrow> config \<Rightarrow> command \<Rightarrow> string list outcome option" where
  "test_command u cfg c =
     (case c of
        TestScan ip \<Rightarrow> Some (test_scan (su_system u) (su_id u) cfg ip)
      | TestProbe target \<Rightarrow> Some (test_probe (pipeline_of u cfg) (su_pretty u) target (su_net u))
      | TestSweep cidr \<Rightarrow> Some (test_sweep (su_system u) (su_id u) cfg cidr)
      | TestEnrich kind target \<Rightarrow>
          Some (bind_outcome (run_standalone (su_enrich u) (su_pretty u) kind target (su_state u)) (\<lambda>x. Ok [x]))
      | _ \<Rightarrow> None)"

definition stages :: "command \<Rightarrow> stage list" where
  "stages c =
     (case c of
        RunSweep \<Rightarrow> [SweepStage] | RunDeepscan \<Rightarrow> [DeepscanStage] | RunProbe \<Rightarrow> [ProbeStage]
      | RunEnrich \<Rightarrow> [EnrichStage] | RunServe \<Rightarrow> [ServeStage]
      | RunAll \<Rightarrow> [SweepStage, DeepscanStage, ProbeStage, EnrichStage, ServeStage]
      | _ \<Rightarrow> [])"

definition main_run :: "surroundings \<Rightarrow> command \<Rightarrow> run" where
  "main_run u c =
     (let cfg = startup_config (su_config u)
      in case test_command u cfg c of
           Some r \<Rightarrow> Printed r
         | None \<Rightarrow>
             if \<not> su_connects u \<or> \<not> su_migrates u then NoDatabase
             else if c = RunNormalize then
               Rewritten (backfill (cx_de (su_pipeline u)) (cx_ser (su_pipeline u)) (cx_lc (su_pipeline u))
                 (documents (es_db (su_state u))))
             else if c = RunReidentify then
               Rewritten (reidentify_http (pipeline_of u cfg) (documents (es_db (su_state u))))
             else Staged (stages c))"

lemma test_needs_no_database:
  "test_command u cfg c \<noteq> None \<Longrightarrow> cfg = startup_config (su_config u) \<Longrightarrow>
   main_run (u\<lparr>su_connects := b, su_migrates := b'\<rparr>) c = main_run u c"
  by (auto simp: main_run_def test_command_def pipeline_of_def Let_def split: command.splits)

end
