(* ===== verification/Fifo.thy ===== *)
theory Fifo
  imports Stages
begin

text \<open>
  The abstract queue behind the tables: a list of keys with their leases, in the order in which they were
  queued.  The lemmas: the ids of the rows ascend in every reachable database, so the identity column that the
  claim sorts by is the order of insertion, and the statements on the tables refine the operations on the list.
\<close>

section \<open>The abstract queue\<close>

type_synonym 'k fifo = "('k \<times> int option) list"

definition open_at :: "int \<Rightarrow> int option \<Rightarrow> bool" where
  "open_at t lease \<longleftrightarrow> (case lease of None \<Rightarrow> 0 | Some u \<Rightarrow> u) < t"

definition fifo_insert :: "'k \<Rightarrow> 'k fifo \<Rightarrow> 'k fifo" where
  "fifo_insert k es = (if k \<in> fst ` set es then es else es @ [(k, None)])"

text \<open>The first \<open>b\<close> open keys from the front, and the queue with them leased.\<close>

fun fifo_claim :: "nat \<Rightarrow> int \<Rightarrow> 'k fifo \<Rightarrow> 'k list \<times> 'k fifo" where
  "fifo_claim b t [] = ([], [])"
| "fifo_claim b t ((k, lease) # es) =
     (if 0 < b \<and> open_at t lease
      then (let (ks, es) = fifo_claim (b - 1) t es in (k # ks, (k, Some (t + lease_secs)) # es))
      else (let (ks, es) = fifo_claim b t es in (ks, (k, lease) # es)))"

definition fifo_remove :: "'k \<Rightarrow> 'k fifo \<Rightarrow> 'k fifo" where
  "fifo_remove k es = filter (\<lambda>e. fst e \<noteq> k) es"

definition fifo_of :: "('a \<Rightarrow> 'k) \<Rightarrow> 'a queue \<Rightarrow> 'k fifo" where
  "fifo_of key q = map (\<lambda>r. (key (item r), claimed_until r)) (rows q)"

section \<open>The order of the rows\<close>

definition in_order :: "'a queue \<Rightarrow> bool" where
  "in_order q \<longleftrightarrow> sorted (map row_id (rows q))"

definition db_in_order :: "db \<Rightarrow> bool" where
  "db_in_order s \<longleftrightarrow> in_order (db_host_queue s) \<and> in_order (db_probe_queue s) \<and> in_order (db_enrich_queue s)"

lemma in_order_map: "(\<And>r. row_id (f r) = row_id r) \<Longrightarrow> in_order (q\<lparr>rows := map f (rows q)\<rparr>) = in_order q"
  by (simp add: in_order_def comp_def)

lemma in_order_filter: "in_order q \<Longrightarrow> in_order (q\<lparr>rows := filter P (rows q)\<rparr>)"
  by (simp add: in_order_def sorted_filter)

lemma in_order_insert: "queue_ok key q \<Longrightarrow> in_order q \<Longrightarrow> in_order (insert_row key x q)"
  by (auto simp: in_order_def insert_row_def queue_ok_def sorted_append less_imp_le)

lemma in_order_ops [simp]:
  "in_order (snd (claim_rows b t l q)) = in_order q" "in_order (increment_attempts i q) = in_order q"
  "in_order (requeue m t q) = in_order q" "in_order (q\<lparr>next_id := n\<rparr>) = in_order q"
  by (simp_all add: claim_rows_def increment_attempts_def update_row_def requeue_def Let_def in_order_map)
    (simp add: in_order_def)

lemma in_order_removes:
  "in_order q \<Longrightarrow> in_order (complete i q)" "in_order q \<Longrightarrow> in_order (snd (drop_dead m t q))"
  by (simp_all add: complete_def drop_dead_def Let_def in_order_filter)

lemma in_order_inserts:
  "queue_ok id h \<Longrightarrow> in_order h \<Longrightarrow> in_order (snd (insert_host_scan f ip h))"
  "queue_ok probe_key p \<Longrightarrow> in_order p \<Longrightarrow> in_order (snd (insert_service_probe f ip n tr p))"
  "queue_ok enrich_key e \<Longrightarrow> in_order e \<Longrightarrow> in_order (snd (insert_enrichment ids i k t e))"
  by (auto simp: insert_host_scan_def insert_service_probe_def insert_enrichment_def Let_def in_order_insert
      split: option.split)

lemma db_in_order_step: "db_step cx s s' \<Longrightarrow> db_ok s \<Longrightarrow> db_in_order s \<Longrightarrow> db_in_order s'"
  by (induction rule: db_step.induct)
    (auto simp: db_in_order_def db_ok_defs in_order_inserts in_order_removes complete_host_def complete_probe_def
      mark_ip_def mark_honeypot_def ensure_host_def update_dns_def update_country_def update_asn_def store_row_def
      insert_service_def enqueue_def Let_def case_prod_beta split: option.split outcome.split)

lemma db_in_order_path:
  "db_path cx empty_db s \<Longrightarrow> db_ok s \<and> db_in_order s"
proof (induction rule: rtranclp_induct)
  case base
  then show ?case by (simp add: db_ok_empty) (simp add: db_in_order_def empty_db_def in_order_def empty_queue_def)
next
  case (step s s')
  then show ?case using db_ok_step db_in_order_step by blast
qed

section \<open>Refinement\<close>

lemma claim_ids_in_order:
  "in_order q \<Longrightarrow> claim_ids b t [] q = take b (map row_id (filter (claimable t) (rows q)))"
  by (simp add: claim_ids_def in_order_def sorted_filter sorted_sort_id sort_key_id_if_sorted)

lemma fifo_claim_rows:
  assumes "distinct (map row_id rs)"
  shows "fifo_claim b t (map (\<lambda>r. (key (item r), claimed_until r)) rs) =
    (let I = set (take b (map row_id (filter (claimable t) rs)))
     in (map (\<lambda>r. key (item r)) (filter (\<lambda>r. row_id r \<in> I) rs),
         map (\<lambda>r. (key (item r), if row_id r \<in> I then Some (t + lease_secs) else claimed_until r)) rs))"
  using assms
proof (induction rs arbitrary: b)
  case (Cons r rs)
  have d: "row_id r \<notin> row_id ` set rs" "distinct (map row_id rs)" using Cons.prems by auto
  have o: "open_at t (claimed_until r) = claimable t r" by (simp add: open_at_def claimable_def)
  show ?case
  proof (cases "0 < b \<and> claimable t r")
    case True
    then obtain c where b: "b = Suc c" by (cases b) auto
    let ?J = "set (take c (map row_id (filter (claimable t) rs)))"
    have e: "set (take b (map row_id (filter (claimable t) (r # rs)))) = insert (row_id r) ?J"
      using True b by simp
    have "row_id x \<noteq> row_id r" if "x \<in> set rs" for x using that d(1) by (metis image_eqI)
    then have "filter (\<lambda>x. row_id x \<in> insert (row_id r) ?J) rs = filter (\<lambda>x. row_id x \<in> ?J) rs"
      "map (\<lambda>x. (key (item x), if row_id x \<in> insert (row_id r) ?J then Some (t + lease_secs) else claimed_until x)) rs =
       map (\<lambda>x. (key (item x), if row_id x \<in> ?J then Some (t + lease_secs) else claimed_until x)) rs"
      by (auto intro!: filter_cong)
    then show ?thesis using Cons.IH [OF d(2), of c] True b o unfolding Let_def e by simp
  next
    case False
    let ?J = "set (take b (map row_id (filter (claimable t) rs)))"
    have e: "set (take b (map row_id (filter (claimable t) (r # rs)))) = ?J" using False by auto
    have "?J \<subseteq> row_id ` set rs" by (auto dest!: in_set_takeD)
    then have "row_id r \<notin> ?J" using d(1) by blast
    have n: "\<not> (0 < b \<and> open_at t (claimed_until r))" using False o by simp
    show ?thesis using Cons.IH [OF d(2), of b] \<open>row_id r \<notin> ?J\<close>
      unfolding Let_def e list.map fifo_claim.simps if_not_P [OF n] by simp
  qed
qed simp

lemma fifo_claim_refines:
  assumes "queue_ok key q" "in_order q"
  shows "fifo_claim b t (fifo_of key q) =
    (map (\<lambda>r. key (item r)) (fst (claim_rows b t [] q)), fifo_of key (snd (claim_rows b t [] q)))"
proof -
  have "distinct (map row_id (rows q))" using assms(1) by (rule queue_ok_ids)
  note f = fifo_claim_rows [OF this, of b t key]
  show ?thesis
    by (simp add: fifo_of_def f claim_rows_def Let_def claim_ids_in_order [OF assms(2)])
qed

lemma fifo_insert_refines: "fifo_of key (insert_row key x q) = fifo_insert (key x) (fifo_of key q)"
proof -
  have "key x \<in> fst ` set (fifo_of key q) \<longleftrightarrow> (\<exists>r\<in>set (rows q). key (item r) = key x)"
    by (simp add: fifo_of_def image_image image_iff) metis
  then show ?thesis by (simp add: fifo_insert_def) (simp add: fifo_of_def insert_row_def)
qed

lemma fifo_remove_refines:
  assumes "queue_ok key q" "r \<in> set (rows q)"
  shows "fifo_of key (complete (row_id r) q) = fifo_remove (key (item r)) (fifo_of key q)"
proof -
  have "row_id x = row_id r \<longleftrightarrow> key (item x) = key (item r)" if "x \<in> set (rows q)" for x
    using assms that by (auto simp: queue_ok_def distinct_map inj_on_def)
  then have "filter (\<lambda>x. row_id x \<noteq> row_id r) (rows q) = filter (\<lambda>x. key (item x) \<noteq> key (item r)) (rows q)"
    by (intro filter_cong) auto
  then show ?thesis by (simp add: fifo_of_def complete_def fifo_remove_def filter_map comp_def)
qed

text \<open>
  C7. The table of the probes is a queue: in every reachable database, inserting a probe puts its key at the
  end unless it is queued already, a claim takes the first open keys in the order in which they were queued
  and leases exactly these, and completing a row removes its key, nothing else moving.
\<close>

theorem probe_queue_fifo:
  assumes "db_path cx empty_db s"
  shows "let q = db_probe_queue s; es = fifo_of probe_key q
    in fifo_of probe_key (snd (insert_service_probe inet ip p tr q)) =
        (case inet ip of
           Some a \<Rightarrow> if 1 \<le> p \<and> p \<le> 65535 then fifo_insert (a, p, tr) es else es
         | None \<Rightarrow> es) \<and>
      fifo_claim b t es =
        (map snd (fst (claim_service_probes b t [] q)), fifo_of probe_key (snd (claim_service_probes b t [] q))) \<and>
      (\<forall>r\<in>set (rows q). fifo_of probe_key (complete (row_id r) q) = fifo_remove (probe_key (item r)) es)"
proof -
  let ?q = "db_probe_queue s"
  have ok: "queue_ok probe_key ?q" "in_order ?q"
    using db_in_order_path [OF assms] by (simp_all add: db_ok_defs db_in_order_def)
  have bump: "fifo_of probe_key (?q\<lparr>next_id := n\<rparr>) = fifo_of probe_key ?q" for n by (simp add: fifo_of_def)
  have "map snd (fst (claim_service_probes b t [] ?q)) = map (\<lambda>r. probe_key (item r)) (fst (claim_rows b t [] ?q))"
    by (simp add: claim_service_probes_eq probe_key_def)
  then show ?thesis
    using fifo_claim_refines [OF ok] fifo_remove_refines [OF ok(1)]
    by (auto simp: Let_def insert_service_probe_def fifo_insert_refines bump probe_key_def split: option.split)
qed

theorem probe_queue_fifo_witness:
  "let q = insert_row probe_key \<lparr>sp_ip = ''10.0.0.1'', sp_port = 80, sp_transport = ''tcp''\<rparr> empty_queue
   in fifo_claim 10 1000 (fifo_of probe_key q) =
        ([(''10.0.0.1'', 80, ''tcp'')], fifo_of probe_key (snd (claim_service_probes 10 1000 [] q)))"
proof -
  let ?q = "insert_row probe_key \<lparr>sp_ip = ''10.0.0.1'', sp_port = 80, sp_transport = ''tcp''\<rparr> empty_queue"
  have "db_step demo_pipeline empty_db (empty_db\<lparr>db_probe_queue := ?q\<rparr>)"
    using found_port [of demo_pipeline empty_db "''10.0.0.1''" 80 "''tcp''"]
    by (simp add: insert_service_probe_def demo_pipeline_def empty_db_def)
  then have "db_path demo_pipeline empty_db (empty_db\<lparr>db_probe_queue := ?q\<rparr>)" by (rule r_into_rtranclp)
  from probe_queue_fifo [OF this, of Some "[]" 0 "[]" 10 1000]
  have "fifo_claim 10 1000 (fifo_of probe_key ?q) =
      (map snd (fst (claim_service_probes 10 1000 [] ?q)), fifo_of probe_key (snd (claim_service_probes 10 1000 [] ?q)))"
    by (simp add: Let_def)
  moreover have "map snd (fst (claim_service_probes 10 1000 [] ?q)) = [(''10.0.0.1'', 80, ''tcp'')]" by code_simp
  ultimately show ?thesis by (simp add: Let_def)
qed

end
