(* ===== verification/Certificates.thy ===== *)
theory Certificates
  imports Models
begin

text \<open>
  The certificate data of a TLS connection, \<open>crates/scanerr-protocol/src/tls.rs\<close>.  The handshake and the
  X.509 parser are parameters: a parsed certificate gives its two names, each a list of relative
  distinguished names with attributes (object identifier and raw value), and their printed forms.  The
  lemmas: which attribute is chosen.
\<close>

type_synonym x509_name = "(string \<times> u8 list) list list"

record x509_cert =
  xc_subject :: x509_name
  xc_issuer :: x509_name
  xc_subject_text :: string
  xc_issuer_text :: string

text \<open>\<open>find_attr\<close>: the two nested loops; a value that is not UTF-8 is passed over.\<close>

fun find_in_rdn :: "(string \<times> u8 list) list \<Rightarrow> string \<Rightarrow> string option" where
  "find_in_rdn [] target = None"
| "find_in_rdn ((oid, raw) # attrs) target =
     (if oid = target then (case from_utf8 raw of Some v \<Rightarrow> Some v | None \<Rightarrow> find_in_rdn attrs target)
      else find_in_rdn attrs target)"

fun find_attr :: "x509_name \<Rightarrow> string \<Rightarrow> string option" where
  "find_attr [] target = None"
| "find_attr (rdn # rdns) target =
     (case find_in_rdn rdn target of Some v \<Rightarrow> Some v | None \<Rightarrow> find_attr rdns target)"

definition no_ssl_data :: ssl_data where
  "no_ssl_data = \<lparr>ssl_subject_cn = None, ssl_issuer_cn = None, ssl_self_signed = False\<rparr>"

definition common_name :: "x509_name \<Rightarrow> string option" where
  "common_name n =
     (case find_attr n ''2.5.4.3'' of Some v \<Rightarrow> Some v | None \<Rightarrow> find_attr n ''2.5.4.10'')"

definition ssl_data_of :: "(u8 list \<Rightarrow> x509_cert option) \<Rightarrow> u8 list option \<Rightarrow> ssl_data" where
  "ssl_data_of from_der cert =
     (case cert of
        None \<Rightarrow> no_ssl_data
      | Some der \<Rightarrow>
          (case from_der der of
             None \<Rightarrow> no_ssl_data
           | Some parsed \<Rightarrow>
               \<lparr>ssl_subject_cn = common_name (xc_subject parsed),
                ssl_issuer_cn = common_name (xc_issuer parsed),
                ssl_self_signed = (xc_subject_text parsed = xc_issuer_text parsed)\<rparr>))"

text \<open>
  \<open>connect\<close>: the connection, the server name, the handshake, then the first certificate of the peer.
  \<open>None\<close> is the error of one of the first three.
\<close>

definition tls_connect ::
  "(string \<Rightarrow> u16 \<Rightarrow> u8 list list option option) \<Rightarrow> (u8 list \<Rightarrow> x509_cert option) \<Rightarrow> string \<Rightarrow> u16 \<Rightarrow>
   ssl_data option" where
  "tls_connect handshake from_der ip port =
     (case handshake ip port of
        None \<Rightarrow> None
      | Some certs \<Rightarrow>
          Some (ssl_data_of from_der (case certs of Some (c # _) \<Rightarrow> Some c | _ \<Rightarrow> None)))"

lemma find_in_rdn_first:
  "find_in_rdn attrs target =
     map_option (\<lambda>(oid, raw). as_str raw) (find (\<lambda>(oid, raw). oid = target \<and> valid_utf8 raw) attrs)"
  by (induction attrs target rule: find_in_rdn.induct) (auto simp: from_utf8_def)

text \<open>
  The attribute chosen is the first of that type, in the order of the whole name, whose value is UTF-8.
\<close>

lemma find_attr_first:
  "find_attr n target =
     map_option (\<lambda>(oid, raw). as_str raw) (find (\<lambda>(oid, raw). oid = target \<and> valid_utf8 raw) (concat n))"
proof -
  have "find P (xs @ ys) = (case find P xs of Some x \<Rightarrow> Some x | None \<Rightarrow> find P ys)"
    for P :: "string \<times> u8 list \<Rightarrow> bool" and xs ys by (induction xs) auto
  then show ?thesis by (induction n target rule: find_attr.induct)
      (auto simp: find_in_rdn_first split: option.split)
qed

end
