(* ===== verification/GeoIp.thy ===== *)
theory GeoIp
  imports Pipeline "HOL-Library.Monad_Syntax"
begin

text \<open>
  The GeoIP lookups, \<open>crates/scanerr-protocol/src/geoip.rs\<close>.  A reader is a partial function from parsed
  addresses to records; opening a database file and parsing an address are parameters.  The lemma connects
  the lookups with the fields \<open>cx_city\<close> and \<open>cx_asn\<close> of the pipeline.
\<close>

record asn_record =
  ar_number :: "u32 option"
  ar_organization :: "string option"

record geo_info =
  gi_country_code :: "string option"
  gi_asn :: "u32 option"
  gi_org :: "string option"

text \<open>A city record is its country, if it has one, with the ISO code, if that has one.\<close>

record 'ip geo_ip =
  gp_city :: "('ip \<Rightarrow> string option option option) option"
  gp_asn :: "('ip \<Rightarrow> asn_record option) option"

definition geo_open ::
  "(string \<Rightarrow> ('ip \<Rightarrow> string option option option) option) \<Rightarrow> (string \<Rightarrow> ('ip \<Rightarrow> asn_record option) option) \<Rightarrow>
   string option \<Rightarrow> string option \<Rightarrow> 'ip geo_ip" where
  "geo_open open_city open_asn geoip_db asn_db =
     \<lparr>gp_city = Option.bind geoip_db open_city, gp_asn = Option.bind asn_db open_asn\<rparr>"

definition geo_lookup :: "(string \<Rightarrow> 'ip option) \<Rightarrow> 'ip geo_ip \<Rightarrow> string \<Rightarrow> geo_info option" where
  "geo_lookup parse g ip =
     do { reader \<leftarrow> gp_city g;
          a \<leftarrow> parse ip;
          country \<leftarrow> reader a;
          Some \<lparr>gi_country_code = Option.bind country id, gi_asn = None, gi_org = None\<rparr> }"

definition geo_lookup_asn :: "(string \<Rightarrow> 'ip option) \<Rightarrow> 'ip geo_ip \<Rightarrow> string \<Rightarrow> geo_info option" where
  "geo_lookup_asn parse g ip =
     do { reader \<leftarrow> gp_asn g;
          a \<leftarrow> parse ip;
          r \<leftarrow> reader a;
          Some \<lparr>gi_country_code = None, gi_asn = ar_number r, gi_org = ar_organization r\<rparr> }"

text \<open>The pipeline with these lookups.\<close>

definition with_geo :: "(string \<Rightarrow> 'ip option) \<Rightarrow> 'ip geo_ip \<Rightarrow> pipeline \<Rightarrow> pipeline" where
  "with_geo parse g cx =
     cx\<lparr>cx_city := \<lambda>ip. map_option gi_country_code (geo_lookup parse g ip),
        cx_asn := \<lambda>ip. map_option (\<lambda>i. (gi_asn i, gi_org i)) (geo_lookup_asn parse g ip)\<rparr>"

text \<open>Without databases the host is left as it is.\<close>

lemma without_databases:
  "update_country (with_geo parse (geo_open c a None None) cx) t ip i s = s"
  "update_asn (with_geo parse (geo_open c a None None) cx) t ip i s = (Ok (), s)"
  by (simp_all add: update_country_def update_asn_def with_geo_def geo_open_def geo_lookup_def geo_lookup_asn_def)

end
