(* ===== verification/Spec2Isabelle.thy ===== *)
theory Spec2Isabelle
  imports Startup Fifo Certificates GeoIp
begin

text \<open>
  A verification development for \<^bold>\<open>scanerr\<close>, a self-hosted scanner in the manner of Shodan: masscan finds
  hosts and open ports, probes identify the service behind a port, a fingerprint engine names the product,
  PostgreSQL keeps hosts, services and work queues, and a web server searches them.  The development is a
  shallow embedding of the Rust sources: structs are records, enums datatypes, fixed-width integers words
  (or integers where only their value matters), fallible functions return an outcome (value, error, panic)
  or an option, and stateful code passes its state.

  \<^bold>\<open>The program and its parts.\<close>  Five stages of \<open>src/main.rs\<close> share a database.  The sweep runs masscan over
  ranges (\<open>src/masscan.rs\<close>, \<open>src/config.rs\<close>) and queues the hosts that answer; the deep scan claims hosts, scans
  their ports and queues service probes; the probe stage claims probes, dispatches them
  (\<open>crates/scanerr-protocol\<close>), fingerprints the answer (\<open>crates/scanerr-fingerprint\<close>), normalizes it
  (\<open>src/normalize.rs\<close>) and stores it (\<open>src/probe/dispatch.rs\<close>), queueing enrichments; the enrichment stage
  (\<open>src/enrich\<close>) fetches favicons and camera frames; the server (\<open>src/serve\<close>) translates searches to SQL
  (\<open>src/query.rs\<close>) and renders pages.  The stages meet only in the leased queues of \<open>src/queue.rs\<close> and in
  the tables of \<open>migrations/\<close>.

  \<^bold>\<open>Theories.\<close>
  \<^item> \<open>Prelude\<close>, \<open>Utf8\<close>: outcomes, words, and the string and UTF-8 operations of Rust's standard library that
    the program uses, with their lemmas.  A \<open>&str\<close> is the list of its bytes, so offsets and slices are those
    of the code.
  \<^item> \<open>Models\<close>: the data model (\<open>models.rs\<close>) and JSON values.
  \<^item> \<open>QueryLex\<close>, \<open>QueryParse\<close>, \<open>QuerySql\<close>: tokenizer, parser and SQL compiler of \<open>src/query.rs\<close>.
  \<^item> \<open>Queue\<close>: the leased queues, the locale \<open>claimer\<close> with its three interpretations, and the transition
    system of workers with a lagging clock.
  \<^item> \<open>Net\<close>: TCP helpers over a scripted network (a list of connections, each a list of read outcomes).
    \<open>TextProbes\<close>, \<open>BinaryProbes\<close>, \<open>Ssh\<close>, \<open>Mqtt\<close>, \<open>Http\<close>: the probes.  \<open>Certificates\<close>, \<open>GeoIp\<close>: certificate data and
    the GeoIP lookups.
  \<^item> \<open>Select\<close>: the locale \<open>strict_ranking\<close> for loops that keep the best candidate, interpreted for the probe
    priorities in \<open>Dispatch\<close> and the signature ranking in \<open>Fingerprint\<close>.
  \<^item> \<open>Dispatch\<close>: the probe registry and the banner-first dispatcher.  \<open>Fingerprint\<close>, \<open>Loader\<close>, \<open>Tech\<close>: signatures,
    evidence, scoring, the corpus loader, technology detection.  \<open>Normalize\<close>: kinds, products, tags and the
    keyset-paginated backfill, with the locale \<open>normalizer\<close> of idempotent functions.
  \<^item> \<open>Pipeline\<close>: the tables, probing and storing one service, re-identification.  \<open>Config\<close>, \<open>Masscan\<close>: the port
    language and the masscan runs.  \<open>Stages\<close>: the handlers and turns of the stages and the relation \<open>db_step\<close>.
    \<open>Enrich\<close>: the enrichers.  \<open>Fifo\<close>: the abstract queue that the queue tables refine.
  \<^item> \<open>Loops\<close>: the endless loops of \<open>run_sweep\<close>, \<open>run_deepscan\<close>, \<open>run_probe\<close> and \<open>run_enrich\<close> and the tasks they spawn,
    as step relations with a control state each, the semaphore as its free permits.  \<open>World\<close>: processes made of
    these loops, which share the database and a clock and may be killed and restarted.  \<open>Progress\<close>: draining the
    probe queue and the probes in flight.
  \<^item> \<open>Serve\<close>: the handlers of the server.  \<open>Router\<close>: the connection pool's size and the route table.  \<open>Journey\<close>: an
    open port from its queue row to the document served.  \<open>Commands\<close>, \<open>Startup\<close>: the test commands and \<open>main\<close>.

  \<^bold>\<open>State.\<close>  A queue table is the list of its rows in insertion order with the next value of its identity
  column; \<open>hosts\<close>, \<open>services\<close> and \<open>service_assets\<close> are lists of row records.  The order of a list is the order in
  which the database reads the table, and every property holds for all of them.  Each SQL statement is one
  atomic function on these lists, with the constraints of the migrations as its error cases.  \<open>db_step\<close> has one
  step per statement, so that its paths are all interleavings of the concurrent tasks, and all prefixes of
  them when a task is cancelled or dies.  \<open>db_step\<close> forgets which task runs a statement; the relations of \<open>Loops\<close>
  and \<open>World\<close> keep the control state of every loop and task, and each of their steps is a path of \<open>db_step\<close>, so
  that an invariant of the database is proved once, and what depends on the control state above it.

  \<^bold>\<open>What the lemmas show.\<close>  Of the query language: which queries panic, that the parser terminates and inverts
  its token form, that the compiled WHERE clause, read with SQL's precedence and three-valued logic under
  the bound parameters, means the query for the trees in which parameters do not collide, and what goes
  wrong for the others.  Of the queues: mutual exclusion of unexpired leases, unique keys, the exact effect
  of a sweep.  Of the probes: round trips of the packet formats, absence or presence of panics, and which
  kinds a dispatch can report.  Of the fingerprint engine: the winner of a resolution, the bounds of the
  confidence in double precision, loading.  Of normalization: idempotence, allowed tags, one rewrite per
  row.  Of the stages: that every handler is a path of statements and one run of its task, what a turn does to
  its queue, retries after panics, that a task is over after a bounded number of statements, and that the probe
  loop empties its queue.  Of the world of processes: the invariant of database and assets, the bound on
  concurrent scans, the order of the sweep, that no queued work is lost by a crash, and what the loops leave
  open: leases that run out under a scan, and probes without bound.  Of the server: that an open port is
  probed, stored and served, grouping and counting, the routes, and the handlers that cannot answer.

  \<^bold>\<open>Bounds and fuel.\<close>  \<open>parse_tokens\<close> gives its recursive descent the fuel \<open>6 n + 6\<close> for \<open>n\<close> tokens, proved sufficient;
  every other recursion has a termination proof.  The redirect limit, the page size and the lease time are
  those of the code.  Reads before a deadline are counted by a parameter where the code uses a clock.

  \<^bold>\<open>Parameters.\<close>  Code that is not in the repository is a parameter: the HTTP client, \<open>ffmpeg\<close>, masscan, files, the
  TLS handshake and X.509 parser, regular expressions, SHA-256, base64, the TOML, YAML and JSON parsers and
  the serde conversions, MaxMind readers, templates, the cast to \<open>inet\<close>, the statement of a search, the order
  of hash maps, and the Unicode tables for case and alphanumeric characters outside ASCII.

  \<^bold>\<open>Not modelled.\<close>  Logging, the construction of HTTP clients, the opening of the connection pool, the
  scheduling of the Tokio runtime and its sleeps (the relations allow every schedule and every delay), the
  accept-all certificate verifier, argument parsing, templates and the signature corpus: they are configuration
  of library code or data.  The texts of library errors are not reproduced.  An enricher's run is one step of
  the world, whose inner statements are those of \<open>Enrich\<close>.
\<close>

end
